(* ===== verification/Prelude.thy ===== *)
theory Prelude
  imports Main "HOL-Library.Sublist"
begin

text \<open>
  Shared vocabulary of the development: Rust's \<open>Result\<close> as a sum (\<open>Inl\<close> the error),
  the \<open>?\<close> operator, \<open>Iterator::try_fold\<close>, and the string operations of the Rust
  standard library that the sources use (\<open>str::split\<close> on one character, joining with a
  separator, \<open>strip_prefix\<close>, \<open>rfind\<close>/\<open>truncate\<close>).

  A Rust \<open>str\<close> is the list of its UTF-8 bytes, an Isabelle \<open>string\<close>. Every character
  the sources test for is ASCII, and no byte of a multi-byte UTF-8 sequence is an ASCII
  byte, so tests on bytes and tests on characters agree.
\<close>

section \<open>Collections of facts\<close>

named_theorems split_simps \<open>equations for splitting and joining on a separator\<close>
named_theorems result_simps \<open>equations for results\<close>

section \<open>Results\<close>

type_synonym ('e, 'a) result = "'e + 'a"

definition is_ok :: "'e + 'a \<Rightarrow> bool" where
  "is_ok r = (case r of Inl _ \<Rightarrow> False | Inr _ \<Rightarrow> True)"

text \<open>The \<open>?\<close> operator: return the error, or go on with the value.\<close>

definition and_then :: "'e + 'a \<Rightarrow> ('a \<Rightarrow> 'e + 'b) \<Rightarrow> 'e + 'b" where
  "and_then r k = (case r of Inl e \<Rightarrow> Inl e | Inr a \<Rightarrow> k a)"

definition map_err :: "('e \<Rightarrow> 'f) \<Rightarrow> 'e + 'a \<Rightarrow> 'f + 'a" where
  "map_err f r = (case r of Inl e \<Rightarrow> Inl (f e) | Inr a \<Rightarrow> Inr a)"

definition map_ok :: "('a \<Rightarrow> 'b) \<Rightarrow> 'e + 'a \<Rightarrow> 'e + 'b" where
  "map_ok f r = (case r of Inl e \<Rightarrow> Inl e | Inr a \<Rightarrow> Inr (f a))"

definition ok_or :: "'e \<Rightarrow> 'a option \<Rightarrow> 'e + 'a" where
  "ok_or e x = (case x of None \<Rightarrow> Inl e | Some a \<Rightarrow> Inr a)"

text \<open>\<open>Iterator::try_fold\<close>: a left fold that stops at the first error.\<close>

fun try_fold :: "('s \<Rightarrow> 'x \<Rightarrow> 'e + 's) \<Rightarrow> 's \<Rightarrow> 'x list \<Rightarrow> 'e + 's" where
  "try_fold f s [] = Inr s"
| "try_fold f s (x # xs) = (case f s x of Inl e \<Rightarrow> Inl e | Inr s' \<Rightarrow> try_fold f s' xs)"

lemma is_ok_simps [simp, result_simps]:
  "is_ok (Inr a) = True" "is_ok (Inl e) = False"
  by (simp_all add: is_ok_def)

lemma and_then_simps [simp, result_simps]:
  "and_then (Inl e) k = Inl e" "and_then (Inr a) k = k a"
  by (simp_all add: and_then_def)

lemma map_err_simps [simp, result_simps]:
  "map_err f (Inl e) = Inl (f e)" "map_err f (Inr a) = Inr a"
  by (simp_all add: map_err_def)

lemma map_ok_simps [simp, result_simps]:
  "map_ok f (Inl e) = Inl e" "map_ok f (Inr a) = Inr (f a)"
  by (simp_all add: map_ok_def)

lemma ok_or_simps [simp, result_simps]:
  "ok_or e None = Inl e" "ok_or e (Some a) = Inr a"
  by (simp_all add: ok_or_def)

lemma and_then_eq_Inr [simp]: "and_then r k = Inr b \<longleftrightarrow> (\<exists>a. r = Inr a \<and> k a = Inr b)"
  by (cases r) auto

lemma map_err_eq_Inr [simp]: "map_err f r = Inr a \<longleftrightarrow> r = Inr a"
  by (cases r) auto

lemma map_ok_eq_Inr [simp]: "map_ok f r = Inr b \<longleftrightarrow> (\<exists>a. r = Inr a \<and> b = f a)"
  by (cases r) auto

lemma ok_or_eq_Inr [simp]: "ok_or e x = Inr a \<longleftrightarrow> x = Some a"
  by (cases x) auto

text \<open>An invariant kept by every successful step is kept by the whole fold.\<close>

lemma try_fold_invariant:
  assumes run: "try_fold f s xs = Inr s'" and init: "P s"
    and step: "\<And>s x s'. P s \<Longrightarrow> x \<in> set xs \<Longrightarrow> f s x = Inr s' \<Longrightarrow> P s'"
  shows "P s'"
  using run init step
proof (induction xs arbitrary: s)
  case (Cons x xs)
  from Cons.prems(1) obtain t where t: "f s x = Inr t" "try_fold f t xs = Inr s'"
    by (auto split: sum.splits)
  have "P t"
    using Cons.prems(2) _ t(1) by (rule Cons.prems(3)) simp
  with t(2) show ?case
    by (rule Cons.IH) (rule Cons.prems(3), auto)
qed simp

lemma try_fold_append:
  "try_fold f s (xs @ ys) = and_then (try_fold f s xs) (\<lambda>t. try_fold f t ys)"
  by (induction xs arbitrary: s) (auto split: sum.splits)

section \<open>Splitting and joining\<close>

text \<open>\<open>str::split(c)\<close>: the pieces between the occurrences of \<open>c\<close>; never empty.\<close>

fun split_on :: "'a \<Rightarrow> 'a list \<Rightarrow> 'a list list" where
  "split_on c [] = [[]]"
| "split_on c (x # xs) =
     (if x = c then [] # split_on c xs
      else (case split_on c xs of [] \<Rightarrow> [[x]] | y # ys \<Rightarrow> (x # y) # ys))"

fun join_with :: "'a \<Rightarrow> 'a list list \<Rightarrow> 'a list" where
  "join_with c [] = []"
| "join_with c [x] = x"
| "join_with c (x # y # ys) = x @ c # join_with c (y # ys)"

lemma split_on_not_Nil [simp]: "split_on c xs \<noteq> []"
  by (induction xs) (auto split: list.splits)

lemma length_split_on_pos [simp]: "0 < length (split_on c xs)"
  by simp

lemma join_with_Cons [split_simps]:
  "ys \<noteq> [] \<Longrightarrow> join_with c (x # ys) = x @ c # join_with c ys"
  by (cases ys) auto

lemma join_with_Cons_Cons: "join_with c ((x # y) # ys) = x # join_with c (y # ys)"
  by (cases ys) auto

lemma join_split [simp]: "join_with c (split_on c xs) = xs"
  by (induction xs) (auto simp: join_with_Cons join_with_Cons_Cons split: list.splits)

lemma split_on_notin [split_simps]: "c \<notin> set xs \<Longrightarrow> split_on c xs = [xs]"
  by (induction xs) auto

lemma split_on_append [split_simps]: "split_on c (xs @ c # ys) = split_on c xs @ split_on c ys"
  by (induction xs) (auto split: list.splits)

lemma split_on_pieces: "x \<in> set (split_on c xs) \<Longrightarrow> c \<notin> set x"
proof (induction xs arbitrary: x)
  case (Cons a xs)
  then show ?case
    by (cases "split_on c xs") (auto split: if_splits)
qed simp

lemma split_join [split_simps]:
  "xs \<noteq> [] \<Longrightarrow> \<forall>x \<in> set xs. c \<notin> set x \<Longrightarrow> split_on c (join_with c xs) = xs"
  by (induction c xs rule: join_with.induct) (auto simp: split_on_append split_on_notin)

lemma join_with_append [split_simps]:
  "xs \<noteq> [] \<Longrightarrow> ys \<noteq> [] \<Longrightarrow> join_with c (xs @ ys) = join_with c xs @ c # join_with c ys"
  by (induction c xs rule: join_with.induct) (auto simp: join_with_Cons)

lemma length_split_on_one: "length (split_on c xs) < 2 \<longleftrightarrow> c \<notin> set xs"
proof
  assume "length (split_on c xs) < 2"
  then have "length (split_on c xs) = 1"
    using length_split_on_pos [of c xs] by linarith
  then obtain y where y: "split_on c xs = [y]"
    by (auto simp: length_Suc_conv)
  then have "xs = y" using join_split [of c xs] by simp
  then show "c \<notin> set xs" using split_on_pieces [of y c xs] y by simp
qed (simp add: split_on_notin)

lemma set_concat_split: "x \<noteq> c \<Longrightarrow> (\<exists>p \<in> set (split_on c xs). x \<in> set p) \<longleftrightarrow> x \<in> set xs"
proof (induction xs)
  case (Cons a xs)
  then show ?case
    by (cases "split_on c xs") auto
qed simp

lemma count_split_on:
  "x \<noteq> c \<Longrightarrow> sum_list (map (\<lambda>p. count_list p x) (split_on c xs)) = count_list xs x"
proof (induction xs)
  case (Cons a xs)
  then show ?case
    by (cases "split_on c xs") auto
qed simp

section \<open>Prefixes\<close>

text \<open>\<open>str::strip_prefix\<close>.\<close>

fun strip_pre :: "'a list \<Rightarrow> 'a list \<Rightarrow> 'a list option" where
  "strip_pre [] ys = Some ys"
| "strip_pre (x # xs) [] = None"
| "strip_pre (x # xs) (y # ys) = (if x = y then strip_pre xs ys else None)"

lemma strip_pre_Some [simp]: "strip_pre xs ys = Some zs \<longleftrightarrow> ys = xs @ zs"
  by (induction xs ys rule: strip_pre.induct) auto

lemma strip_pre_None: "strip_pre xs ys = None \<longleftrightarrow> \<not> prefix xs ys"
  by (induction xs ys rule: strip_pre.induct) auto

text \<open>\<open>str::rfind\<close> followed by \<open>truncate\<close>: what precedes the last occurrence.\<close>

definition before_last :: "'a \<Rightarrow> 'a list \<Rightarrow> 'a list option" where
  "before_last c xs =
     (if c \<in> set xs then Some (rev (tl (dropWhile (\<lambda>x. x \<noteq> c) (rev xs)))) else None)"

lemma before_last_append:
  "c \<notin> set ys \<Longrightarrow> before_last c (xs @ c # ys) = Some xs"
proof -
  assume c: "c \<notin> set ys"
  then have "dropWhile (\<lambda>x. x \<noteq> c) (rev ys @ c # rev xs) = c # rev xs"
    by (subst dropWhile_append2) auto
  then show ?thesis
    by (simp add: before_last_def)
qed

lemma before_last_None: "before_last c xs = None \<longleftrightarrow> c \<notin> set xs"
  by (simp add: before_last_def)

end
