(* ===== verification/Ref_Check.thy ===== *)
theory Ref_Check
  imports Prelude
begin

text \<open>
  The refname checker of \<open>git-ref-format/core/src/check.rs\<close>: its options, its error
  type, the scan over the characters of one path component, the loop over the components
  and \<open>ref_format\<close> itself, followed by the specification it implements.
\<close>

section \<open>The checker\<close>

record check_options =
  allow_onelevel :: bool
  allow_pattern :: bool

datatype check_error =
    Empty
  | LoneAt
  | Slash
  | DotLock
  | DotDot
  | AtOpenBrace
  | InvalidChar char
  | StartsDot
  | EndsDot
  | Control
  | Space
  | Pattern
  | OneLevel

text \<open>\<open>char::is_ascii_control\<close>: the code points 0 to 31 and 127.\<close>

definition is_ascii_control :: "char \<Rightarrow> bool" where
  "is_ascii_control c = (of_char c < (32::nat) \<or> of_char c = (127::nat))"

text \<open>
  The characters of a component, each with its successor. The successor stream is
  \<open>x.chars().cycle().skip(1)\<close>, so the last character is paired with the first one.
\<close>

definition char_pairs :: "string \<Rightarrow> (char \<times> char) list" where
  "char_pairs x = zip x (rotate1 x)"

text \<open>
  The inner loop: \<open>last_char\<close> is the index of the last character, \<open>i\<close> the index of
  the current one, and \<open>globs\<close> counts the asterisks seen so far in the whole refname.
\<close>

fun check_chars :: "nat \<Rightarrow> nat \<Rightarrow> nat \<Rightarrow> (char \<times> char) list \<Rightarrow> check_error + nat" where
  "check_chars last_char i globs [] = Inr globs"
| "check_chars last_char i globs ((y, y') # ys) =
     (if y = CHR ''.'' \<and> y' = CHR ''.'' then Inl DotDot
      else if y = CHR ''@'' \<and> y' = CHR ''{'' then Inl AtOpenBrace
      else if y = CHR 0x00 then Inl (InvalidChar (CHR 0x00))
      else if y = CHR 0x5C then Inl (InvalidChar (CHR 0x5C))
      else if y = CHR ''~'' then Inl (InvalidChar (CHR ''~''))
      else if y = CHR ''^'' then Inl (InvalidChar (CHR ''^''))
      else if y = CHR '':'' then Inl (InvalidChar (CHR '':''))
      else if y = CHR ''?'' then Inl (InvalidChar (CHR ''?''))
      else if y = CHR ''['' then Inl (InvalidChar (CHR ''[''))
      else if y = CHR ''*'' then check_chars last_char (Suc i) (Suc globs) ys
      else if y = CHR ''.'' \<and> i = 0 then Inl StartsDot
      else if y = CHR ''.'' \<and> i = last_char then Inl EndsDot
      else if y = CHR '' '' then Inl Space
      else if is_ascii_control y then Inl Control
      else check_chars last_char (Suc i) globs ys)"

definition ends_with :: "string \<Rightarrow> string \<Rightarrow> bool" where
  "ends_with x s = suffix s x"

text \<open>The outer loop over \<open>s.split('/')\<close>, with its counters \<open>globs\<close> and \<open>parts\<close>.\<close>

fun check_parts :: "nat \<Rightarrow> nat \<Rightarrow> string list \<Rightarrow> check_error + nat \<times> nat" where
  "check_parts globs parts [] = Inr (globs, parts)"
| "check_parts globs parts (x # xs) =
     (if x = [] then Inl Slash
      else if ends_with x ''.lock'' then Inl DotLock
      else (case check_chars (length x - 1) 0 globs (char_pairs x) of
              Inl e \<Rightarrow> Inl e
            | Inr globs' \<Rightarrow> check_parts globs' (Suc parts) xs))"

definition ref_format :: "check_options \<Rightarrow> string \<Rightarrow> check_error + unit" where
  "ref_format opts s =
     (if s = '''' then Inl Empty
      else if s = ''@'' then Inl LoneAt
      else if s = ''.'' then Inl StartsDot
      else (case check_parts 0 0 (split_on (CHR ''/'') s) of
              Inl e \<Rightarrow> Inl e
            | Inr (globs, parts) \<Rightarrow>
                if parts < 2 \<and> \<not> allow_onelevel opts then Inl OneLevel
                else if globs > 1 \<and> allow_pattern opts then Inl Pattern
                else if globs > 0 \<and> \<not> allow_pattern opts then Inl (InvalidChar (CHR ''*''))
                else Inr ()))"

section \<open>The specification\<close>

text \<open>
  The characters \<open>git check-ref-format\<close> forbids anywhere in a component. The slash cannot
  occur in a component, and the asterisk is counted for the whole name.
\<close>

definition forbidden_char :: "char \<Rightarrow> bool" where
  "forbidden_char c =
     (is_ascii_control c \<or> c \<in> set '' ~^:?['' \<or> c = CHR 0x5C)"

text \<open>
  A well-formed component. The last conjunct is not one of git's rules: it is what the
  cyclic pairing of characters adds.
\<close>

definition component_ok :: "string \<Rightarrow> bool" where
  "component_ok x =
     (x \<noteq> [] \<and> \<not> suffix ''.lock'' x
      \<and> hd x \<noteq> CHR ''.'' \<and> last x \<noteq> CHR ''.''
      \<and> \<not> sublist ''..'' x \<and> \<not> sublist [CHR ''@'', CHR 0x7B] x
      \<and> list_all (\<lambda>c. \<not> forbidden_char c) x
      \<and> \<not> (last x = CHR ''@'' \<and> hd x = CHR ''{''))"

definition globs_ok :: "check_options \<Rightarrow> string \<Rightarrow> bool" where
  "globs_ok opts s = (count_list s (CHR ''*'') \<le> (if allow_pattern opts then 1 else 0))"

definition refname_ok :: "check_options \<Rightarrow> string \<Rightarrow> bool" where
  "refname_ok opts s =
     (s \<noteq> ''@'' \<and> list_all component_ok (split_on (CHR ''/'') s)
      \<and> (allow_onelevel opts \<or> CHR ''/'' \<in> set s) \<and> globs_ok opts s)"

section \<open>The checker implements the specification\<close>

text \<open>What the inner loop accepts, one pair at a time.\<close>

definition pair_ok :: "nat \<Rightarrow> nat \<Rightarrow> char \<times> char \<Rightarrow> bool" where
  "pair_ok last_char i p =
     (p \<noteq> (CHR ''.'', CHR ''.'') \<and> p \<noteq> (CHR ''@'', CHR ''{'')
      \<and> \<not> (fst p = CHR ''.'' \<and> (i = 0 \<or> i = last_char)) \<and> \<not> forbidden_char (fst p))"

lemma star_allowed: "\<not> forbidden_char (CHR ''*'')"
  by (simp add: forbidden_char_def is_ascii_control_def)

lemma nul_control: "is_ascii_control (CHR 0x00)"
  by (simp add: is_ascii_control_def)

lemma check_chars_step:
  assumes "pair_ok n i (y, y')"
  shows "check_chars n i g ((y, y') # ys) =
    check_chars n (Suc i) (if y = CHR ''*'' then Suc g else g) ys"
proof -
  from assms have "\<not> is_ascii_control y" "y \<noteq> CHR 0x5C" "y \<noteq> CHR '' ''" "y \<noteq> CHR ''~''"
    "y \<noteq> CHR ''^''" "y \<noteq> CHR '':''" "y \<noteq> CHR ''?''" "y \<noteq> CHR ''[''"
    "\<not> (y = CHR ''.'' \<and> y' = CHR ''.'')" "\<not> (y = CHR ''@'' \<and> y' = CHR ''{'')"
    "\<not> (y = CHR ''.'' \<and> i = 0)" "\<not> (y = CHR ''.'' \<and> i = n)"
    by (simp_all add: pair_ok_def forbidden_char_def)
  moreover from this(1) have "y \<noteq> CHR 0x00"
    using nul_control by auto
  ultimately show ?thesis
    by (cases "y = CHR ''*''") (simp_all only: check_chars.simps if_False if_True simp_thms)
qed

lemma check_chars_stop:
  assumes "check_chars n i g ((y, y') # ys) = Inr g'"
  shows "pair_ok n i (y, y')"
proof -
  from assms have "\<not> (y = CHR ''.'' \<and> y' = CHR ''.'')" "\<not> (y = CHR ''@'' \<and> y' = CHR ''{'')"
    "y \<noteq> CHR 0x5C" "y \<noteq> CHR ''~''" "y \<noteq> CHR ''^''" "y \<noteq> CHR '':''" "y \<noteq> CHR ''?''"
    "y \<noteq> CHR ''[''"
    by (simp_all only: check_chars.simps split: if_splits) simp_all
  moreover from assms this have "y = CHR ''*'' \<or> (y \<noteq> CHR '' '' \<and> \<not> is_ascii_control y
      \<and> \<not> (y = CHR ''.'' \<and> i = 0) \<and> \<not> (y = CHR ''.'' \<and> i = n))"
    by (simp only: check_chars.simps split: if_splits) simp_all
  moreover have "\<not> forbidden_char (CHR ''*'')" by (rule star_allowed)
  ultimately show ?thesis
    by (auto simp: pair_ok_def forbidden_char_def)
qed

lemma check_chars_Inr:
  "check_chars n i g ps = Inr g' \<longleftrightarrow>
     (\<forall>j < length ps. pair_ok n (i + j) (ps ! j)) \<and>
     g' = g + count_list (map fst ps) (CHR ''*'')"
proof (induction ps arbitrary: i g)
  case (Cons p ps)
  obtain y y' where p: "p = (y, y')" by (cases p)
  have all: "(\<forall>j < length (p # ps). pair_ok n (i + j) ((p # ps) ! j)) \<longleftrightarrow>
      pair_ok n i p \<and> (\<forall>j < length ps. pair_ok n (Suc i + j) (ps ! j))"
    using less_Suc_eq_0_disj by auto
  show ?case
  proof (cases "pair_ok n i p")
    case True
    then show ?thesis
      unfolding all using Cons.IH by (simp add: p check_chars_step del: check_chars.simps)
  next
    case False
    then show ?thesis
      unfolding all using check_chars_stop p by blast
  qed
qed auto


text \<open>The cyclic pairs of a component, read by position.\<close>

lemma nth_char_pairs:
  "j < length x \<Longrightarrow> char_pairs x ! j = (x ! j, x ! (Suc j mod length x))"
  by (simp add: char_pairs_def nth_rotate1)

lemma length_char_pairs [simp]: "length (char_pairs x) = length x"
  by (simp add: char_pairs_def)

lemma map_fst_char_pairs [simp]: "map fst (char_pairs x) = x"
  by (simp add: char_pairs_def)

lemma sublist_pair_iff:
  "sublist [a, b] x \<longleftrightarrow> (\<exists>j. Suc j < length x \<and> x ! j = a \<and> x ! Suc j = b)"
proof
  assume "sublist [a, b] x"
  then obtain us vs where "x = us @ [a, b] @ vs" by (auto simp: sublist_def)
  then show "\<exists>j. Suc j < length x \<and> x ! j = a \<and> x ! Suc j = b"
    by (intro exI [of _ "length us"]) (simp add: nth_append)
next
  assume "\<exists>j. Suc j < length x \<and> x ! j = a \<and> x ! Suc j = b"
  then obtain j where j: "Suc j < length x" "x ! j = a" "x ! Suc j = b" by blast
  then have "x = take j x @ [a, b] @ drop (Suc (Suc j)) x"
    by (metis Cons_nth_drop_Suc Suc_lessD append_Cons append_Nil append_take_drop_id)
  then show "sublist [a, b] x" by (metis sublist_appendI)
qed

text \<open>All cyclic pairs of a list: the adjacent ones, and last with first.\<close>

lemma cyclic_pairs_iff:
  assumes "x \<noteq> []"
  shows "(\<forall>j < length x. (x ! j, x ! (Suc j mod length x)) \<noteq> (a, b)) \<longleftrightarrow>
    \<not> sublist [a, b] x \<and> \<not> (last x = a \<and> hd x = b)"
proof -
  obtain n where n: "length x = Suc n" using assms by (cases x) auto
  have ends: "last x = x ! n" "hd x = x ! 0"
    using assms n by (simp_all add: last_conv_nth hd_conv_nth)
  have "(\<exists>j < length x. x ! j = a \<and> x ! (Suc j mod length x) = b) \<longleftrightarrow>
      (\<exists>j < n. x ! j = a \<and> x ! Suc j = b) \<or> (x ! n = a \<and> x ! 0 = b)"
  proof -
    have "(\<exists>j < Suc n. P j) \<longleftrightarrow> (\<exists>j < n. P j) \<or> P n" for P using less_Suc_eq by auto
    moreover have "j < n \<Longrightarrow> Suc j mod Suc n = Suc j" for j by simp
    ultimately show ?thesis unfolding n by (simp cong: conj_cong)
  qed
  then show ?thesis
    unfolding sublist_pair_iff ends n by auto
qed

lemma pairs_ok_iff:
  assumes "x \<noteq> []"
  shows "(\<forall>j < length x. pair_ok (length x - 1) (0 + j) (char_pairs x ! j)) \<longleftrightarrow>
    hd x \<noteq> CHR ''.'' \<and> last x \<noteq> CHR ''.'' \<and> \<not> sublist ''..'' x \<and> \<not> sublist [CHR ''@'', CHR 0x7B] x
    \<and> list_all (\<lambda>c. \<not> forbidden_char c) x \<and> \<not> (last x = CHR ''@'' \<and> hd x = CHR ''{'')"
proof -
  have ends: "last x = x ! (length x - 1)" "hd x = x ! 0"
    using assms by (simp_all add: last_conv_nth hd_conv_nth)
  have dots: "(\<forall>j < length x. \<not> (x ! j = CHR ''.'' \<and> (j = 0 \<or> j = length x - 1))) \<longleftrightarrow>
      hd x \<noteq> CHR ''.'' \<and> last x \<noteq> CHR ''.''"
    unfolding ends using assms by (metis diff_less length_greater_0_conv zero_less_one)
  have "(\<forall>j < length x. pair_ok (length x - 1) (0 + j) (char_pairs x ! j)) \<longleftrightarrow>
      (\<forall>j < length x. (x ! j, x ! (Suc j mod length x)) \<noteq> (CHR ''.'', CHR ''.''))
      \<and> (\<forall>j < length x. (x ! j, x ! (Suc j mod length x)) \<noteq> (CHR ''@'', CHR ''{''))
      \<and> (\<forall>j < length x. \<not> (x ! j = CHR ''.'' \<and> (j = 0 \<or> j = length x - 1)))
      \<and> list_all (\<lambda>c. \<not> forbidden_char c) x"
    by (auto simp: pair_ok_def nth_char_pairs list_all_length)
  then show ?thesis
    unfolding cyclic_pairs_iff [OF assms] dots by blast
qed

lemma check_component:
  assumes "x \<noteq> []" "\<not> suffix ''.lock'' x"
  shows "check_chars (length x - 1) 0 g (char_pairs x) = Inr g' \<longleftrightarrow>
    component_ok x \<and> g' = g + count_list x (CHR ''*'')"
  unfolding check_chars_Inr length_char_pairs map_fst_char_pairs pairs_ok_iff [OF assms(1)]
    component_ok_def
  using assms by blast

lemma check_parts_Inr:
  "check_parts g n xs = Inr r \<longleftrightarrow>
     list_all component_ok xs
     \<and> r = (g + sum_list (map (\<lambda>x. count_list x (CHR ''*'')) xs), n + length xs)"
proof (induction xs arbitrary: g n)
  case (Cons x xs)
  show ?case
  proof (cases "x = [] \<or> suffix ''.lock'' x")
    case True
    then show ?thesis by (auto simp: ends_with_def component_ok_def)
  next
    case False
    have "check_parts g n (x # xs) = Inr r \<longleftrightarrow>
        (\<exists>g'. check_chars (length x - 1) 0 g (char_pairs x) = Inr g'
          \<and> check_parts g' (Suc n) xs = Inr r)"
      using False by (auto simp: ends_with_def split: sum.splits)
    also have "\<dots> \<longleftrightarrow> component_ok x \<and> check_parts (g + count_list x (CHR ''*'')) (Suc n) xs = Inr r"
      using False by (auto simp only: check_component de_Morgan_disj ex_simps simp_thms)
    finally show ?thesis
      by (auto simp del: check_parts.simps simp: Cons.IH add.assoc)
  qed
qed auto

lemma ref_format_iff: "ref_format opts s = Inr () \<longleftrightarrow> refname_ok opts s"
proof (cases "s = '''' \<or> s = ''@'' \<or> s = ''.''")
  case True
  then show ?thesis
    by (auto simp: ref_format_def refname_ok_def component_ok_def)
next
  case False
  let ?xs = "split_on (CHR ''/'') s"
  have "ref_format opts s = Inr () \<longleftrightarrow>
      (\<exists>g n. check_parts 0 0 ?xs = Inr (g, n) \<and> \<not> (n < 2 \<and> \<not> allow_onelevel opts)
        \<and> \<not> (g > 1 \<and> allow_pattern opts) \<and> \<not> (g > 0 \<and> \<not> allow_pattern opts))"
    using False by (auto simp: ref_format_def split: sum.splits if_splits)
  also have "\<dots> \<longleftrightarrow> list_all component_ok ?xs \<and> (allow_onelevel opts \<or> CHR ''/'' \<in> set s)
      \<and> globs_ok opts s"
    unfolding check_parts_Inr globs_ok_def
    by (auto simp: count_split_on length_split_on_one)
  finally show ?thesis using False by (simp add: refname_ok_def)
qed

section \<open>Properties\<close>

text \<open>
  C4: the checker accepts a string exactly when it is a well-formed refname: it is not the
  single at sign; no component is empty, ends in \<open>.lock\<close>, starts or ends with a dot, or
  contains two consecutive dots, an at-open-brace, a control character, whitespace or one of
  git's special characters; there are as many components as the options ask for; and there
  is no asterisk, or at most one where patterns are allowed. The one deviation from git's
  rules is that a component that starts with an open brace may not end with an at sign.
\<close>

theorem ref_format_correct:
  "ref_format opts s = Inr () \<longleftrightarrow>
     s \<noteq> ''@''
     \<and> (\<forall>x \<in> set (split_on (CHR ''/'') s).
          x \<noteq> [] \<and> \<not> suffix ''.lock'' x \<and> hd x \<noteq> CHR ''.'' \<and> last x \<noteq> CHR ''.''
          \<and> \<not> sublist ''..'' x \<and> \<not> sublist [CHR ''@'', CHR 0x7B] x \<and> (\<forall>c \<in> set x. \<not> forbidden_char c)
          \<and> \<not> (last x = CHR ''@'' \<and> hd x = CHR ''{''))
     \<and> (allow_onelevel opts \<or> CHR ''/'' \<in> set s)
     \<and> count_list s (CHR ''*'') \<le> (if allow_pattern opts then 1 else 0)"
  unfolding ref_format_iff refname_ok_def component_ok_def globs_ok_def list_all_iff by blast

text \<open>Evaluated on both sides of the rules.\<close>

theorem ref_format_correct_witness:
  "ref_format \<lparr>allow_onelevel = False, allow_pattern = True\<rparr> ''refs/heads/*'' = Inr ()
   \<and> ref_format \<lparr>allow_onelevel = False, allow_pattern = False\<rparr> ''refs/heads/*''
       = Inl (InvalidChar (CHR ''*''))
   \<and> count_list ''refs/heads/*'' (CHR ''*'') \<le> 1"
proof (intro conjI)
  have "ref_format \<lparr>allow_onelevel = False, allow_pattern = True\<rparr> ''refs/heads/*'' = Inr ()"
    by code_simp
  then show "count_list ''refs/heads/*'' (CHR ''*'') \<le> 1"
    unfolding ref_format_correct by simp
qed code_simp+

end
