(* ===== verification/Ref_Name.thy ===== *)
theory Ref_Name
  imports Ref_Check
begin

text \<open>
  Validated refnames and the types derived from them: \<open>RefStr\<close>, \<open>RefString\<close> and
  \<open>Component\<close> of \<open>git-ref-format/core/src/name.rs\<close> and \<open>name/iter.rs\<close>, the literal
  components of \<open>lit.rs\<close>, \<open>Qualified\<close> and \<open>Namespaced\<close> of \<open>deriv.rs\<close>, and the
  patterns of \<open>refspec.rs\<close> and \<open>refspec/iter.rs\<close>.

  Borrowed and owned forms of a name are one type here, the \<open>string\<close> they wrap, and a
  mutating method returns the new string. The validity the Rust types stand for is the
  predicate \<open>is_refstr\<close> (or \<open>is_qualified\<close>, \<open>is_pattern\<close>). Where the code panics
  (\<open>unwrap\<close>, \<open>expect\<close>, \<open>assert!\<close>) the model returns \<open>None\<close>.
\<close>

section \<open>Literals\<close>

definition REFS :: string where "REFS = ''refs''"
definition HEADS :: string where "HEADS = ''heads''"
definition NAMESPACES :: string where "NAMESPACES = ''namespaces''"
definition REMOTES :: string where "REMOTES = ''remotes''"
definition TAGS :: string where "TAGS = ''tags''"
definition NOTES :: string where "NOTES = ''notes''"
definition RAD :: string where "RAD = ''rad''"
definition ID :: string where "ID = ''id''"
definition IDS :: string where "IDS = ''ids''"
definition SELF :: string where "SELF = ''self''"
definition SIGNED_REFS :: string where "SIGNED_REFS = ''signed_refs''"
definition COBS :: string where "COBS = ''cobs''"

lemmas literal_defs = REFS_def HEADS_def NAMESPACES_def REMOTES_def TAGS_def NOTES_def
  RAD_def ID_def IDS_def SELF_def SIGNED_REFS_def COBS_def

datatype known_lit =
    Refs | Heads | Namespaces | Remotes | Tags | Notes
  | Rad | Id_lit | Ids | Selv | SignedRefs | Cobs

definition known_lit_from_component :: "string \<Rightarrow> known_lit option" where
  "known_lit_from_component c =
     (if c = REFS then Some Refs
      else if c = HEADS then Some Heads
      else if c = NAMESPACES then Some Namespaces
      else if c = REMOTES then Some Remotes
      else if c = TAGS then Some Tags
      else if c = NOTES then Some Notes
      else if c = RAD then Some Rad
      else if c = ID then Some Id_lit
      else if c = IDS then Some Ids
      else if c = SELF then Some Selv
      else if c = SIGNED_REFS then Some SignedRefs
      else if c = COBS then Some Cobs
      else None)"

fun component_from_known_lit :: "known_lit \<Rightarrow> string" where
  "component_from_known_lit Refs = REFS"
| "component_from_known_lit Heads = HEADS"
| "component_from_known_lit Namespaces = NAMESPACES"
| "component_from_known_lit Remotes = REMOTES"
| "component_from_known_lit Tags = TAGS"
| "component_from_known_lit Notes = NOTES"
| "component_from_known_lit Rad = RAD"
| "component_from_known_lit Id_lit = ID"
| "component_from_known_lit Ids = IDS"
| "component_from_known_lit Selv = SELF"
| "component_from_known_lit SignedRefs = SIGNED_REFS"
| "component_from_known_lit Cobs = COBS"

datatype some_lit = Known known_lit | Any string

definition some_lit_from_component :: "string \<Rightarrow> some_lit" where
  "some_lit_from_component c =
     (case known_lit_from_component c of Some k \<Rightarrow> Known k | None \<Rightarrow> Any c)"

fun component_from_some_lit :: "some_lit \<Rightarrow> string" where
  "component_from_some_lit (Known k) = component_from_known_lit k"
| "component_from_some_lit (Any c) = c"

section \<open>Refnames\<close>

abbreviation slash :: char where "slash \<equiv> CHR ''/''"

definition name_check_opts :: check_options where
  "name_check_opts = \<lparr>allow_onelevel = True, allow_pattern = False\<rparr>"

definition refstr_try_from :: "string \<Rightarrow> check_error + string" where
  "refstr_try_from s = map_ok (\<lambda>_. s) (ref_format name_check_opts s)"

definition refstr_strip_prefix :: "string \<Rightarrow> string \<Rightarrow> string option" where
  "refstr_strip_prefix s base = Option.bind (strip_pre base s) (strip_pre [slash])"

definition refstring_push :: "string \<Rightarrow> string \<Rightarrow> string" where
  "refstring_push s other = (s @ [slash]) @ other"

definition refstr_join :: "string \<Rightarrow> string \<Rightarrow> string" where
  "refstr_join s other = (let buf = s in refstring_push buf other)"

definition refstring_and :: "string \<Rightarrow> string \<Rightarrow> string" where
  "refstring_and s other = refstring_push s other"

text \<open>\<open>pop\<close> returns whether a component was removed, with the new string.\<close>

definition refstring_pop :: "string \<Rightarrow> bool \<times> string" where
  "refstring_pop s = (case before_last slash s of None \<Rightarrow> (False, s) | Some p \<Rightarrow> (True, p))"

definition refstring_with_pattern :: "string \<Rightarrow> string \<Rightarrow> string" where
  "refstring_with_pattern s pattern = (s @ [slash]) @ pattern"

definition refstr_iter :: "string \<Rightarrow> string list" where
  "refstr_iter s = split_on slash s"

definition refstr_components :: "string \<Rightarrow> string list" where
  "refstr_components s = split_on slash s"

definition refstr_head :: "string \<Rightarrow> string option" where
  "refstr_head s = (case refstr_components s of [] \<Rightarrow> None | c # _ \<Rightarrow> Some c)"

definition component_from_refstring :: "string \<Rightarrow> string option" where
  "component_from_refstring r = (if slash \<notin> set r then Some r else None)"

text \<open>\<open>FromIterator\<close>: each component followed by a slash, the last slash cut off.\<close>

definition refstring_from_iter :: "string list \<Rightarrow> string option" where
  "refstring_from_iter cs =
     (let buf = fold (\<lambda>c buf. (buf @ c) @ [slash]) cs []
      in if buf = [] then None else Some (take (length buf - 1) buf))"

definition refstring_extend :: "string \<Rightarrow> string list \<Rightarrow> string" where
  "refstring_extend s xs = fold (\<lambda>x buf. refstring_push buf x) xs s"

section \<open>Qualified and namespaced refs\<close>

text \<open>\<open>Qualified::from_components\<close>: the leading \<open>refs\<close> is implicit.\<close>

definition qualified_from_components :: "string \<Rightarrow> string \<Rightarrow> string list \<Rightarrow> string" where
  "qualified_from_components a b tail =
     (let inner = refstring_and (refstr_join REFS a) b in refstring_extend inner tail)"

definition qualified_from_refstr :: "string \<Rightarrow> string option" where
  "qualified_from_refstr r =
     (case refstr_iter r of
        a # b # c # _ \<Rightarrow> if a = ''refs'' then Some r else None
      | _ \<Rightarrow> None)"

definition qualified_join :: "string \<Rightarrow> string \<Rightarrow> string" where
  "qualified_join q other = refstr_join q other"

definition namespaced_from_refstr :: "string \<Rightarrow> string option" where
  "namespaced_from_refstr rs =
     (case refstr_iter rs of
        a # b # c # d # _ \<Rightarrow>
          if a = ''refs'' \<and> b = ''namespaces'' \<and> d = ''refs'' then Some rs else None
      | _ \<Rightarrow> None)"

definition qualified_add_namespace :: "string \<Rightarrow> string \<Rightarrow> string option" where
  "qualified_add_namespace q ns =
     refstring_from_iter ([REFS, NAMESPACES, ns] @ refstr_components q)"

definition qualified_non_empty_components ::
  "string \<Rightarrow> (string \<times> string \<times> string \<times> string list) option" where
  "qualified_non_empty_components q =
     (case refstr_components q of a # b # c # cs \<Rightarrow> Some (a, b, c, cs) | _ \<Rightarrow> None)"

definition qualified_non_empty_iter ::
  "string \<Rightarrow> (string \<times> string \<times> string \<times> string list) option" where
  "qualified_non_empty_iter q =
     (case refstr_iter q of a # b # c # cs \<Rightarrow> Some (a, b, c, cs) | _ \<Rightarrow> None)"

text \<open>\<open>From<(lit::Refs, T, U)>\<close> and its instances for the standard categories.\<close>

definition qualified_from_refs :: "string \<Rightarrow> string \<Rightarrow> string" where
  "qualified_from_refs cat name = refstring_and (refstr_join REFS cat) name"

definition qualified_from_refs_heads :: "string \<Rightarrow> string option" where
  "qualified_from_refs_heads name =
     map_option (\<lambda>r. refstring_and r name) (refstring_from_iter [REFS, HEADS])"

definition qualified_from_refs_tags :: "string \<Rightarrow> string option" where
  "qualified_from_refs_tags name =
     map_option (\<lambda>r. refstring_and r name) (refstring_from_iter [REFS, TAGS])"

definition qualified_from_refs_notes :: "string \<Rightarrow> string option" where
  "qualified_from_refs_notes name =
     map_option (\<lambda>r. refstring_and r name) (refstring_from_iter [REFS, NOTES])"

definition qualified_from_refs_remotes :: "string \<Rightarrow> string option" where
  "qualified_from_refs_remotes name =
     map_option (\<lambda>r. refstring_and r name) (refstring_from_iter [REFS, REMOTES])"

definition qualified_from_refs_rad_id :: "string option" where
  "qualified_from_refs_rad_id = refstring_from_iter [REFS, RAD, ID]"

definition qualified_from_refs_rad_self :: "string option" where
  "qualified_from_refs_rad_self = refstring_from_iter [REFS, RAD, SELF]"

definition qualified_from_refs_rad_signed_refs :: "string option" where
  "qualified_from_refs_rad_signed_refs = refstring_from_iter [REFS, RAD, SIGNED_REFS]"

definition qualified_from_refs_rad_ids :: "string \<Rightarrow> string option" where
  "qualified_from_refs_rad_ids ident = refstring_from_iter [REFS, RAD, IDS, ident]"

definition qualified_from_refs_cobs :: "string \<Rightarrow> string \<Rightarrow> string option" where
  "qualified_from_refs_cobs ty ident = refstring_from_iter [REFS, COBS, ty, ident]"

definition namespaced_from_refs_namespaces :: "string \<Rightarrow> string \<Rightarrow> string option" where
  "namespaced_from_refs_namespaces namespace name =
     map_option (\<lambda>r. refstring_and r name) (refstring_from_iter [REFS, NAMESPACES, namespace])"

definition namespaced_namespace :: "string \<Rightarrow> string option" where
  "namespaced_namespace n =
     (case refstr_components n of _ # _ # c # _ \<Rightarrow> Some c | _ \<Rightarrow> None)"

definition namespaced_strip_namespace :: "string \<Rightarrow> string option" where
  "namespaced_strip_namespace n =
     Option.bind (refstr_strip_prefix n ''refs/namespaces'')
       (\<lambda>r. refstring_from_iter (drop 1 (refstr_components r)))"

section \<open>Lists of components\<close>

lemma refstring_from_iter_Nil [simp]: "refstring_from_iter [] = None"
  by (simp add: refstring_from_iter_def)

lemma fold_components:
  "cs \<noteq> [] \<Longrightarrow> fold (\<lambda>c buf. buf @ c @ [slash]) cs buf = buf @ join_with slash cs @ [slash]"
proof (induction cs arbitrary: buf)
  case (Cons c cs)
  then show ?case
    by (cases "cs = []") (simp_all add: join_with_Cons)
qed simp

lemma refstring_from_iter_join [simp]:
  "cs \<noteq> [] \<Longrightarrow> refstring_from_iter cs = Some (join_with slash cs)"
  by (simp add: refstring_from_iter_def fold_components Let_def del: fold_simps)

lemma refstring_push_join:
  "refstring_push (join_with slash cs) c = join_with slash (cs @ [c])" if "cs \<noteq> []"
  using that by (simp add: refstring_push_def join_with_append)

lemma refstring_extend_join:
  "cs \<noteq> [] \<Longrightarrow> refstring_extend (join_with slash cs) ds = join_with slash (cs @ ds)"
proof (induction ds arbitrary: cs)
  case (Cons d ds)
  then show ?case
    by (simp add: refstring_extend_def refstring_push_join)
qed (simp add: refstring_extend_def)

lemma components_push:
  "refstr_components (refstring_push a b) = refstr_components a @ refstr_components b"
  by (simp add: refstr_components_def refstring_push_def split_on_append)

lemma strip_namespace_shorter:
  assumes "namespaced_strip_namespace n = Some q"
  shows "length q < length n"
proof -
  from assms obtain r where r: "refstr_strip_prefix n ''refs/namespaces'' = Some r"
    and q: "refstring_from_iter (drop 1 (refstr_components r)) = Some q"
    by (auto simp: namespaced_strip_namespace_def bind_eq_Some_conv)
  from r have n: "n = ''refs/namespaces'' @ slash # r"
    by (auto simp: refstr_strip_prefix_def bind_eq_Some_conv)
  obtain c cs where cs: "refstr_components r = c # cs"
    by (cases "refstr_components r") (auto simp: refstr_components_def)
  with q have ne: "cs \<noteq> []" and "q = join_with slash cs"
    by (cases cs; simp)+
  moreover have "r = join_with slash (c # cs)"
    using cs join_split [of slash r] by (simp add: refstr_components_def)
  ultimately have "length q \<le> length r" by (simp add: join_with_Cons)
  with n show ?thesis by simp
qed

text \<open>
  \<open>strip_namespace_recursive\<close>: strip once, then as long as the rest is namespaced. The
  loop ends because every round shortens the name.
\<close>

function strip_namespace_loop :: "string \<Rightarrow> string option" where
  "strip_namespace_loop strip =
     (case namespaced_from_refstr strip of
        None \<Rightarrow> Some strip
      | Some ns \<Rightarrow>
          (case namespaced_strip_namespace ns of
             None \<Rightarrow> None
           | Some strip' \<Rightarrow> strip_namespace_loop strip'))"
  by pat_completeness auto
termination
proof (relation "measure length")
  fix strip ns strip'
  assume "namespaced_from_refstr strip = Some ns" "namespaced_strip_namespace ns = Some strip'"
  moreover from this(1) have "ns = strip"
    by (auto simp: namespaced_from_refstr_def split: list.splits if_splits)
  ultimately show "(strip', strip) \<in> measure length"
    by (simp add: strip_namespace_shorter)
qed simp

declare strip_namespace_loop.simps [simp del]

definition namespaced_strip_namespace_recursive :: "string \<Rightarrow> string option" where
  "namespaced_strip_namespace_recursive n =
     Option.bind (namespaced_strip_namespace n) strip_namespace_loop"

section \<open>Patterns\<close>

definition pattern_check_opts :: check_options where
  "pattern_check_opts = \<lparr>allow_onelevel = True, allow_pattern = True\<rparr>"

definition pattern_try_from :: "string \<Rightarrow> check_error + string" where
  "pattern_try_from s = map_ok (\<lambda>_. s) (ref_format pattern_check_opts s)"

definition pattern_push :: "string \<Rightarrow> string \<Rightarrow> string" where
  "pattern_push p other = (p @ [slash]) @ other"

definition pattern_join :: "string \<Rightarrow> string \<Rightarrow> string" where
  "pattern_join p other = (let buf = p in pattern_push buf other)"

definition pattern_pop :: "string \<Rightarrow> bool \<times> string" where
  "pattern_pop p = (case before_last slash p of None \<Rightarrow> (False, p) | Some q \<Rightarrow> (True, q))"

datatype pattern_component = Glob "string option" | Normal string

fun pattern_component_as_str :: "pattern_component \<Rightarrow> string" where
  "pattern_component_as_str (Glob None) = ''*''"
| "pattern_component_as_str (Glob (Some x)) = x"
| "pattern_component_as_str (Normal x) = x"

definition pattern_component_of :: "string \<Rightarrow> pattern_component" where
  "pattern_component_of x =
     (if x = ''*'' then Glob None
      else if CHR ''*'' \<in> set x then Glob (Some x)
      else Normal x)"

definition pattern_components :: "string \<Rightarrow> pattern_component list" where
  "pattern_components p = map pattern_component_of (split_on slash p)"

datatype duplicate_glob = DuplicateGlob

text \<open>
  The loop of \<open>FromIterator\<close>, with its buffer and the \<open>seen_glob\<close> flag. Cutting the last
  slash off an empty buffer is an arithmetic overflow, the \<open>None\<close> of the model.
\<close>

fun is_glob :: "pattern_component \<Rightarrow> bool" where
  "is_glob (Glob _) = True"
| "is_glob (Normal _) = False"

fun pattern_collect :: "string \<Rightarrow> bool \<Rightarrow> pattern_component list \<Rightarrow> duplicate_glob + string" where
  "pattern_collect buf seen_glob [] = Inr buf"
| "pattern_collect buf seen_glob (c # cs) =
     (if is_glob c \<and> seen_glob then Inl DuplicateGlob
      else pattern_collect ((buf @ pattern_component_as_str c) @ [slash])
             (seen_glob \<or> is_glob c) cs)"

definition pattern_from_components :: "pattern_component list \<Rightarrow> (duplicate_glob + string) option" where
  "pattern_from_components cs =
     (case pattern_collect [] False cs of
        Inl e \<Rightarrow> Some (Inl e)
      | Inr buf \<Rightarrow> if buf = [] then None else Some (Inr (take (length buf - 1) buf)))"

section \<open>Validity\<close>

definition is_refstr :: "string \<Rightarrow> bool" where
  "is_refstr s = refname_ok name_check_opts s"

definition is_pattern :: "string \<Rightarrow> bool" where
  "is_pattern s = refname_ok pattern_check_opts s"

definition is_component :: "string \<Rightarrow> bool" where
  "is_component c = (component_ok c \<and> slash \<notin> set c \<and> CHR ''*'' \<notin> set c)"

definition is_qualified :: "string \<Rightarrow> bool" where
  "is_qualified q = (is_refstr q \<and> qualified_from_refstr q = Some q)"

definition is_namespaced :: "string \<Rightarrow> bool" where
  "is_namespaced n = (is_refstr n \<and> namespaced_from_refstr n = Some n)"

lemma is_refstr_iff:
  "is_refstr s \<longleftrightarrow> s \<noteq> ''@'' \<and> list_all is_component (refstr_components s)"
proof -
  have "CHR ''*'' \<notin> set s \<longleftrightarrow> (\<forall>c \<in> set (split_on slash s). CHR ''*'' \<notin> set c)"
    using set_concat_split [of "CHR ''*''" slash s] by auto
  then show ?thesis
    using split_on_pieces [of _ slash s]
    by (auto simp: is_refstr_def refname_ok_def globs_ok_def name_check_opts_def
        refstr_components_def is_component_def list_all_iff count_list_0_iff)
qed

lemma is_component_literals [simp]:
  "is_component REFS" "is_component NAMESPACES" "is_component HEADS" "is_component TAGS"
  "is_component NOTES" "is_component REMOTES" "is_component RAD" "is_component ID"
  "is_component IDS" "is_component SELF" "is_component SIGNED_REFS" "is_component COBS"
  by code_simp+

lemma component_components [simp]: "is_component c \<Longrightarrow> refstr_components c = [c]"
  by (simp add: refstr_components_def is_component_def split_on_notin)

lemma components_join:
  "cs \<noteq> [] \<Longrightarrow> list_all is_component cs \<Longrightarrow> refstr_components (join_with slash cs) = cs"
  by (auto simp: refstr_components_def is_component_def list_all_iff intro!: split_join)

lemma refstring_push_refstr:
  "list_all is_component (refstr_components a) \<Longrightarrow>
   list_all is_component (refstr_components b) \<Longrightarrow> is_refstr (refstring_push a b)"
  unfolding is_refstr_iff components_push
  by (auto simp: refstring_push_def append_eq_Cons_conv)

lemma is_qualified_iff:
  "is_qualified q \<longleftrightarrow> list_all is_component (refstr_components q)
     \<and> (\<exists>b c cs. refstr_components q = REFS # b # c # cs)"
proof -
  have "qualified_from_refstr q = Some q \<longleftrightarrow> (\<exists>b c cs. refstr_components q = REFS # b # c # cs)"
    by (auto simp: qualified_from_refstr_def refstr_iter_def refstr_components_def REFS_def
        split: list.splits)
  moreover have "refstr_components ''@'' = [''@'']"
    by (simp add: refstr_components_def)
  ultimately show ?thesis
    by (auto simp: is_qualified_def is_refstr_iff)
qed

lemma namespaced_from_refstr_iff:
  "namespaced_from_refstr n = Some m \<longleftrightarrow>
     m = n \<and> (\<exists>c cs. refstr_components n = REFS # NAMESPACES # c # REFS # cs)"
  by (auto simp: namespaced_from_refstr_def refstr_iter_def refstr_components_def
      REFS_def NAMESPACES_def split: list.splits)

lemma strip_namespace_components:
  assumes "refstr_components n = REFS # NAMESPACES # c # cs" and "cs \<noteq> []"
    and "list_all is_component (refstr_components n)"
  shows "namespaced_strip_namespace n = Some (join_with slash cs)"
proof -
  have n: "n = join_with slash (REFS # NAMESPACES # c # cs)"
    using assms(1) join_split [of slash n] by (simp add: refstr_components_def)
  then have "refstr_strip_prefix n ''refs/namespaces'' = Some (join_with slash (c # cs))"
    by (simp add: refstr_strip_prefix_def REFS_def NAMESPACES_def)
  moreover have "refstr_components (join_with slash (c # cs)) = c # cs"
    using assms by (intro components_join) auto
  ultimately show ?thesis
    using assms(2) by (simp add: namespaced_strip_namespace_def)
qed

section \<open>Properties of names\<close>

text \<open>
  C31: joining two valid refnames gives a valid refname, whose components are those of the
  first followed by those of the second, and stripping the first name off gives the second
  back.
\<close>

theorem refstr_join_valid:
  assumes "is_refstr a" and "is_refstr b"
  shows "is_refstr (refstr_join a b)
    \<and> refstr_components (refstr_join a b) = refstr_components a @ refstr_components b
    \<and> refstr_strip_prefix (refstr_join a b) a = Some b"
proof (intro conjI)
  show "is_refstr (refstr_join a b)"
    using assms unfolding refstr_join_def Let_def is_refstr_iff [of a] is_refstr_iff [of b]
    by (intro refstring_push_refstr) auto
  show "refstr_strip_prefix (refstr_join a b) a = Some b"
    by (simp add: refstr_strip_prefix_def refstr_join_def refstring_push_def bind_eq_Some_conv)
qed (simp add: refstr_join_def components_push)

theorem refstr_join_valid_witness:
  "is_refstr (refstr_join ''refs/heads'' ''main'')
    \<and> refstr_components (refstr_join ''refs/heads'' ''main'') =
        refstr_components ''refs/heads'' @ refstr_components ''main''
    \<and> refstr_strip_prefix (refstr_join ''refs/heads'' ''main'') ''refs/heads'' = Some ''main''"
proof -
  have "is_refstr ''refs/heads''" "is_refstr ''main''" by code_simp+
  then show ?thesis by (rule refstr_join_valid)
qed



lemma refstring_pop_push:
  assumes "is_component c"
  shows "refstring_pop (refstring_push s c) = (True, s)"
  using assms by (simp add: refstring_pop_def refstring_push_def is_component_def before_last_append)

text \<open>
  C28: putting a qualified ref under a namespace never panics; the result is a namespaced
  and qualified ref with that namespace, and stripping the namespace gives the original ref
  back.
\<close>

theorem add_namespace_roundtrip:
  assumes "is_qualified q" and "is_component ns"
  shows "\<exists>n. qualified_add_namespace q ns = Some n \<and> is_namespaced n \<and> is_qualified n
    \<and> namespaced_namespace n = Some ns \<and> namespaced_strip_namespace n = Some q"
proof -
  obtain b c cs where q: "refstr_components q = REFS # b # c # cs"
    and ok: "list_all is_component (refstr_components q)"
    using assms(1) by (auto simp: is_qualified_iff)
  let ?n = "join_with slash (REFS # NAMESPACES # ns # refstr_components q)"
  have n: "refstr_components ?n = REFS # NAMESPACES # ns # refstr_components q"
    using ok assms(2) by (intro components_join) auto
  then have okn: "list_all is_component (refstr_components ?n)"
    using ok assms(2) by simp
  have "is_qualified ?n"
    unfolding is_qualified_iff using okn n by simp
  moreover have "is_namespaced ?n"
    using \<open>is_qualified ?n\<close> n q
    by (auto simp: is_namespaced_def is_qualified_def namespaced_from_refstr_iff)
  moreover have "namespaced_namespace ?n = Some ns"
    by (simp only: namespaced_namespace_def n list.case)
  moreover have "namespaced_strip_namespace ?n = Some q"
    using strip_namespace_components [OF n _ okn] q join_split [of slash q]
    by (simp add: refstr_components_def)
  moreover have "qualified_add_namespace q ns = Some ?n"
    by (simp add: qualified_add_namespace_def)
  ultimately show ?thesis by blast
qed

theorem add_namespace_roundtrip_witness:
  "\<exists>n. qualified_add_namespace ''refs/heads/main'' ''xyz'' = Some n \<and> is_namespaced n \<and> is_qualified n
    \<and> namespaced_namespace n = Some ''xyz'' \<and> namespaced_strip_namespace n = Some ''refs/heads/main''"
proof -
  have "is_qualified ''refs/heads/main''" "is_component ''xyz''" by code_simp+
  then show ?thesis by (rule add_namespace_roundtrip)
qed

lemma strip_namespace_loop_ends:
  "list_all is_component (refstr_components s) \<Longrightarrow>
   \<exists>q. strip_namespace_loop s = Some q \<and> namespaced_from_refstr q = None \<and> suffix q s
     \<and> list_all is_component (refstr_components q)"
proof (induction s rule: strip_namespace_loop.induct)
  case (1 s)
  show ?case
  proof (cases "namespaced_from_refstr s")
    case None
    with 1 show ?thesis by (simp add: strip_namespace_loop.simps [of s])
  next
    case (Some n)
    then obtain c cs where n: "n = s" and s: "refstr_components s = REFS # NAMESPACES # c # REFS # cs"
      by (auto simp: namespaced_from_refstr_iff)
    let ?t = "join_with slash (REFS # cs)"
    have t: "namespaced_strip_namespace n = Some ?t"
      unfolding n using s 1 by (intro strip_namespace_components) auto
    moreover have ok: "list_all is_component (REFS # cs)" using 1 s by simp
    then have "list_all is_component (refstr_components ?t)"
      using components_join [of "REFS # cs"] by simp
    ultimately obtain q where q: "strip_namespace_loop ?t = Some q" "namespaced_from_refstr q = None"
      "suffix q ?t" "list_all is_component (refstr_components q)"
      using "1.IH" [OF Some t] by blast
    have "join_with slash (refstr_components s) = join_with slash [REFS, NAMESPACES, c] @ slash # ?t"
      unfolding s by (simp add: join_with_Cons)
    then have "s = join_with slash [REFS, NAMESPACES, c] @ slash # ?t"
      by (simp add: refstr_components_def)
    with q(3) have "suffix q s" by (metis suffix_ConsI suffix_appendI)
    then show ?thesis
      using Some t q by (simp add: strip_namespace_loop.simps [of s] n)
  qed
qed

text \<open>
  C29: stripping namespaces recursively from a namespaced ref ends and never panics. What
  remains is a suffix of the ref, made of well-formed components, and no longer namespaced.
\<close>

theorem strip_namespace_recursive_total:
  assumes "is_namespaced n"
  shows "\<exists>q. namespaced_strip_namespace_recursive n = Some q
    \<and> namespaced_from_refstr q = None \<and> suffix q n \<and> list_all is_component (refstr_components q)"
proof -
  have "list_all is_component (refstr_components n)" and n: "namespaced_from_refstr n = Some n"
    using assms by (auto simp: is_namespaced_def is_refstr_iff)
  moreover have "namespaced_strip_namespace_recursive n = strip_namespace_loop n"
  proof -
    obtain c cs where "refstr_components n = REFS # NAMESPACES # c # REFS # cs"
      using n by (auto simp: namespaced_from_refstr_iff)
    then have "namespaced_strip_namespace n \<noteq> None"
      using calculation(1) strip_namespace_components by fastforce
    with n show ?thesis
      by (auto simp: namespaced_strip_namespace_recursive_def strip_namespace_loop.simps [of n])
  qed
  ultimately show ?thesis
    using strip_namespace_loop_ends [of n] by simp
qed

theorem strip_namespace_recursive_total_witness:
  "\<exists>q. namespaced_strip_namespace_recursive ''refs/namespaces/a/refs/namespaces/b/refs/heads/main''
        = Some q
    \<and> namespaced_from_refstr q = None
    \<and> suffix q ''refs/namespaces/a/refs/namespaces/b/refs/heads/main''
    \<and> list_all is_component (refstr_components q)"
proof -
  have "is_namespaced ''refs/namespaces/a/refs/namespaces/b/refs/heads/main''" by code_simp
  then show ?thesis by (rule strip_namespace_recursive_total)
qed

text \<open>Validated construction is the checker, so it accepts exactly the valid names.\<close>

lemma refstr_try_from_iff:
  "refstr_try_from s = Inr t \<longleftrightarrow> t = s \<and> is_refstr s"
  "pattern_try_from s = Inr t \<longleftrightarrow> t = s \<and> is_pattern s"
  using ref_format_iff [of name_check_opts s] ref_format_iff [of pattern_check_opts s]
  by (auto simp: refstr_try_from_def pattern_try_from_def is_refstr_def is_pattern_def)

lemma known_lit_roundtrip:
  "known_lit_from_component (component_from_known_lit k) = Some k"
  "component_from_some_lit (some_lit_from_component c) = c"
proof -
  show "known_lit_from_component (component_from_known_lit k) = Some k"
    by (cases k) (simp_all add: known_lit_from_component_def literal_defs)
  show "component_from_some_lit (some_lit_from_component c) = c"
    by (simp add: some_lit_from_component_def known_lit_from_component_def)
qed

section \<open>Properties of patterns\<close>

lemma pattern_component_as_str_of [simp]: "pattern_component_as_str (pattern_component_of x) = x"
  by (simp add: pattern_component_of_def)

lemma pattern_collect_Inr:
  "pattern_collect buf seen cs = Inr out \<longleftrightarrow>
     length (filter is_glob cs) + of_bool seen \<le> max 1 (of_bool seen)
     \<and> out = fold (\<lambda>c buf. buf @ c @ [slash]) (map pattern_component_as_str cs) buf"
proof (induction cs arbitrary: buf seen)
  case (Cons c cs)
  then show ?case by (cases seen; cases "is_glob c") auto
qed auto

lemma pattern_from_components_iff:
  assumes "cs \<noteq> []"
  shows "pattern_from_components cs =
    Some (if length (filter is_glob cs) \<le> 1
          then Inr (join_with slash (map pattern_component_as_str cs)) else Inl DuplicateGlob)"
proof (cases "pattern_collect [] False cs")
  case (Inl e)
  moreover have "\<not> length (filter is_glob cs) \<le> 1"
    using Inl pattern_collect_Inr [of "[]" False cs] by auto
  ultimately show ?thesis
    by (cases e) (simp add: pattern_from_components_def)
next
  case (Inr out)
  then show ?thesis
    using assms pattern_collect_Inr [of "[]" False cs out]
    by (simp add: pattern_from_components_def fold_components)
qed

lemma count_stars_split:
  "length (filter is_glob (map pattern_component_of xs)) \<le>
   sum_list (map (\<lambda>x. count_list x (CHR ''*'')) xs)"
proof (induction xs)
  case (Cons x xs)
  have "CHR ''*'' \<in> set x \<Longrightarrow> 0 < count_list x (CHR ''*'')"
    using count_list_0_iff [of x] by blast
  with Cons show ?case
    by (auto simp: pattern_component_of_def)
qed simp

text \<open>
  C32: a valid refspec pattern is recovered from its components, glob or normal.
\<close>

theorem pattern_components_roundtrip:
  assumes "is_pattern p"
  shows "pattern_from_components (pattern_components p) = Some (Inr p)"
proof -
  have "length (filter is_glob (pattern_components p)) \<le> count_list p (CHR ''*'')"
    unfolding pattern_components_def
    using count_stars_split [of "split_on slash p"] count_split_on [of "CHR ''*''" slash p] by simp
  also have "\<dots> \<le> 1"
    using assms by (simp add: is_pattern_def refname_ok_def globs_ok_def pattern_check_opts_def)
  finally show ?thesis
    by (simp add: pattern_from_components_iff pattern_components_def comp_def)
qed

theorem pattern_components_roundtrip_witness:
  "pattern_from_components (pattern_components ''refs/heads/*'') = Some (Inr ''refs/heads/*'')"
proof -
  have "is_pattern ''refs/heads/*''" by code_simp
  then show ?thesis by (rule pattern_components_roundtrip)
qed

section \<open>Where the code departs from its intent\<close>

text \<open>
  Because the last character of a component is paired with its first, a component that
  starts with an open brace and ends with an at sign is rejected, although it contains no
  at-open-brace.
\<close>

lemma ref_format_cyclic_at_open_brace:
  "ref_format name_check_opts ''{a@'' = Inl AtOpenBrace \<and> \<not> sublist [CHR ''@'', CHR 0x7B] ''{a@''"
  by code_simp

text \<open>
  Dropping components can leave the single character \<open>@\<close>, which is not a valid refname:
  \<open>strip_prefix\<close> and \<open>pop\<close> build their result without checking it.
\<close>

lemma strip_prefix_lone_at:
  "is_refstr ''refs/@'' \<and> refstr_strip_prefix ''refs/@'' ''refs'' = Some ''@'' \<and> \<not> is_refstr ''@''"
  by code_simp

lemma pop_lone_at:
  "is_refstr ''@/a'' \<and> refstring_pop ''@/a'' = (True, ''@'') \<and> \<not> is_refstr ''@''"
  by code_simp

text \<open>
  \<open>Namespaced\<close> accepts a ref whose part below the namespace is not qualified. Stripping
  the namespace then yields a \<open>Qualified\<close> that has one component only, on which
  \<open>non_empty_components\<close> panics.
\<close>

lemma strip_namespace_not_qualified:
  "is_namespaced ''refs/namespaces/a/refs''
   \<and> namespaced_strip_namespace ''refs/namespaces/a/refs'' = Some ''refs''
   \<and> \<not> is_qualified ''refs'' \<and> qualified_non_empty_components ''refs'' = None"
  by code_simp

end
