(* ===== verification/Ordered.thy ===== *)
theory Ordered
  imports Prelude
begin

text \<open>
  The ordered collections of the Rust standard library that the sources use. A
  \<open>BTreeMap\<close> is the list of its entries in increasing key order, a \<open>BTreeSet\<close> the list of
  its elements in increasing order, so that iteration order is part of the model. The laws a
  client of a map relies on are the locale \<open>map_adt\<close>, which the ordered lists interpret.
\<close>

section \<open>The interface of a map\<close>

locale map_adt =
  fixes empty :: "'m"
    and insert :: "'k \<Rightarrow> 'v \<Rightarrow> 'm \<Rightarrow> 'm"
    and remove :: "'k \<Rightarrow> 'm \<Rightarrow> 'm"
    and lookup :: "'m \<Rightarrow> 'k \<Rightarrow> 'v option"
    and count :: "'m \<Rightarrow> nat"
    and ok :: "'m \<Rightarrow> bool"
  assumes ok_empty: "ok empty"
    and lookup_empty: "lookup empty k = None"
    and ok_insert: "ok m \<Longrightarrow> ok (insert k v m)"
    and lookup_insert: "ok m \<Longrightarrow> lookup (insert k v m) = (lookup m)(k \<mapsto> v)"
    and ok_remove: "ok m \<Longrightarrow> ok (remove k m)"
    and lookup_remove: "ok m \<Longrightarrow> lookup (remove k m) = (lookup m)(k := None)"
    and finite_dom: "ok m \<Longrightarrow> finite (dom (lookup m))"
    and count_card: "ok m \<Longrightarrow> count m = card (dom (lookup m))"
begin

text \<open>How each operation changes the number of entries.\<close>

lemma count_insert_new: "ok m \<Longrightarrow> lookup m k = None \<Longrightarrow> count (insert k v m) = Suc (count m)"
  by (simp add: count_card ok_insert lookup_insert finite_dom domIff)

lemma count_insert_old: "ok m \<Longrightarrow> lookup m k \<noteq> None \<Longrightarrow> count (insert k v m) = count m"
  by (auto simp: count_card ok_insert lookup_insert insert_absorb domIff)

lemma count_insert_le: "ok m \<Longrightarrow> count (insert k v m) \<le> Suc (count m)"
  by (cases "lookup m k") (simp_all add: count_insert_new count_insert_old)

lemma count_remove_in: "ok m \<Longrightarrow> lookup m k \<noteq> None \<Longrightarrow> Suc (count (remove k m)) = count m"
  by (simp add: count_card ok_remove lookup_remove finite_dom card_Suc_Diff1 domIff
      del: card_Diff_insert)

lemma count_remove_out: "ok m \<Longrightarrow> lookup m k = None \<Longrightarrow> count (remove k m) = count m"
  by (simp add: count_card ok_remove lookup_remove domIff)

lemma count_remove_le: "ok m \<Longrightarrow> count (remove k m) \<le> count m"
  by (cases "lookup m k") (use count_remove_in count_remove_out in \<open>fastforce+\<close>)

text \<open>Inserting a list of entries, in order.\<close>

lemma ok_fold_insert: "ok m \<Longrightarrow> ok (fold (\<lambda>(k, v). insert k v) kvs m)"
  by (induction kvs arbitrary: m) (auto simp: ok_insert)

lemma lookup_fold_insert:
  "ok m \<Longrightarrow> lookup (fold (\<lambda>(k, v). insert k v) kvs m) = lookup m ++ map_of (rev kvs)"
  by (induction kvs arbitrary: m) (auto simp: ok_insert lookup_insert map_add_def fun_eq_iff split: option.splits)

end

section \<open>Ordered maps\<close>

type_synonym ('k, 'v) bmap = "('k \<times> 'v) list"

definition bmap_ok :: "('k::linorder, 'v) bmap \<Rightarrow> bool" where
  "bmap_ok m = sorted_wrt (<) (map fst m)"

definition bmap_empty :: "('k, 'v) bmap" where
  "bmap_empty = []"

fun bmap_insert :: "'k::linorder \<Rightarrow> 'v \<Rightarrow> ('k, 'v) bmap \<Rightarrow> ('k, 'v) bmap" where
  "bmap_insert k v [] = [(k, v)]"
| "bmap_insert k v ((a, b) # m) =
     (if k < a then (k, v) # (a, b) # m
      else if k = a then (k, v) # m
      else (a, b) # bmap_insert k v m)"

definition bmap_remove :: "'k \<Rightarrow> ('k, 'v) bmap \<Rightarrow> ('k, 'v) bmap" where
  "bmap_remove k m = filter (\<lambda>e. fst e \<noteq> k) m"

definition bmap_get :: "('k, 'v) bmap \<Rightarrow> 'k \<Rightarrow> 'v option" where
  "bmap_get m k = map_of m k"

definition bmap_len :: "('k, 'v) bmap \<Rightarrow> nat" where
  "bmap_len m = length m"

definition bmap_keys :: "('k, 'v) bmap \<Rightarrow> 'k list" where
  "bmap_keys m = map fst m"

definition bmap_values :: "('k, 'v) bmap \<Rightarrow> 'v list" where
  "bmap_values m = map snd m"

definition bmap_from_iter :: "('k::linorder \<times> 'v) list \<Rightarrow> ('k, 'v) bmap" where
  "bmap_from_iter kvs = fold (\<lambda>(k, v). bmap_insert k v) kvs bmap_empty"

lemma bmap_ok_Nil [simp]: "bmap_ok []" and bmap_ok_empty [simp]: "bmap_ok bmap_empty"
  by (simp_all add: bmap_ok_def bmap_empty_def)

lemma bmap_ok_Cons [simp]:
  "bmap_ok ((k, v) # m) \<longleftrightarrow> bmap_ok m \<and> (\<forall>a \<in> fst ` set m. k < a)"
  by (auto simp: bmap_ok_def)

lemma fst_bmap_insert: "fst ` set (bmap_insert k v m) = Set.insert k (fst ` set m)"
  by (induction k v m rule: bmap_insert.induct) (auto simp: image_iff)

lemma bmap_insert_ok [simp]: "bmap_ok m \<Longrightarrow> bmap_ok (bmap_insert k v m)"
proof (induction k v m rule: bmap_insert.induct)
  case (2 k v a b m)
  then show ?case
    by (auto simp: fst_bmap_insert)
qed simp

lemma map_of_bmap_insert: "bmap_ok m \<Longrightarrow> map_of (bmap_insert k v m) = (map_of m)(k \<mapsto> v)"
  by (induction m) (auto simp: fun_eq_iff)

lemma bmap_remove_ok [simp]: "bmap_ok m \<Longrightarrow> bmap_ok (bmap_remove k m)"
  by (simp add: bmap_ok_def bmap_remove_def sorted_wrt_map sorted_wrt_filter)

lemma map_of_bmap_remove: "map_of (bmap_remove k m) = (map_of m)(k := None)"
  by (induction m) (auto simp: bmap_remove_def fun_eq_iff)

lemma bmap_ok_distinct: "bmap_ok m \<Longrightarrow> distinct (map fst m)"
  by (simp add: bmap_ok_def strict_sorted_iff)

lemma length_bmap_card: "bmap_ok m \<Longrightarrow> length m = card (dom (map_of m))"
  using bmap_ok_distinct [of m] distinct_card [of "map fst m"] by (simp add: dom_map_of_conv_image_fst)

interpretation bmap: map_adt bmap_empty bmap_insert bmap_remove bmap_get bmap_len bmap_ok
  by unfold_locales
    (auto simp: bmap_get_def [abs_def] bmap_len_def bmap_empty_def map_of_bmap_insert
      map_of_bmap_remove finite_dom_map_of length_bmap_card)

lemma bmap_keys_set: "set (bmap_keys m) = dom (bmap_get m)"
  by (simp add: bmap_keys_def bmap_get_def [abs_def] dom_map_of_conv_image_fst)

lemma bmap_get_in: "bmap_ok m \<Longrightarrow> (k, v) \<in> set m \<longleftrightarrow> bmap_get m k = Some v"
  by (simp add: bmap_get_def bmap_ok_distinct)

lemma bmap_keys_distinct: "bmap_ok m \<Longrightarrow> distinct (bmap_keys m)"
  by (simp add: bmap_keys_def bmap_ok_distinct)

text \<open>Two ordered maps with the same lookups are the same list of entries.\<close>

lemma bmap_ext:
  assumes "bmap_ok m" "bmap_ok n" "bmap_get m = bmap_get n"
  shows "m = n"
proof -
  have eq: "set m = set n"
    using assms by (auto simp: bmap_get_in)
  have keys: "map fst m = map fst n"
    using assms(1,2) eq by (intro strict_sorted_equal) (auto simp: bmap_ok_def)
  have "inj_on fst (set m \<union> set n)"
    using bmap_ok_distinct [OF assms(1)] eq by (simp add: distinct_map)
  with keys show ?thesis
    by (rule map_inj_on)
qed

section \<open>Ordered sets\<close>

type_synonym 'a bset = "'a list"

definition bset_ok :: "'a::linorder bset \<Rightarrow> bool" where
  "bset_ok xs = sorted_wrt (<) xs"

text \<open>\<open>BTreeSet::insert\<close> returns whether the element is new.\<close>

definition bset_insert :: "'a::linorder \<Rightarrow> 'a bset \<Rightarrow> bool \<times> 'a bset" where
  "bset_insert x xs = (x \<notin> set xs, insort_insert x xs)"

definition bset_from_iter :: "'a::linorder list \<Rightarrow> 'a bset" where
  "bset_from_iter xs = fold (\<lambda>x s. snd (bset_insert x s)) xs []"

lemma bset_ok_Nil [simp]: "bset_ok []"
  by (simp add: bset_ok_def)

lemma bset_ok_iff: "bset_ok xs \<longleftrightarrow> sorted xs \<and> distinct xs"
  by (simp add: bset_ok_def strict_sorted_iff)

lemma bset_insert_ok [simp]: "bset_ok xs \<Longrightarrow> bset_ok (snd (bset_insert x xs))"
  by (simp add: bset_ok_iff bset_insert_def sorted_insort_insert distinct_insort_insert)

lemma set_bset_insert [simp]: "set (snd (bset_insert x xs)) = Set.insert x (set xs)"
  by (simp add: bset_insert_def set_insort_insert)

lemma bset_fold_insert:
  "bset_ok s \<Longrightarrow> bset_ok (fold (\<lambda>x s. snd (bset_insert x s)) xs s)
     \<and> set (fold (\<lambda>x s. snd (bset_insert x s)) xs s) = set s \<union> set xs"
  by (induction xs arbitrary: s) auto

lemma bset_from_iter_ok [simp]: "bset_ok (bset_from_iter xs)"
  and set_bset_from_iter [simp]: "set (bset_from_iter xs) = set xs"
  using bset_fold_insert [of "[]" xs] by (simp_all add: bset_from_iter_def)

lemma bset_ext: "bset_ok xs \<Longrightarrow> bset_ok ys \<Longrightarrow> set xs = set ys \<Longrightarrow> xs = ys"
  by (auto simp: bset_ok_def intro: strict_sorted_equal)

lemma bset_filter_ok [simp]: "bset_ok xs \<Longrightarrow> bset_ok (filter P xs)"
  by (simp add: bset_ok_def sorted_wrt_filter)

lemma length_bset_card: "bset_ok xs \<Longrightarrow> length xs = card (set xs)"
  by (simp add: bset_ok_iff distinct_card)

lemma bset_ok_keys [simp]: "bmap_ok m \<Longrightarrow> bset_ok (bmap_keys m)"
  by (simp add: bset_ok_def bmap_ok_def bmap_keys_def)

end
