(* ===== verification/Bounded.thy ===== *)
theory Bounded
  imports Ordered
begin

text \<open>
  Containers whose size is bounded by their type: \<open>Within\<close> of \<open>data/src/bounded.rs\<close>
  (a length in \<open>[N, M]\<close>) and \<open>NonEmpty\<close> of \<open>data/src/nonempty.rs\<close>. The wrapper is
  erased: a value is the wrapped list, and the bounds \<open>n\<close> and \<open>m\<close>, type-level constants
  in the source, are arguments. The predicates \<open>within_ok\<close> and \<open>nonempty_ok\<close> are what the
  Rust types promise. A deserialiser is third-party code: its result is an argument.
\<close>

section \<open>Within\<close>

datatype within_error = TooSmall nat nat | TooLarge nat nat

definition within_ok :: "nat \<Rightarrow> nat \<Rightarrow> 'a list \<Rightarrow> bool" where
  "within_ok n m xs = (n \<le> length xs \<and> length xs \<le> m)"

definition within_try_from_length :: "nat \<Rightarrow> nat \<Rightarrow> 'a list \<Rightarrow> within_error + 'a list" where
  "within_try_from_length n m t =
     (let len = length t in
      if len < n then Inl (TooSmall n len)
      else if len > m then Inl (TooLarge m len)
      else Inr t)"

definition within_singleton :: "'a \<Rightarrow> 'a list" where
  "within_singleton v = [v]"

definition within_from_empty :: "'a list" where
  "within_from_empty = []"

text \<open>The subtraction \<open>max - len\<close> does not underflow on a value within its bounds.\<close>

definition within_extend_fill :: "nat \<Rightarrow> 'a list \<Rightarrow> 'a list \<Rightarrow> 'a list" where
  "within_extend_fill m inner iter = (let len = length inner in inner @ take (m - len) iter)"

definition within_deserialize_truncate :: "nat \<Rightarrow> 'e + 'a list \<Rightarrow> 'e + 'a list" where
  "within_deserialize_truncate n inner = map_ok (take n) inner"

definition within_decode_truncate :: "nat \<Rightarrow> 'e + 'a list \<Rightarrow> 'e + 'a list" where
  "within_decode_truncate n inner = map_ok (take n) inner"

definition within_deserialize :: "(within_error \<Rightarrow> 'e) \<Rightarrow> nat \<Rightarrow> nat \<Rightarrow> 'e + 'a list \<Rightarrow> 'e + 'a list" where
  "within_deserialize custom n m inner =
     and_then inner (\<lambda>xs. map_err custom (within_try_from_length n m xs))"

text \<open>
  Decoding: \<open>message\<close> builds the decoder's error from a string, \<open>probe\<close> is the length the
  decoder reads ahead (\<open>None\<close> for an indefinite one), \<open>inner\<close> the decoded container.
\<close>

definition within_decode_any :: "(string \<Rightarrow> 'e) \<Rightarrow> nat \<Rightarrow> nat \<Rightarrow> 'e + 'a list \<Rightarrow> 'e + 'a list" where
  "within_decode_any message n m inner =
     and_then inner (\<lambda>xs.
       if length xs < n then Inl (message ''min length not reached'')
       else if length xs > m then Inl (message ''max length exceeded'')
       else Inr xs)"

definition within_decode_array ::
  "(string \<Rightarrow> 'e) \<Rightarrow> nat \<Rightarrow> nat \<Rightarrow> 'e + nat option \<Rightarrow> 'e + 'a list \<Rightarrow> 'e + 'a list" where
  "within_decode_array message n m probe inner =
     and_then probe (\<lambda>p.
       case p of
         Some len \<Rightarrow>
           if len < n then Inl (message ''min length not reached'')
           else if len > m then Inl (message ''max length exceeded'')
           else within_decode_any message n m inner
       | None \<Rightarrow> within_decode_any message n m inner)"

definition within_decode_map ::
  "(string \<Rightarrow> 'e) \<Rightarrow> nat \<Rightarrow> nat \<Rightarrow> 'e + nat option \<Rightarrow> 'e + 'a list \<Rightarrow> 'e + 'a list" where
  "within_decode_map message n m probe inner =
     and_then probe (\<lambda>p.
       case p of
         Some len \<Rightarrow>
           if len < n then Inl (message ''min length not reached'')
           else if len > m then Inl (message ''max length exceeded'')
           else within_decode_any message n m inner
       | None \<Rightarrow> within_decode_any message n m inner)"

section \<open>NonEmpty\<close>

definition nonempty_ok :: "'a list \<Rightarrow> bool" where
  "nonempty_ok xs = (xs \<noteq> [])"

definition nonempty_new :: "'a \<Rightarrow> 'a list" where
  "nonempty_new v = [v]"

definition nonempty_from_maybe_empty :: "'a list \<Rightarrow> 'a list option" where
  "nonempty_from_maybe_empty xs = (if xs = [] then None else Some xs)"

definition nonempty_set_insert :: "'a::linorder \<Rightarrow> 'a bset \<Rightarrow> bool \<times> 'a bset" where
  "nonempty_set_insert value xs = bset_insert value xs"

definition nonempty_map_insert ::
  "'k::linorder \<Rightarrow> 'v \<Rightarrow> ('k, 'v) bmap \<Rightarrow> 'v option \<times> ('k, 'v) bmap" where
  "nonempty_map_insert key value m = (bmap_get m key, bmap_insert key value m)"

definition nonempty_extend :: "'a::linorder bset \<Rightarrow> 'a list \<Rightarrow> 'a bset" where
  "nonempty_extend xs iter = fold (\<lambda>x s. snd (bset_insert x s)) iter xs"

definition nonempty_deserialize :: "'e \<Rightarrow> 'e + 'a list \<Rightarrow> 'e + 'a list" where
  "nonempty_deserialize custom inner =
     and_then inner (\<lambda>xs. ok_or custom (nonempty_from_maybe_empty xs))"

section \<open>Lemmas and properties\<close>

lemma within_extend_fill_length [simp]:
  "length xs \<le> m \<Longrightarrow> length (within_extend_fill m xs ys) = min m (length xs + length ys)"
  by (auto simp: within_extend_fill_def Let_def)

lemma within_extend_fill_ok: "within_ok n m xs \<Longrightarrow> within_ok n m (within_extend_fill m xs ys)"
  by (auto simp: within_ok_def)

lemma within_decode_any_ok: "within_decode_any msg n m inner = Inr xs \<longleftrightarrow> inner = Inr xs \<and> within_ok n m xs"
  by (cases inner) (auto simp: within_decode_any_def within_ok_def)



lemma nonempty_preserved:
  "nonempty_ok (nonempty_new v)"
  "nonempty_from_maybe_empty xs = Some ys \<Longrightarrow> nonempty_ok ys"
  "nonempty_ok s \<Longrightarrow> nonempty_ok (snd (nonempty_set_insert x s))"
  "nonempty_ok b \<Longrightarrow> nonempty_ok (snd (nonempty_map_insert k w b))"
  "nonempty_deserialize e inner = Inr ys \<Longrightarrow> nonempty_ok ys"
proof -
  have "set (snd (nonempty_set_insert x s)) \<noteq> {}" "fst ` set (snd (nonempty_map_insert k w b)) \<noteq> {}"
    by (simp_all add: nonempty_set_insert_def nonempty_map_insert_def fst_bmap_insert)
  then show "nonempty_ok (snd (nonempty_set_insert x s))" "nonempty_ok (snd (nonempty_map_insert k w b))"
    by (auto simp: nonempty_ok_def)
qed (auto simp: nonempty_ok_def nonempty_new_def nonempty_from_maybe_empty_def
    nonempty_deserialize_def split: if_splits)

end
