(* ===== verification/Delegation.thy ===== *)
theory Delegation
  imports Bounded
begin

text \<open>
  Trust delegations of \<open>link-identities/src/delegation.rs\<close>: direct ones
  (\<open>delegation/direct.rs\<close>), indirect ones (\<open>delegation/indirect.rs\<close>) and their sum
  \<open>SomeDelegations\<close>, with the identity document and the identity of
  \<open>link-identities/src/generic.rs\<close>, which indirect delegations refer to.

  What the trait \<open>Delegations\<close> promises to the verification of identities is the locale
  \<open>delegation_scheme\<close>; its main consequence is that two quorums share a voter. Public keys are
  any linearly ordered type, as \<open>BTreeMap\<close> and \<open>BTreeSet\<close> need.
\<close>

section \<open>Documents and identities\<close>

record ('t, 'd, 'r) doc =
  version :: nat
  replaces :: "'r option"
  payload :: 't
  delegations :: 'd

record ('t, 'r, 'c, 'k, 's) identity =
  content_id :: 'c
  root :: 'r
  revision :: 'r
  doc :: 't
  signatures :: "('k, 's) bmap"

definition doc_bimap ::
  "('t \<Rightarrow> 'u) \<Rightarrow> ('d \<Rightarrow> 'e) \<Rightarrow> ('t, 'd, 'r) doc \<Rightarrow> ('u, 'e, 'r) doc" where
  "doc_bimap f g d =
     \<lparr>version = version d, replaces = replaces d, payload = f (payload d),
      delegations = g (delegations d)\<rparr>"

definition doc_first :: "('t \<Rightarrow> 'u) \<Rightarrow> ('t, 'd, 'r) doc \<Rightarrow> ('u, 'd, 'r) doc" where
  "doc_first f d = doc_bimap f (\<lambda>x. x) d"

definition doc_second :: "('d \<Rightarrow> 'e) \<Rightarrow> ('t, 'd, 'r) doc \<Rightarrow> ('t, 'e, 'r) doc" where
  "doc_second g d = doc_bimap (\<lambda>x. x) g d"

definition doc_try_first :: "('t \<Rightarrow> 'x + 'u) \<Rightarrow> ('t, 'd, 'r) doc \<Rightarrow> 'x + ('u, 'd, 'r) doc" where
  "doc_try_first f d =
     (let d' = doc_first f d in
      and_then (payload d') (\<lambda>p.
        Inr \<lparr>version = version d', replaces = replaces d', payload = p,
             delegations = delegations d'\<rparr>))"

definition doc_try_second :: "('d \<Rightarrow> 'x + 'e) \<Rightarrow> ('t, 'd, 'r) doc \<Rightarrow> 'x + ('t, 'e, 'r) doc" where
  "doc_try_second g d =
     (let d' = doc_second g d in
      and_then (delegations d') (\<lambda>ds.
        Inr \<lparr>version = version d', replaces = replaces d', payload = payload d',
             delegations = ds\<rparr>))"

definition identity_map ::
  "('t \<Rightarrow> 'u) \<Rightarrow> ('t, 'r, 'c, 'k, 's) identity \<Rightarrow> ('u, 'r, 'c, 'k, 's) identity" where
  "identity_map f i =
     \<lparr>content_id = content_id i, root = root i, revision = revision i, doc = f (doc i),
      signatures = signatures i\<rparr>"

definition identity_transpose ::
  "('x + 't, 'r, 'c, 'k, 's) identity \<Rightarrow> 'x + ('t, 'r, 'c, 'k, 's) identity" where
  "identity_transpose i =
     and_then (doc i) (\<lambda>d.
       Inr \<lparr>content_id = content_id i, root = root i, revision = revision i, doc = d,
            signatures = signatures i\<rparr>)"

section \<open>Direct delegations\<close>

type_synonym 'k direct = "'k bset"

datatype direct_error = EmptyKeys

definition direct_new :: "'k \<Rightarrow> 'k direct" where
  "direct_new key = nonempty_new key"

definition direct_insert :: "'k::linorder direct \<Rightarrow> 'k \<Rightarrow> 'k direct" where
  "direct_insert d key = snd (nonempty_set_insert key d)"

definition direct_try_from_iter :: "'k::linorder list \<Rightarrow> direct_error + 'k direct" where
  "direct_try_from_iter keys =
     (let keys' = bset_from_iter keys in
      case nonempty_from_maybe_empty keys' of
        Some ks \<Rightarrow> Inr ks
      | None \<Rightarrow> Inl EmptyKeys)"

definition direct_contains :: "'k direct \<Rightarrow> 'k \<Rightarrow> bool" where
  "direct_contains d key = (key \<in> set d)"

definition direct_eligible :: "'k direct \<Rightarrow> 'k bset \<Rightarrow> 'k bset" where
  "direct_eligible d votes = filter (\<lambda>pk. pk \<in> set votes) d"

definition direct_quorum_threshold :: "'k direct \<Rightarrow> nat" where
  "direct_quorum_threshold d = length d div 2"

definition direct_extend :: "'k::linorder direct \<Rightarrow> 'k list \<Rightarrow> 'k direct" where
  "direct_extend d iter = nonempty_extend d iter"

section \<open>Indirect delegations\<close>

datatype ('k, 'r) indirect_error = DuplicateKey 'k | DuplicateIdentity 'r | EmptyDelegations

datatype double_vote = DoubleVote

type_synonym ('t, 'r, 'c, 'k, 's) indirectly_delegating =
  "(('t, 'k direct, 'r) doc, 'r, 'c, 'k, 's) identity"

record ('t, 'r, 'c, 'k, 's) indirect =
  identities :: "('t, 'r, 'c, 'k, 's) indirectly_delegating list"
  keys :: "('k, nat option) bmap"

text \<open>The closure \<open>insert\<close>: a key may be delegated to once only.\<close>

definition indirect_insert ::
  "'k::linorder \<Rightarrow> nat option \<Rightarrow> ('k, nat option) bmap \<Rightarrow> ('k, 'r) indirect_error + ('k, nat option) bmap"
  where
  "indirect_insert key pos dels =
     (case bmap_get dels key of
        None \<Rightarrow> Inr (bmap_insert key pos dels)
      | Some _ \<Rightarrow> Inl (DuplicateKey key))"

text \<open>One round of the loop over the input, on the identities, the keys and the roots so far.\<close>

fun indirect_step ::
  "('t, 'r, 'c, 'k, 's) indirectly_delegating list \<times> ('k, nat option) bmap \<times> 'r bset \<Rightarrow>
   'k + ('t, 'r, 'c, 'k, 's) indirectly_delegating \<Rightarrow>
   ('k::linorder, 'r::linorder) indirect_error +
     (('t, 'r, 'c, 'k, 's) indirectly_delegating list \<times> ('k, nat option) bmap \<times> 'r bset)" where
  "indirect_step (ids, dels, roots) (Inl key) =
     and_then (indirect_insert key None dels) (\<lambda>dels'. Inr (ids, dels', roots))"
| "indirect_step (ids, dels, roots) (Inr i) =
     (let (fresh, roots') = bset_insert (root i) roots in
      if \<not> fresh then Inl (DuplicateIdentity (root i))
      else
        let ids' = ids @ [i]; pos = length ids' - 1 in
        and_then
          (try_fold (\<lambda>dels key. indirect_insert key (Some pos) dels) dels (delegations (doc i)))
          (\<lambda>dels'. Inr (ids', dels', roots')))"

definition indirect_try_from_iter ::
  "('k::linorder + ('t, 'r::linorder, 'c, 'k, 's) indirectly_delegating) list \<Rightarrow>
   ('k, 'r) indirect_error + ('t, 'r, 'c, 'k, 's) indirect" where
  "indirect_try_from_iter iter =
     and_then (try_fold indirect_step ([], bmap_empty, []) iter) (\<lambda>(ids, dels, roots).
       if ids = [] \<and> dels = [] then Inl EmptyDelegations
       else Inr \<lparr>identities = ids, keys = dels\<rparr>)"

text \<open>\<open>owner\<close>: the outer \<open>None\<close> is the panic of an index out of range.\<close>

definition indirect_owner ::
  "('t, 'r, 'c, 'k, 's) indirect \<Rightarrow> 'k \<Rightarrow> ('t, 'r, 'c, 'k, 's) indirectly_delegating option option" where
  "indirect_owner d key =
     (case bmap_get (keys d) key of
        Some (Some idx) \<Rightarrow>
          if idx < length (identities d) then Some (Some (identities d ! idx)) else None
      | _ \<Rightarrow> Some None)"

text \<open>\<open>eligible\<close>: the fold collects the identities that voted and the keys that did.\<close>

fun indirect_eligible_step ::
  "nat bset \<times> 'k::linorder bset \<Rightarrow> 'k \<times> nat option \<Rightarrow> double_vote + nat bset \<times> 'k bset" where
  "indirect_eligible_step (id_votes, acc) (k, idx) =
     (case idx of
        Some i \<Rightarrow>
          let (fresh, id_votes') = bset_insert i id_votes in
          if \<not> fresh then Inl DoubleVote else Inr (id_votes', snd (bset_insert k acc))
      | None \<Rightarrow> Inr (id_votes, snd (bset_insert k acc)))"

definition indirect_eligible ::
  "('t, 'r, 'c, 'k::linorder, 's) indirect \<Rightarrow> 'k bset \<Rightarrow> double_vote + 'k bset" where
  "indirect_eligible d votes =
     map_ok snd
       (try_fold indirect_eligible_step ([], []) (filter (\<lambda>(k, _). k \<in> set votes) (keys d)))"

definition indirect_quorum_threshold :: "('t, 'r, 'c, 'k, 's) indirect \<Rightarrow> nat" where
  "indirect_quorum_threshold d =
     (let direct = length (filter (\<lambda>(_, idx). idx = None) (keys d));
          indirect = length (identities d)
      in (direct + indirect) div 2)"

definition indirect_from_key :: "'k \<Rightarrow> ('t, 'r, 'c, 'k, 's) indirect" where
  "indirect_from_key pk = \<lparr>identities = [], keys = [(pk, None)]\<rparr>"

definition indirect_from_identity ::
  "('t, 'r, 'c, 'k, 's) indirectly_delegating \<Rightarrow> ('t, 'r, 'c, 'k, 's) indirect" where
  "indirect_from_identity i = \<lparr>identities = [i], keys = bmap_empty\<rparr>"

text \<open>
  The iterators yield the identities first, then the keys without an identity; \<open>direct\<close>
  and \<open>indirect\<close> select one side.
\<close>

definition indirect_into_iter ::
  "('t, 'r, 'c, 'k, 's) indirect \<Rightarrow> ('k + ('t, 'r, 'c, 'k, 's) indirectly_delegating) list" where
  "indirect_into_iter d =
     map Inr (identities d) @ map (\<lambda>(pk, _). Inl pk) (filter (\<lambda>(_, pos). pos = None) (keys d))"

definition indirect_iter_direct ::
  "('k + ('t, 'r, 'c, 'k, 's) indirectly_delegating) list \<Rightarrow> 'k list" where
  "indirect_iter_direct ds = List.map_filter (\<lambda>d. case d of Inl k \<Rightarrow> Some k | Inr _ \<Rightarrow> None) ds"

definition indirect_iter_indirect ::
  "('k + ('t, 'r, 'c, 'k, 's) indirectly_delegating) list \<Rightarrow>
   ('t, 'r, 'c, 'k, 's) indirectly_delegating list" where
  "indirect_iter_indirect ds = List.map_filter (\<lambda>d. case d of Inl _ \<Rightarrow> None | Inr i \<Rightarrow> Some i) ds"

section \<open>Either kind, and forwarding\<close>

datatype ('t, 'r, 'c, 'k, 's) some_delegations =
    Direct "'k direct"
  | Indirect "('t, 'r, 'c, 'k, 's) indirect"

fun some_eligible ::
  "('t, 'r, 'c, 'k::linorder, 's) some_delegations \<Rightarrow> 'k bset \<Rightarrow> (unit + double_vote) + 'k bset" where
  "some_eligible (Direct d) votes = Inr (direct_eligible d votes)"
| "some_eligible (Indirect d) votes = map_err Inr (indirect_eligible d votes)"

fun some_quorum_threshold :: "('t, 'r, 'c, 'k, 's) some_delegations \<Rightarrow> nat" where
  "some_quorum_threshold (Direct d) = direct_quorum_threshold d"
| "some_quorum_threshold (Indirect d) = indirect_quorum_threshold d"

text \<open>The impls for \<open>Doc\<close> and \<open>Identity\<close> forward to the delegations inside.\<close>

definition doc_eligible :: "('d \<Rightarrow> 'v \<Rightarrow> 'w) \<Rightarrow> ('t, 'd, 'r) doc \<Rightarrow> 'v \<Rightarrow> 'w" where
  "doc_eligible eligible d votes = eligible (delegations d) votes"

definition doc_quorum_threshold :: "('d \<Rightarrow> nat) \<Rightarrow> ('t, 'd, 'r) doc \<Rightarrow> nat" where
  "doc_quorum_threshold threshold d = threshold (delegations d)"

definition identity_eligible ::
  "('t \<Rightarrow> 'v \<Rightarrow> 'w) \<Rightarrow> ('t, 'r, 'c, 'k, 's) identity \<Rightarrow> 'v \<Rightarrow> 'w" where
  "identity_eligible eligible i votes = eligible (doc i) votes"

definition identity_quorum_threshold :: "('t \<Rightarrow> nat) \<Rightarrow> ('t, 'r, 'c, 'k, 's) identity \<Rightarrow> nat" where
  "identity_quorum_threshold threshold i = threshold (doc i)"

section \<open>The contract of delegations\<close>

text \<open>
  Every key votes for one voter: itself, or the identity it belongs to. What
  \<open>Delegations\<close> promises is that the eligible keys are among the votes and no two of them
  vote for the same voter, and that the threshold is half the number of voters.
\<close>

locale delegation_scheme =
  fixes eligible :: "'d \<Rightarrow> 'k::linorder bset \<Rightarrow> 'e + 'k bset"
    and threshold :: "'d \<Rightarrow> nat"
    and voter :: "'d \<Rightarrow> 'k \<Rightarrow> 'v"
    and voters :: "'d \<Rightarrow> 'v set"
    and ok :: "'d \<Rightarrow> bool"
  assumes eligible_ok: "ok d \<Longrightarrow> eligible d votes = Inr es \<Longrightarrow> bset_ok es"
    and eligible_votes: "ok d \<Longrightarrow> eligible d votes = Inr es \<Longrightarrow> set es \<subseteq> set votes"
    and eligible_voters: "ok d \<Longrightarrow> eligible d votes = Inr es \<Longrightarrow> voter d ` set es \<subseteq> voters d"
    and eligible_inj: "ok d \<Longrightarrow> eligible d votes = Inr es \<Longrightarrow> inj_on (voter d) (set es)"
    and finite_voters: "ok d \<Longrightarrow> finite (voters d)"
    and threshold_half: "ok d \<Longrightarrow> threshold d = card (voters d) div 2"
begin

text \<open>As many keys above the threshold are a strict majority of the voters.\<close>

lemma majority:
  assumes "ok d" "eligible d votes = Inr es" "length es > threshold d"
  shows "card (voters d) < 2 * card (voter d ` set es)"
proof -
  have "card (voter d ` set es) = length es"
    using assms by (simp add: card_image eligible_inj length_bset_card eligible_ok)
  with assms show ?thesis by (simp add: threshold_half)
qed

text \<open>Two majorities share a voter.\<close>

lemma quorums_intersect:
  assumes ok: "ok d"
    and es: "eligible d votes = Inr es" "length es > threshold d"
    and fs: "eligible d votes' = Inr fs" "length fs > threshold d"
  shows "\<exists>k \<in> set votes. \<exists>k' \<in> set votes'. voter d k = voter d k'"
proof -
  let ?A = "voter d ` set es" and ?B = "voter d ` set fs"
  have sub: "?A \<union> ?B \<subseteq> voters d" using ok es(1) fs(1) eligible_voters by blast
  then have "card (?A \<union> ?B) \<le> card (voters d)"
    by (rule card_mono [OF finite_voters [OF ok]])
  moreover have "card (voters d) < card ?A + card ?B"
    using majority [OF ok es] majority [OF ok fs] by linarith
  moreover have "card ?A + card ?B = card (?A \<union> ?B) + card (?A \<inter> ?B)"
    by (rule card_Un_Int) auto
  ultimately have "?A \<inter> ?B \<noteq> {}" by force
  then show ?thesis
    using eligible_votes [OF ok es(1)] eligible_votes [OF ok fs(1)] by auto
qed

end

section \<open>Direct delegations keep the contract\<close>

definition direct_ok :: "'k::linorder direct \<Rightarrow> bool" where
  "direct_ok d = (bset_ok d \<and> nonempty_ok d)"

lemma direct_ok_preserved:
  "direct_ok (direct_new k)"
  "direct_ok d \<Longrightarrow> direct_ok (direct_insert d k)"
  "direct_try_from_iter ks = Inr d \<Longrightarrow> direct_ok d \<and> set d = set ks"
  "direct_ok d \<Longrightarrow> direct_ok (direct_extend d ks)"
proof -
  show "direct_ok d \<Longrightarrow> direct_ok (direct_extend d ks)"
    using bset_fold_insert [of d ks] by (force simp: direct_ok_def direct_extend_def nonempty_extend_def nonempty_ok_def)
  show "direct_ok d \<Longrightarrow> direct_ok (direct_insert d k)"
    by (simp add: direct_ok_def direct_insert_def nonempty_preserved nonempty_set_insert_def
        flip: nonempty_set_insert_def)
      (simp add: nonempty_set_insert_def)
  show "direct_try_from_iter ks = Inr d \<Longrightarrow> direct_ok d \<and> set d = set ks"
    by (auto simp: direct_ok_def direct_try_from_iter_def nonempty_from_maybe_empty_def nonempty_ok_def
        Let_def split: if_splits option.splits)
qed (simp add: direct_ok_def direct_new_def nonempty_new_def nonempty_ok_def bset_ok_iff)

interpretation direct: delegation_scheme "\<lambda>d votes. Inr (direct_eligible d votes)" direct_quorum_threshold
  "\<lambda>_ k. k" set direct_ok
  by unfold_locales
    (auto simp: direct_eligible_def direct_quorum_threshold_def direct_ok_def length_bset_card)

section \<open>Indirect delegations keep the contract\<close>

definition indirect_voter :: "('t, 'r, 'c, 'k, 's) indirect \<Rightarrow> 'k \<Rightarrow> 'k + nat" where
  "indirect_voter d k =
     (case bmap_get (keys d) k of Some (Some i) \<Rightarrow> Inr i | _ \<Rightarrow> Inl k)"

definition indirect_voters :: "('t, 'r, 'c, 'k, 's) indirect \<Rightarrow> ('k + nat) set" where
  "indirect_voters d =
     Inl ` {k. bmap_get (keys d) k = Some None} \<union> Inr ` {..< length (identities d)}"

definition indirect_keys_ok :: "('t, 'r, 'c, 'k::linorder, 's) indirect \<Rightarrow> bool" where
  "indirect_keys_ok d =
     (bmap_ok (keys d) \<and> (\<forall>(k, pos) \<in> set (keys d). \<forall>i. pos = Some i \<longrightarrow> i < length (identities d)))"

lemma indirect_eligible_fold:
  "distinct (map fst ps) \<Longrightarrow>
   try_fold indirect_eligible_step (idv, acc) ps = Inr (idv', acc') \<Longrightarrow> bset_ok acc \<Longrightarrow>
   bset_ok acc' \<and> set acc' = set acc \<union> fst ` set ps
   \<and> (\<forall>k i. (k, Some i) \<in> set ps \<longrightarrow> i \<notin> set idv)
   \<and> (\<forall>k k' i. (k, Some i) \<in> set ps \<and> (k', Some i) \<in> set ps \<longrightarrow> k = k')"
proof (induction ps arbitrary: idv acc)
  case (Cons p ps)
  obtain k pos where p: "p = (k, pos)" by (cases p)
  show ?case
  proof (cases pos)
    case None
    with Cons.prems p have "try_fold indirect_eligible_step (idv, snd (bset_insert k acc)) ps = Inr (idv', acc')"
      by simp
    from Cons.IH [OF _ this] Cons.prems(1,3) show ?thesis by (auto simp: p None)
  next
    case (Some i)
    with Cons.prems p have new: "i \<notin> set idv"
      and run: "try_fold indirect_eligible_step (insort_insert i idv, snd (bset_insert k acc)) ps = Inr (idv', acc')"
      by (auto simp: bset_insert_def split: if_splits)
    from Cons.IH [OF _ run] Cons.prems(1,3) new show ?thesis
      by (auto simp: p Some set_insort_insert; blast)
  qed
qed auto

lemma indirect_eligible_Inr:
  assumes "bmap_ok (keys d)" and "indirect_eligible d votes = Inr es"
  shows "bset_ok es" and "set es = dom (bmap_get (keys d)) \<inter> set votes"
    and "\<And>k k' i. k \<in> set es \<Longrightarrow> k' \<in> set es \<Longrightarrow> bmap_get (keys d) k = Some (Some i) \<Longrightarrow>
      bmap_get (keys d) k' = Some (Some i) \<Longrightarrow> k = k'"
proof -
  let ?ps = "filter (\<lambda>(k, _). k \<in> set votes) (keys d)"
  obtain idv where run: "try_fold indirect_eligible_step ([], []) ?ps = Inr (idv, es)"
    using assms(2) by (auto simp: indirect_eligible_def)
  have dist: "distinct (map fst ?ps)"
    using bmap_ok_distinct [OF assms(1)] by (simp add: distinct_map_filter)
  note facts = indirect_eligible_fold [OF dist run bset_ok_Nil]
  from facts show "bset_ok es" by blast
  from facts show es: "set es = dom (bmap_get (keys d)) \<inter> set votes"
    by (force simp: bmap_keys_set [symmetric] bmap_keys_def)
  fix k k' i
  assume "k \<in> set es" "k' \<in> set es" "bmap_get (keys d) k = Some (Some i)" "bmap_get (keys d) k' = Some (Some i)"
  then have "(k, Some i) \<in> set ?ps" "(k', Some i) \<in> set ?ps"
    using assms(1) es by (auto simp: bmap_get_in)
  with facts show "k = k'" by blast
qed

lemma card_indirect_voters:
  assumes "bmap_ok (keys d)"
  shows "card (indirect_voters d) =
    length (filter (\<lambda>(_, pos). pos = None) (keys d)) + length (identities d)"
proof -
  have "{k. bmap_get (keys d) k = Some None} = fst ` set (filter (\<lambda>(_, pos). pos = None) (keys d))"
    using assms by (force simp: bmap_get_in [symmetric])
  moreover have "distinct (map fst (filter (\<lambda>(_, pos). pos = None) (keys d)))"
    using bmap_ok_distinct [OF assms] by (simp add: distinct_map_filter)
  ultimately have "card {k. bmap_get (keys d) k = Some None}
      = length (filter (\<lambda>(_, pos). pos = None) (keys d))"
    using distinct_card by fastforce
  moreover have "finite {k. bmap_get (keys d) k = Some None}"
    by (rule finite_subset [OF _ bmap.finite_dom [OF assms]]) auto
  ultimately show ?thesis
    unfolding indirect_voters_def by (subst card_Un_disjoint) (auto simp: card_image)
qed

interpretation indirect: delegation_scheme indirect_eligible indirect_quorum_threshold
  indirect_voter indirect_voters indirect_keys_ok
proof
  fix d :: "('t, 'r, 'c, 'k::linorder, 's) indirect" and votes es
  assume ok: "indirect_keys_ok d"
  then have m: "bmap_ok (keys d)" by (simp add: indirect_keys_ok_def)
  show "finite (indirect_voters d)"
    unfolding indirect_voters_def
    by (intro finite_UnI finite_imageI finite_subset [OF _ bmap.finite_dom [OF m]]) auto
  show "indirect_quorum_threshold d = card (indirect_voters d) div 2"
    by (simp add: card_indirect_voters [OF m] indirect_quorum_threshold_def Let_def)
  assume es: "indirect_eligible d votes = Inr es"
  note e = indirect_eligible_Inr [OF m es]
  show "bset_ok es" by (rule e(1))
  show "set es \<subseteq> set votes" using e(2) by blast
  show "indirect_voter d ` set es \<subseteq> indirect_voters d"
  proof (clarify)
    fix k assume "k \<in> set es"
    then obtain pos where "bmap_get (keys d) k = Some pos" using e(2) by auto
    moreover from this have "(k, pos) \<in> set (keys d)" by (simp add: bmap_get_in [OF m])
    ultimately show "indirect_voter d k \<in> indirect_voters d"
      using ok by (cases pos) (auto simp: indirect_voter_def indirect_voters_def indirect_keys_ok_def)
  qed
  show "inj_on (indirect_voter d) (set es)"
  proof (rule inj_onI)
    fix k k' assume k: "k \<in> set es" "k' \<in> set es" "indirect_voter d k = indirect_voter d k'"
    then show "k = k'"
      using e(3) [OF k(1,2)] by (auto simp: indirect_voter_def split: option.splits)
  qed
qed

section \<open>Building indirect delegations\<close>

text \<open>
  The invariant of the loop: the roots are those of the identities so far, no two of which
  agree, and a key belongs to the identity that delegates to it.
\<close>

definition indirect_keys_of ::
  "('t, 'r, 'c, 'k, 's) indirectly_delegating list \<Rightarrow> ('k, nat option) bmap \<Rightarrow> bool" where
  "indirect_keys_of ids dels =
     (\<forall>k i. bmap_get dels k = Some (Some i) \<longleftrightarrow> i < length ids \<and> k \<in> set (delegations (doc (ids ! i))))"

fun indirect_loop_ok ::
  "('t, 'r, 'c, 'k::linorder, 's) indirectly_delegating list \<times> ('k, nat option) bmap \<times> 'r bset \<Rightarrow> bool"
  where
  "indirect_loop_ok (ids, dels, roots) =
     (bmap_ok dels \<and> set roots = root ` set ids \<and> distinct (map root ids)
      \<and> (\<forall>i \<in> set ids. distinct (delegations (doc i))) \<and> indirect_keys_of ids dels)"

lemma indirect_insert_simps [simp]:
  "bmap_get dels k = None \<Longrightarrow> indirect_insert k pos dels = Inr (bmap_insert k pos dels)"
  "bmap_get dels k = Some x \<Longrightarrow> indirect_insert k pos dels = Inl (DuplicateKey k)"
  by (simp_all add: indirect_insert_def)

lemma indirect_inserts:
  "bmap_ok dels \<Longrightarrow>
   try_fold (\<lambda>dels key. indirect_insert key pos dels) dels ks = Inr dels' \<longleftrightarrow>
     distinct ks \<and> set ks \<inter> dom (bmap_get dels) = {}
     \<and> dels' = fold (\<lambda>(k, v). bmap_insert k v) (map (\<lambda>k. (k, pos)) ks) dels"
proof (induction ks arbitrary: dels)
  case (Cons k ks)
  show ?case
  proof (cases "bmap_get dels k")
    case None
    have "set ks \<inter> dom (bmap_get (bmap_insert k pos dels)) = {} \<longleftrightarrow>
        k \<notin> set ks \<and> set ks \<inter> dom (bmap_get dels) = {}"
      using Cons.prems by (auto simp: bmap.lookup_insert)
    then show ?thesis
      using Cons.IH [of "bmap_insert k pos dels"] Cons.prems None by (simp add: domIff) blast
  qed (simp add: domIff)
qed auto

lemma get_indirect_inserts:
  "bmap_ok dels \<Longrightarrow>
   bmap_get (fold (\<lambda>(k, v). bmap_insert k v) (map (\<lambda>k. (k, pos)) ks) dels) k =
     (if k \<in> set ks then Some pos else bmap_get dels k)"
  by (induction ks arbitrary: dels) (auto simp: bmap.lookup_insert)

lemma indirect_step_key:
  assumes "bmap_ok dels"
  shows "indirect_step (ids, dels, roots) (Inl k) = Inr s \<longleftrightarrow>
    bmap_get dels k = None \<and> s = (ids, bmap_insert k None dels, roots)"
  by (auto simp: indirect_insert_def split: option.splits)

lemma indirect_step_identity:
  assumes "bmap_ok dels"
  shows "indirect_step (ids, dels, roots) (Inr i) = Inr s \<longleftrightarrow>
    root i \<notin> set roots \<and> distinct (delegations (doc i))
    \<and> set (delegations (doc i)) \<inter> dom (bmap_get dels) = {}
    \<and> s = (ids @ [i],
           fold (\<lambda>(k, v). bmap_insert k v) (map (\<lambda>k. (k, Some (length ids))) (delegations (doc i))) dels,
           insort_insert (root i) roots)"
  using assms by (auto simp: bset_insert_def indirect_inserts)

lemma indirect_keys_of_key:
  "bmap_ok dels \<Longrightarrow> bmap_get dels k = None \<Longrightarrow> indirect_keys_of ids dels \<Longrightarrow>
   indirect_keys_of ids (bmap_insert k None dels)"
  unfolding indirect_keys_of_def by (auto simp: bmap.lookup_insert) (metis option.distinct(1))+

lemma indirect_keys_of_identity:
  assumes ok: "bmap_ok dels" and new: "set (delegations (doc i)) \<inter> dom (bmap_get dels) = {}"
    and inv: "indirect_keys_of ids dels"
  shows "indirect_keys_of (ids @ [i])
    (fold (\<lambda>(k, v). bmap_insert k v) (map (\<lambda>k. (k, Some (length ids))) (delegations (doc i))) dels)"
  unfolding indirect_keys_of_def get_indirect_inserts [OF ok]
proof (intro allI)
  fix k j
  have other: "bmap_get dels k = Some (Some j) \<longleftrightarrow> j < length ids \<and> k \<in> set (delegations (doc (ids ! j)))"
    using inv by (simp add: indirect_keys_of_def)
  show "(if k \<in> set (delegations (doc i)) then Some (Some (length ids)) else bmap_get dels k) = Some (Some j)
    \<longleftrightarrow> j < length (ids @ [i]) \<and> k \<in> set (delegations (doc ((ids @ [i]) ! j)))"
    using other new by (auto simp: nth_append less_Suc_eq disjoint_iff domIff)
qed

lemma indirect_step_ok:
  assumes ok: "indirect_loop_ok s" and run: "indirect_step s x = Inr s'"
  shows "indirect_loop_ok s'"
proof -
  obtain ids dels roots where s: "s = (ids, dels, roots)" by (cases s)
  have m: "bmap_ok dels" and keys: "indirect_keys_of ids dels" using ok s by auto
  show ?thesis
  proof (cases x)
    case (Inl k)
    have new: "bmap_get dels k = None" and s': "s' = (ids, bmap_insert k None dels, roots)"
      using run unfolding s Inl indirect_step_key [OF m] by auto
    then show ?thesis using ok m keys s indirect_keys_of_key by auto
  next
    case (Inr i)
    note step = run [unfolded s Inr indirect_step_identity [OF m]]
    show ?thesis
      using step ok m keys s indirect_keys_of_identity [OF m _ keys, of i]
      by (auto simp: set_insort_insert bmap.ok_fold_insert)
  qed
qed

definition indirect_ok :: "('t, 'r, 'c, 'k::linorder, 's) indirect \<Rightarrow> bool" where
  "indirect_ok d =
     (bmap_ok (keys d) \<and> distinct (map root (identities d))
      \<and> (\<forall>i \<in> set (identities d). distinct (delegations (doc i)))
      \<and> indirect_keys_of (identities d) (keys d) \<and> (identities d \<noteq> [] \<or> keys d \<noteq> []))"

lemma indirect_try_from_iter_ok:
  assumes "indirect_try_from_iter xs = Inr d"
  shows "indirect_ok d"
proof -
  obtain ids dels roots where run: "try_fold indirect_step ([], bmap_empty, []) xs = Inr (ids, dels, roots)"
    and d: "d = \<lparr>identities = ids, keys = dels\<rparr>" and ne: "\<not> (ids = [] \<and> dels = [])"
    using assms by (auto simp: indirect_try_from_iter_def split: if_splits)
  have "indirect_loop_ok (ids, dels, roots)"
    by (rule try_fold_invariant [OF run, where P = indirect_loop_ok])
      (auto simp: indirect_keys_of_def bmap.lookup_empty intro: indirect_step_ok)
  with d ne show ?thesis by (auto simp: indirect_ok_def)
qed

lemma indirect_ok_keys: "indirect_ok d \<Longrightarrow> indirect_keys_ok d"
  by (auto simp: indirect_ok_def indirect_keys_ok_def indirect_keys_of_def bmap_get_in)

subsection \<open>Iterating and building again\<close>

definition disjoint_delegations :: "('t, 'r, 'c, 'k, 's) indirectly_delegating list \<Rightarrow> bool" where
  "disjoint_delegations ids =
     (\<forall>i j k. i < length ids \<and> j < length ids \<and> k \<in> set (delegations (doc (ids ! i)))
        \<and> k \<in> set (delegations (doc (ids ! j))) \<longrightarrow> i = j)"

lemma keys_of_disjoint: "indirect_keys_of ids dels \<Longrightarrow> disjoint_delegations ids"
  unfolding indirect_keys_of_def disjoint_delegations_def by (metis option.inject)

lemma disjoint_delegations_snoc:
  assumes "disjoint_delegations (ids @ [i])"
  shows "disjoint_delegations ids" and "k \<in> set (delegations (doc i)) \<Longrightarrow> j < length ids \<Longrightarrow>
    k \<notin> set (delegations (doc (ids ! j)))"
proof -
  show "disjoint_delegations ids"
    unfolding disjoint_delegations_def
  proof (intro allI impI)
    fix a b k
    assume "a < length ids \<and> b < length ids \<and> k \<in> set (delegations (doc (ids ! a)))
      \<and> k \<in> set (delegations (doc (ids ! b)))"
    then show "a = b"
      using assms [unfolded disjoint_delegations_def, rule_format, of a b k] by (auto simp: nth_append)
  qed
  show "k \<in> set (delegations (doc i)) \<Longrightarrow> j < length ids \<Longrightarrow> k \<notin> set (delegations (doc (ids ! j)))"
    using assms [unfolded disjoint_delegations_def, rule_format, of "length ids" j k]
    by (auto simp: nth_append)
qed

lemma indirect_run_identities:
  fixes ids :: "('t, 'r::linorder, 'c, 'k::linorder, 's) indirectly_delegating list"
  assumes "distinct (map root ids)" "\<forall>i \<in> set ids. distinct (delegations (doc i))"
    "disjoint_delegations ids"
  shows "\<exists>dels roots. try_fold indirect_step ([], bmap_empty, []) (map Inr ids) = Inr (ids, dels, roots)
    \<and> indirect_loop_ok (ids, dels, roots) \<and> (\<forall>k. bmap_get dels k \<noteq> Some None)"
  using assms
proof (induction ids rule: rev_induct)
  case Nil
  then show ?case by (auto simp: indirect_keys_of_def bmap.lookup_empty)
next
  case (snoc i ids)
  have "disjoint_delegations ids" by (rule disjoint_delegations_snoc(1) [OF snoc.prems(3)])
  then obtain dels roots where
    run: "try_fold indirect_step ([], bmap_empty, []) (map Inr ids) = Inr (ids, dels, roots)"
    and ok: "indirect_loop_ok (ids, dels, roots)" and none: "\<forall>k. bmap_get dels k \<noteq> Some None"
    using snoc.IH snoc.prems(1,2) by auto
  have m: "bmap_ok dels" using ok by simp
  let ?s = "(ids @ [i], fold (\<lambda>(k, v). bmap_insert k v)
    (map (\<lambda>k. (k, Some (length ids))) (delegations (doc i))) dels, insort_insert (root i) roots)"
  have "set (delegations (doc i)) \<inter> dom (bmap_get dels) = {}"
  proof (rule ccontr)
    assume "\<not> ?thesis"
    then obtain k v where k: "k \<in> set (delegations (doc i))" "bmap_get dels k = Some v" by auto
    with none obtain j where "v = Some j" by (cases v) auto
    with k ok have "j < length ids" "k \<in> set (delegations (doc (ids ! j)))"
      by (auto simp: indirect_keys_of_def)
    with k show False using disjoint_delegations_snoc(2) [OF snoc.prems(3)] by blast
  qed
  then have step: "indirect_step (ids, dels, roots) (Inr i) = Inr ?s"
    unfolding indirect_step_identity [OF m] using snoc.prems ok by auto
  moreover have "indirect_loop_ok ?s" using ok step by (rule indirect_step_ok)
  moreover have "\<forall>k. bmap_get (fst (snd ?s)) k \<noteq> Some None"
    using none by (simp add: get_indirect_inserts [OF m])
  ultimately show ?case
    using run by (auto simp: try_fold_append simp del: indirect_step.simps)
qed

lemma indirect_run_keys:
  "bmap_ok dels \<Longrightarrow> distinct ks \<Longrightarrow> set ks \<inter> dom (bmap_get dels) = {} \<Longrightarrow>
   try_fold indirect_step (ids, dels, roots) (map Inl ks) =
     Inr (ids, fold (\<lambda>(k, v). bmap_insert k v) (map (\<lambda>k. (k, None)) ks) dels, roots)"
proof (induction ks arbitrary: dels)
  case (Cons k ks)
  then show ?case by (auto simp: domIff bmap.lookup_insert)
qed simp

lemma indirect_rebuild:
  fixes d :: "('t, 'r::linorder, 'c, 'k::linorder, 's) indirect"
  assumes "indirect_ok d"
  shows "indirect_try_from_iter (indirect_into_iter d) = Inr d"
proof -
  let ?ids = "identities d" and ?ks = "map fst (filter (\<lambda>(_, pos). pos = None) (keys d))"
  have ok: "bmap_ok (keys d)" and keys: "indirect_keys_of ?ids (keys d)"
    using assms by (simp_all add: indirect_ok_def)
  obtain dels roots where
    run: "try_fold indirect_step ([], bmap_empty, []) (map Inr ?ids) = Inr (?ids, dels, roots)"
    and loop: "indirect_loop_ok (?ids, dels, roots)" and none: "\<forall>k. bmap_get dels k \<noteq> Some None"
    using indirect_run_identities [of ?ids] assms keys_of_disjoint [OF keys]
    by (auto simp: indirect_ok_def)
  have ks: "set ?ks = {k. bmap_get (keys d) k = Some None}"
    using ok by (force simp: bmap_get_in [symmetric])
  have m: "bmap_ok dels" and same: "\<And>k i. bmap_get dels k = Some (Some i) \<longleftrightarrow> bmap_get (keys d) k = Some (Some i)"
    using loop keys by (auto simp: indirect_keys_of_def)
  have fresh: "set ?ks \<inter> dom (bmap_get dels) = {}"
  proof (rule ccontr)
    assume "\<not> ?thesis"
    then obtain k v where "bmap_get (keys d) k = Some None" "bmap_get dels k = Some v" using ks by auto
    with none same show False by (cases v) auto
  qed
  have dist: "distinct ?ks"
    using bmap_ok_distinct [OF ok] by (simp add: distinct_map_filter)
  let ?dels = "fold (\<lambda>(k, v). bmap_insert k v) (map (\<lambda>k. (k, None)) ?ks) dels"
  have "bmap_get ?dels = bmap_get (keys d)"
  proof
    fix k
    note get = get_indirect_inserts [OF m, of None ?ks k, unfolded ks mem_Collect_eq]
    consider "bmap_get (keys d) k = None" | "bmap_get (keys d) k = Some None"
      | i where "bmap_get (keys d) k = Some (Some i)" by (metis option.exhaust)
    then show "bmap_get ?dels k = bmap_get (keys d) k"
    proof cases
      case 1
      then have "bmap_get dels k = None" using none same [of k] by (metis option.exhaust)
      with 1 show ?thesis unfolding get by simp
    next
      case 3
      then have "bmap_get dels k = Some (Some i)" using same by blast
      with 3 show ?thesis unfolding get by simp
    next
      case 2
      then show ?thesis unfolding get by simp
    qed
  qed
  moreover have "bmap_ok ?dels" by (rule bmap.ok_fold_insert [OF m])
  ultimately have eq: "?dels = keys d" using ok by (intro bmap_ext)
  have "indirect_into_iter d = map Inr ?ids @ map Inl ?ks"
    by (simp add: indirect_into_iter_def comp_def case_prod_unfold)
  then have "try_fold indirect_step ([], bmap_empty, []) (indirect_into_iter d) = Inr (?ids, keys d, roots)"
    using run indirect_run_keys [OF m dist fresh, of ?ids roots] eq by (simp add: try_fold_append)
  then show ?thesis
    using assms by (auto simp: indirect_try_from_iter_def indirect_ok_def)
qed

section \<open>Either kind keeps the contract\<close>

fun some_voter :: "('t, 'r, 'c, 'k, 's) some_delegations \<Rightarrow> 'k \<Rightarrow> 'k + nat" where
  "some_voter (Direct d) k = Inl k"
| "some_voter (Indirect d) k = indirect_voter d k"

fun some_voters :: "('t, 'r, 'c, 'k, 's) some_delegations \<Rightarrow> ('k + nat) set" where
  "some_voters (Direct d) = Inl ` set d"
| "some_voters (Indirect d) = indirect_voters d"

fun some_ok :: "('t, 'r, 'c, 'k::linorder, 's) some_delegations \<Rightarrow> bool" where
  "some_ok (Direct d) = direct_ok d"
| "some_ok (Indirect d) = indirect_keys_ok d"

lemma some_eligible_Indirect [simp]:
  "some_eligible (Indirect d) votes = Inr es \<longleftrightarrow> indirect_eligible d votes = Inr es"
  by simp

interpretation some: delegation_scheme some_eligible some_quorum_threshold some_voter some_voters some_ok
proof
  fix d :: "('t, 'r, 'c, 'k::linorder, 's) some_delegations" and votes es
  assume ok: "some_ok d"
  show "finite (some_voters d)"
    using ok by (cases d) (auto intro: indirect.finite_voters)
  show "some_quorum_threshold d = card (some_voters d) div 2"
    using ok by (cases d) (auto simp: card_image direct.threshold_half indirect.threshold_half)
  assume es: "some_eligible d votes = Inr es"
  have "bset_ok es \<and> set es \<subseteq> set votes \<and> some_voter d ` set es \<subseteq> some_voters d
    \<and> inj_on (some_voter d) (set es)"
  proof (cases d)
    case (Direct ks)
    then have "es = direct_eligible ks votes" "direct_ok ks" using ok es by auto
    then show ?thesis
      by (auto simp: Direct direct_eligible_def direct_ok_def inj_on_def)
  next
    case (Indirect ind)
    then have ind: "indirect_keys_ok ind" "indirect_eligible ind votes = Inr es"
      using ok es by auto
    have "some_voter d = indirect_voter ind" using Indirect by (simp add: fun_eq_iff)
    with ind show ?thesis
      by (simp add: Indirect indirect.eligible_ok indirect.eligible_votes indirect.eligible_voters
          indirect.eligible_inj)
  qed
  then show "bset_ok es" "set es \<subseteq> set votes" "some_voter d ` set es \<subseteq> some_voters d"
    "inj_on (some_voter d) (set es)" by blast+
qed

lemma indirect_eligible_fold_ok:
  "distinct (map fst ps) \<Longrightarrow> \<forall>k i. (k, Some i) \<in> set ps \<longrightarrow> i \<notin> set idv \<Longrightarrow>
   \<forall>k k' i. (k, Some i) \<in> set ps \<and> (k', Some i) \<in> set ps \<longrightarrow> k = k' \<Longrightarrow>
   \<exists>r. try_fold indirect_eligible_step (idv, acc) ps = Inr r"
proof (induction ps arbitrary: idv acc)
  case (Cons p ps)
  obtain k pos where p: "p = (k, pos)" by (cases p)
  show ?case
  proof (cases pos)
    case None
    moreover have "\<exists>r. try_fold indirect_eligible_step (idv, snd (bset_insert k acc)) ps = Inr r"
      using Cons.prems by (intro Cons.IH) (simp, (meson list.set_intros(2))+)
    ultimately show ?thesis by (simp add: p)
  next
    case (Some i)
    have "i \<notin> set idv" using Cons.prems(2) p Some by auto
    moreover have "\<forall>k' j. (k', Some j) \<in> set ps \<longrightarrow> j \<notin> set (insort_insert i idv)"
    proof (intro allI impI)
      fix k' j assume k': "(k', Some j) \<in> set ps"
      then have "k' \<noteq> k" using Cons.prems(1) p by force
      with k' Cons.prems(3) p Some have "j \<noteq> i" by (metis list.set_intros)
      with k' Cons.prems(2) show "j \<notin> set (insort_insert i idv)" by (auto simp: set_insort_insert)
    qed
    then have "\<exists>r. try_fold indirect_eligible_step (insort_insert i idv, snd (bset_insert k acc)) ps = Inr r"
      using Cons.prems(1,3) by (intro Cons.IH) (simp, blast, meson list.set_intros(2))
    ultimately show ?thesis by (simp add: p Some bset_insert_def)
  qed
qed auto

section \<open>Properties\<close>

text \<open>
  C14: any two quorums of the same delegations, direct or indirect, share a voter: if the
  eligible part of each of two sets of votes exceeds the threshold, then some key of the first
  and some key of the second are the same direct delegate or belong to the same delegated
  identity. So two conflicting revisions cannot both gather a quorum without a common voter.
\<close>

theorem quorums_share_a_voter:
  assumes "some_ok d"
    and "some_eligible d votes = Inr es" and "length es > some_quorum_threshold d"
    and "some_eligible d votes' = Inr fs" and "length fs > some_quorum_threshold d"
  shows "\<exists>k \<in> set votes. \<exists>k' \<in> set votes'. some_voter d k = some_voter d k'"
  using assms by (rule some.quorums_intersect)

theorem quorums_share_a_voter_witness:
  "\<exists>k \<in> set [1, 2::nat]. \<exists>k' \<in> set [2, 3::nat].
     some_voter (Direct [1, 2, 3] :: (unit, nat, nat, nat, unit) some_delegations) k =
     some_voter (Direct [1, 2, 3] :: (unit, nat, nat, nat, unit) some_delegations) k'"
  by (rule quorums_share_a_voter [where es = "[1, 2]" and fs = "[2, 3]"])
    (simp_all add: direct_ok_def bset_ok_def nonempty_ok_def direct_eligible_def direct_quorum_threshold_def)

text \<open>
  C15: voting on indirect delegations. The eligible keys are exactly the delegated keys among
  the votes, and the answer is a double vote exactly when two different voting keys belong to
  the same delegated identity.
\<close>

theorem indirect_eligible_correct:
  assumes "bmap_ok (keys d)"
  shows "indirect_eligible d votes =
    (if \<exists>k \<in> set votes. \<exists>k' \<in> set votes. \<exists>i. k \<noteq> k' \<and> bmap_get (keys d) k = Some (Some i)
        \<and> bmap_get (keys d) k' = Some (Some i)
     then Inl DoubleVote
     else Inr (filter (\<lambda>k. k \<in> set votes) (bmap_keys (keys d))))"
proof (cases "indirect_eligible d votes")
  case (Inr es)
  note e = indirect_eligible_Inr [OF assms Inr]
  have "\<not> (\<exists>k \<in> set votes. \<exists>k' \<in> set votes. \<exists>i. k \<noteq> k' \<and> bmap_get (keys d) k = Some (Some i)
      \<and> bmap_get (keys d) k' = Some (Some i))"
    using e(2,3) by fastforce
  moreover have "es = filter (\<lambda>k. k \<in> set votes) (bmap_keys (keys d))"
    using e(1,2) assms by (intro bset_ext) (auto simp: bmap_keys_set)
  ultimately show ?thesis using Inr by simp
next
  case (Inl x)
  let ?ps = "filter (\<lambda>(k, _). k \<in> set votes) (keys d)"
  have "distinct (map fst ?ps)"
    using bmap_ok_distinct [OF assms] by (simp add: distinct_map_filter)
  moreover have "\<nexists>r. try_fold indirect_eligible_step ([], []) ?ps = Inr r"
    using Inl by (auto simp: indirect_eligible_def)
  ultimately have "\<not> (\<forall>k k' i. (k, Some i) \<in> set ?ps \<and> (k', Some i) \<in> set ?ps \<longrightarrow> k = k')"
    using indirect_eligible_fold_ok [of ?ps "[]" "[]"] by (metis empty_iff empty_set)
  then have "\<exists>k \<in> set votes. \<exists>k' \<in> set votes. \<exists>i. k \<noteq> k' \<and> bmap_get (keys d) k = Some (Some i)
      \<and> bmap_get (keys d) k' = Some (Some i)"
    using assms by (auto simp: bmap_get_in)
  with Inl show ?thesis by (cases x) simp
qed

definition example_identity :: "nat \<Rightarrow> nat list \<Rightarrow> (unit, nat, nat, nat, unit) indirectly_delegating" where
  "example_identity r ks =
     \<lparr>content_id = r, root = r, revision = r,
      doc = \<lparr>version = 0, replaces = None, payload = (), delegations = ks\<rparr>, signatures = []\<rparr>"

theorem indirect_eligible_correct_witness:
  "indirect_eligible \<lparr>identities = [example_identity 0 [1, 2]], keys = [(1, Some 0), (2, Some 0), (3, None)]\<rparr> [1, 2]
     = Inl DoubleVote
   \<and> indirect_eligible \<lparr>identities = [example_identity 0 [1, 2]], keys = [(1, Some 0), (2, Some 0), (3, None)]\<rparr> [1, 3, 4]
     = Inr [1, 3]"
  using indirect_eligible_correct [of "\<lparr>identities = [example_identity 0 [1, 2]],
      keys = [(1, Some 0), (2, Some 0), (3, None)]\<rparr>" "[1, 2]"]
    indirect_eligible_correct [of "\<lparr>identities = [example_identity 0 [1, 2]],
      keys = [(1, Some 0), (2, Some 0), (3, None)]\<rparr>" "[1, 3, 4]"]
  by (simp add: bmap_ok_def bmap_get_def bmap_keys_def)

text \<open>
  C16: building indirect delegations from a list succeeds only if no key and no identity root
  occurs twice; each key then belongs to exactly the identity that delegates to it, and
  building again from the iterator over the result gives the same delegations.
\<close>

theorem indirect_try_from_iter_roundtrip:
  assumes "indirect_try_from_iter xs = Inr d"
  shows "indirect_ok d \<and> indirect_try_from_iter (indirect_into_iter d) = Inr d"
  using indirect_try_from_iter_ok [OF assms] indirect_rebuild by blast

theorem indirect_try_from_iter_roundtrip_witness:
  "indirect_ok \<lparr>identities = [example_identity 0 [1, 2]], keys = [(1, Some 0), (2, Some 0), (3, None)]\<rparr>
   \<and> indirect_try_from_iter (indirect_into_iter
        \<lparr>identities = [example_identity 0 [1, 2]], keys = [(1, Some 0), (2, Some 0), (3, None)]\<rparr>)
     = Inr \<lparr>identities = [example_identity 0 [1, 2]], keys = [(1, Some 0), (2, Some 0), (3, None)]\<rparr>"
proof (rule indirect_try_from_iter_roundtrip)
  show "indirect_try_from_iter [Inl 3, Inr (example_identity 0 [1, 2])] =
    Inr \<lparr>identities = [example_identity 0 [1, 2]], keys = [(1, Some 0), (2, Some 0), (3, None)]\<rparr>"
    by (simp add: indirect_try_from_iter_def bset_insert_def example_identity_def bmap_get_def bmap_empty_def
        insort_insert_key_def)
qed

text \<open>
  Indirect delegations made from a single identity record none of its keys, so nobody can
  vote for them, whatever the signatures.
\<close>

lemma indirect_from_identity_no_votes:
  "indirect_eligible (indirect_from_identity i) votes = Inr []
   \<and> indirect_owner (indirect_from_identity i) key = Some None"
  by (simp add: indirect_from_identity_def indirect_eligible_def indirect_owner_def bmap_empty_def
      bmap_get_def)

end
