(* ===== verification/Identity.thy ===== *)
theory Identity
  imports Delegation
begin

text \<open>
  Verification of identities, \<open>link-identities/src/generic.rs\<close>: the transitions
  \<open>Untrusted\<close> to \<open>Signed\<close> to \<open>Quorum\<close> to \<open>Verified\<close>, and the fold \<open>verify\<close> over a history.

  The verification status is a phantom type in the source; a transition returns the
  identity it was given. The trait \<open>Delegations\<close> is the pair of functions \<open>eligible\<close> and
  \<open>threshold\<close> on the delegations of the document. Checking one signature over a revision
  (\<open>sig.verify(revision, pk)\<close>, ed25519) is the argument \<open>verify\<close>.
\<close>

type_synonym ('p, 'd, 'r, 'c, 'k, 's) doc_identity = "(('p, 'd, 'r) doc, 'r, 'c, 'k, 's) identity"

section \<open>Transitions\<close>

datatype ('r, 'c, 'e, 'h) verify_error =
    SignatureVerification
  | NoSignatures
  | Quorum
  | ParentQuorum
  | ParentMismatch 'r 'r
  | DanglingParent 'c 'c
  | MissingParent 'r
  | RootMismatch 'r 'r
  | EmptyHistory
  | Eligibility 'e
  | History 'h

definition untrusted_signed ::
  "('r \<Rightarrow> 'k \<Rightarrow> 's \<Rightarrow> bool) \<Rightarrow> ('t, 'r, 'c, 'k, 's) identity \<Rightarrow>
   ('r, 'c, 'e, 'h) verify_error + ('t, 'r, 'c, 'k, 's) identity" where
  "untrusted_signed verify i =
     (if signatures i = [] then Inl NoSignatures
      else if \<not> list_all (\<lambda>(pk, sig). verify (revision i) pk sig) (signatures i)
      then Inl SignatureVerification
      else Inr i)"

definition signed_quorum ::
  "('d \<Rightarrow> 'k bset \<Rightarrow> 'e + 'k bset) \<Rightarrow> ('d \<Rightarrow> nat) \<Rightarrow> ('p, 'd, 'r, 'c, 'k, 's) doc_identity \<Rightarrow>
   ('r, 'c, 'e, 'h) verify_error + ('p, 'd, 'r, 'c, 'k, 's) doc_identity" where
  "signed_quorum eligible threshold i =
     and_then (map_err Eligibility (doc_eligible eligible (doc i) (bmap_keys (signatures i)))) (\<lambda>es.
       let n = length es in
       if n > 0 \<and> n > doc_quorum_threshold threshold (doc i) then Inr i else Inl Quorum)"

definition quorum_verified ::
  "('d \<Rightarrow> 'k bset \<Rightarrow> 'e + 'k bset) \<Rightarrow> ('d \<Rightarrow> nat) \<Rightarrow> ('p, 'd, 'r, 'c, 'k, 's) doc_identity \<Rightarrow>
   ('p, 'd, 'r, 'c, 'k, 's) doc_identity option \<Rightarrow>
   ('r, 'c, 'e, 'h) verify_error + ('p, 'd, 'r, 'c, 'k, 's) doc_identity" where
  "quorum_verified eligible threshold i parent =
     (case (replaces (doc i), parent) of
        (repl, Some p) \<Rightarrow>
          if root p \<noteq> root i then Inl (RootMismatch (root i) (root p))
          else (case repl of
            None \<Rightarrow> Inl (DanglingParent (content_id i) (content_id p))
          | Some r \<Rightarrow>
              if r \<noteq> revision p then Inl (ParentMismatch r (revision p))
              else
                and_then (map_err Eligibility (doc_eligible eligible (doc p) (bmap_keys (signatures i))))
                  (\<lambda>es. let votes = length es in
                     if votes > 0 \<and> votes > doc_quorum_threshold threshold (doc p) then Inr i
                     else Inl ParentQuorum))
      | (Some r, None) \<Rightarrow> Inl (MissingParent r)
      | (None, None) \<Rightarrow> Inr i)"

definition untrusted_quorum ::
  "('r \<Rightarrow> 'k \<Rightarrow> 's \<Rightarrow> bool) \<Rightarrow> ('d \<Rightarrow> 'k bset \<Rightarrow> 'e + 'k bset) \<Rightarrow> ('d \<Rightarrow> nat) \<Rightarrow>
   ('p, 'd, 'r, 'c, 'k, 's) doc_identity \<Rightarrow>
   ('r, 'c, 'e, 'h) verify_error + ('p, 'd, 'r, 'c, 'k, 's) doc_identity" where
  "untrusted_quorum verify eligible threshold i =
     and_then (untrusted_signed verify i) (signed_quorum eligible threshold)"

definition untrusted_verified ::
  "('r \<Rightarrow> 'k \<Rightarrow> 's \<Rightarrow> bool) \<Rightarrow> ('d \<Rightarrow> 'k bset \<Rightarrow> 'e + 'k bset) \<Rightarrow> ('d \<Rightarrow> nat) \<Rightarrow>
   ('p, 'd, 'r, 'c, 'k, 's) doc_identity \<Rightarrow> ('p, 'd, 'r, 'c, 'k, 's) doc_identity option \<Rightarrow>
   ('r, 'c, 'e, 'h) verify_error + ('p, 'd, 'r, 'c, 'k, 's) doc_identity" where
  "untrusted_verified verify eligible threshold i parent =
     and_then (untrusted_signed verify i) (\<lambda>s.
       and_then (signed_quorum eligible threshold s) (\<lambda>q.
         quorum_verified eligible threshold q parent))"

section \<open>Folding a history\<close>

record ('p, 'd, 'r, 'c, 'k, 's) folded =
  head :: "('p, 'd, 'r, 'c, 'k, 's) doc_identity"
  parent :: "('p, 'd, 'r, 'c, 'k, 's) doc_identity option"

text \<open>
  One step: an unsigned element is an error; one without a quorum is skipped; a confirmation
  of the head is checked against the head's parent and skipped where it fails; anything else
  must be verified against the head.
\<close>

definition verify_step ::
  "('r \<Rightarrow> 'k \<Rightarrow> 's \<Rightarrow> bool) \<Rightarrow> ('d \<Rightarrow> 'k bset \<Rightarrow> 'e + 'k bset) \<Rightarrow> ('d \<Rightarrow> nat) \<Rightarrow>
   ('p, 'd, 'r, 'c, 'k, 's) folded \<Rightarrow> 'h + ('p, 'd, 'r, 'c, 'k, 's) doc_identity \<Rightarrow>
   ('r, 'c, 'e, 'h) verify_error + ('p, 'd, 'r, 'c, 'k, 's) folded" where
  "verify_step verify eligible threshold acc cur =
     and_then (map_err History cur) (\<lambda>u.
       and_then (untrusted_signed verify u) (\<lambda>signed.
         case signed_quorum eligible threshold signed :: ('r, 'c, 'e, 'h) verify_error + _ of
           Inl _ \<Rightarrow> Inr acc
         | Inr quorum \<Rightarrow>
             if revision quorum = revision (head acc)
                \<and> replaces (doc quorum) = replaces (doc (head acc))
             then (case quorum_verified eligible threshold quorum (parent acc)
                           :: ('r, 'c, 'e, 'h) verify_error + _ of
                     Inl _ \<Rightarrow> Inr acc
                   | Inr verified \<Rightarrow> Inr \<lparr>head = verified, parent = parent acc\<rparr>)
             else map_ok (\<lambda>verified. \<lparr>head = verified, parent = Some (head acc)\<rparr>)
                    (quorum_verified eligible threshold quorum (Some (head acc)))))"

definition verified_verify ::
  "('r \<Rightarrow> 'k \<Rightarrow> 's \<Rightarrow> bool) \<Rightarrow> ('d \<Rightarrow> 'k bset \<Rightarrow> 'e + 'k bset) \<Rightarrow> ('d \<Rightarrow> nat) \<Rightarrow>
   ('p, 'd, 'r, 'c, 'k, 's) doc_identity \<Rightarrow> ('h + ('p, 'd, 'r, 'c, 'k, 's) doc_identity) list \<Rightarrow>
   ('r, 'c, 'e, 'h) verify_error + ('p, 'd, 'r, 'c, 'k, 's) folded" where
  "verified_verify verify eligible threshold base progeny =
     try_fold (verify_step verify eligible threshold) \<lparr>head = base, parent = None\<rparr> progeny"

section \<open>The specification: attested identities\<close>

definition is_signed :: "('r \<Rightarrow> 'k \<Rightarrow> 's \<Rightarrow> bool) \<Rightarrow> ('t, 'r, 'c, 'k, 's) identity \<Rightarrow> bool" where
  "is_signed verify i =
     (signatures i \<noteq> [] \<and> (\<forall>(pk, sig) \<in> set (signatures i). verify (revision i) pk sig))"

text \<open>The signatures of \<open>i\<close> reach a quorum of the delegations of \<open>by\<close>.\<close>

definition has_quorum ::
  "('d \<Rightarrow> 'k bset \<Rightarrow> 'e + 'k bset) \<Rightarrow> ('d \<Rightarrow> nat) \<Rightarrow> ('p, 'd, 'r, 'c, 'k, 's) doc_identity \<Rightarrow>
   ('p, 'd, 'r, 'c, 'k, 's) doc_identity \<Rightarrow> bool" where
  "has_quorum eligible threshold q i =
     (case eligible (delegations (doc q)) (bmap_keys (signatures i)) of
        Inl _ \<Rightarrow> False
      | Inr es \<Rightarrow> length es > 0 \<and> length es > threshold (delegations (doc q)))"

text \<open>
  \<open>i\<close> succeeds \<open>p\<close>: same root, \<open>i\<close> replaces \<open>p\<close>'s revision, and a quorum of \<open>p\<close>'s
  delegations signed \<open>i\<close>. A chain of such steps starts at an initial revision.
\<close>

definition succeeds ::
  "('d \<Rightarrow> 'k bset \<Rightarrow> 'e + 'k bset) \<Rightarrow> ('d \<Rightarrow> nat) \<Rightarrow> ('p, 'd, 'r, 'c, 'k, 's) doc_identity \<Rightarrow>
   ('p, 'd, 'r, 'c, 'k, 's) doc_identity \<Rightarrow> bool" where
  "succeeds eligible threshold p i =
     (root i = root p \<and> replaces (doc i) = Some (revision p) \<and> has_quorum eligible threshold p i)"

inductive attested ::
  "('r \<Rightarrow> 'k \<Rightarrow> 's \<Rightarrow> bool) \<Rightarrow> ('d \<Rightarrow> 'k bset \<Rightarrow> 'e + 'k bset) \<Rightarrow> ('d \<Rightarrow> nat) \<Rightarrow>
   ('p, 'd, 'r, 'c, 'k, 's) doc_identity \<Rightarrow> bool"
  for verify eligible threshold where
  initial: "is_signed verify i \<Longrightarrow> has_quorum eligible threshold i i \<Longrightarrow> replaces (doc i) = None \<Longrightarrow>
     attested verify eligible threshold i"
| step: "attested verify eligible threshold p \<Longrightarrow> is_signed verify i \<Longrightarrow>
     has_quorum eligible threshold i i \<Longrightarrow> succeeds eligible threshold p i \<Longrightarrow>
     attested verify eligible threshold i"

section \<open>What each transition accepts\<close>

lemma untrusted_signed_Inr: "untrusted_signed verify i = Inr j \<longleftrightarrow> j = i \<and> is_signed verify i"
  by (auto simp: untrusted_signed_def is_signed_def list_all_iff)

lemma signed_quorum_Inr:
  "signed_quorum eligible threshold i = Inr j \<longleftrightarrow> j = i \<and> has_quorum eligible threshold i i"
  by (auto simp: signed_quorum_def has_quorum_def doc_eligible_def doc_quorum_threshold_def Let_def
      split: sum.splits)

lemma quorum_verified_Inr:
  "quorum_verified eligible threshold i p = Inr j \<longleftrightarrow> j = i \<and>
     (case p of None \<Rightarrow> replaces (doc i) = None | Some p \<Rightarrow> succeeds eligible threshold p i)"
  by (auto simp: quorum_verified_def succeeds_def has_quorum_def doc_eligible_def
      doc_quorum_threshold_def Let_def split: option.splits sum.splits if_splits)

lemmas transition_simps = untrusted_signed_Inr signed_quorum_Inr quorum_verified_Inr

text \<open>The invariant of the fold.\<close>

definition folded_ok ::
  "('r \<Rightarrow> 'k \<Rightarrow> 's \<Rightarrow> bool) \<Rightarrow> ('d \<Rightarrow> 'k bset \<Rightarrow> 'e + 'k bset) \<Rightarrow> ('d \<Rightarrow> nat) \<Rightarrow>
   ('p, 'd, 'r, 'c, 'k, 's) folded \<Rightarrow> bool" where
  "folded_ok verify eligible threshold acc =
     (attested verify eligible threshold (head acc)
      \<and> (case parent acc of
           None \<Rightarrow> True
         | Some p \<Rightarrow> attested verify eligible threshold p \<and> succeeds eligible threshold p (head acc)))"

text \<open>
  In git the revision is the tree of the commit and the root is the name of the tree's first
  blob (\<open>git/load.rs\<close>), so the revision determines the root.
\<close>

definition content_addressed :: "('r \<Rightarrow> 'r) \<Rightarrow> ('t, 'r, 'c, 'k, 's) identity \<Rightarrow> bool" where
  "content_addressed root_of i = (root i = root_of (revision i))"

lemma attested_self:
  "attested verify eligible threshold i \<Longrightarrow> is_signed verify i \<and> has_quorum eligible threshold i i"
  by (cases rule: attested.cases) auto

text \<open>Acceptance of an element by one step, over the specification.\<close>

definition follows ::
  "('d \<Rightarrow> 'k bset \<Rightarrow> 'e + 'k bset) \<Rightarrow> ('d \<Rightarrow> nat) \<Rightarrow> ('p, 'd, 'r, 'c, 'k, 's) doc_identity option \<Rightarrow>
   ('p, 'd, 'r, 'c, 'k, 's) doc_identity \<Rightarrow> bool" where
  "follows eligible threshold p i =
     (case p of None \<Rightarrow> replaces (doc i) = None | Some p \<Rightarrow> succeeds eligible threshold p i)"

lemma quorum_verified_follows:
  "quorum_verified eligible threshold i p = Inr j \<longleftrightarrow> j = i \<and> follows eligible threshold p i"
  by (simp add: follows_def quorum_verified_Inr)

text \<open>A \<open>match\<close> on a transition that drops the error depends on acceptance only.\<close>

lemma case_accepts:
  assumes "\<And>j. r = Inr j \<longleftrightarrow> j = i \<and> P"
  shows "(case r of Inl _ \<Rightarrow> a | Inr v \<Rightarrow> f v) = (if P then f i else a)"
proof (cases r)
  case (Inl e)
  then have "\<not> P" using assms [of i] by simp
  with Inl show ?thesis by simp
next
  case (Inr j)
  then have "j = i \<and> P" using assms [of j] by simp
  with Inr show ?thesis by simp
qed

lemma verify_step_Inr:
  "verify_step verify eligible threshold acc (Inr u) = Inr acc' \<longleftrightarrow>
     is_signed verify u \<and>
     (if \<not> has_quorum eligible threshold u u then acc' = acc
      else if revision u = revision (head acc) \<and> replaces (doc u) = replaces (doc (head acc))
      then acc' = (if follows eligible threshold (parent acc) u
                   then \<lparr>head = u, parent = parent acc\<rparr> else acc)
      else succeeds eligible threshold (head acc) u \<and> acc' = \<lparr>head = u, parent = Some (head acc)\<rparr>)"
  unfolding verify_step_def map_err_simps and_then_simps and_then_eq_Inr untrusted_signed_Inr
    case_accepts [OF signed_quorum_Inr] case_accepts [OF quorum_verified_follows]
  by (auto simp: quorum_verified_Inr)

lemma verify_step_Inl [simp]: "verify_step verify eligible threshold acc (Inl e) = Inl (History e)"
  by (simp add: verify_step_def)

lemma verify_step_ok:
  assumes "folded_ok verify eligible threshold acc"
    and "verify_step verify eligible threshold acc cur = Inr acc'"
  shows "folded_ok verify eligible threshold acc'"
proof (cases cur)
  case (Inr u)
  then show ?thesis
    using assms unfolding folded_ok_def follows_def
    by (auto simp: verify_step_Inr folded_ok_def follows_def split: if_splits option.splits
        intro: attested.intros)
qed (use assms in simp)

lemma verify_step_root:
  assumes "folded_ok verify eligible threshold acc" "content_addressed root_of (head acc)"
    and "\<And>u. cur = Inr u \<Longrightarrow> content_addressed root_of u"
    and "verify_step verify eligible threshold acc cur = Inr acc'"
  shows "root (head acc') = root (head acc) \<and> content_addressed root_of (head acc')"
proof (cases cur)
  case (Inr u)
  then show ?thesis
    using assms by (auto simp: verify_step_Inr content_addressed_def succeeds_def split: if_splits)
qed (use assms in simp)

section \<open>Completeness of the fold\<close>

text \<open>
  Each element of the list succeeds the one before it, is signed and has its own quorum, and is
  not mistaken for a confirmation.
\<close>

fun succession ::
  "('r \<Rightarrow> 'k \<Rightarrow> 's \<Rightarrow> bool) \<Rightarrow> ('d \<Rightarrow> 'k bset \<Rightarrow> 'e + 'k bset) \<Rightarrow> ('d \<Rightarrow> nat) \<Rightarrow>
   ('p, 'd, 'r, 'c, 'k, 's) doc_identity \<Rightarrow> ('p, 'd, 'r, 'c, 'k, 's) doc_identity list \<Rightarrow> bool" where
  "succession verify eligible threshold p [] = True"
| "succession verify eligible threshold p (i # is) =
     (revision i \<noteq> revision p \<and> succeeds eligible threshold p i \<and>
      succession verify eligible threshold i is)"

lemma verify_step_advance:
  assumes "is_signed verify u" "has_quorum eligible threshold u u"
    and "revision u \<noteq> revision (head acc)" "succeeds eligible threshold (head acc) u"
  shows "verify_step verify eligible threshold acc (Inr u) = Inr \<lparr>head = u, parent = Some (head acc)\<rparr>"
  using assms by (subst verify_step_Inr) simp

lemma verify_step_skip:
  assumes "is_signed verify u" "\<not> has_quorum eligible threshold u u"
  shows "verify_step verify eligible threshold acc (Inr u) = Inr acc"
  using assms by (subst verify_step_Inr) simp

lemma verify_fold_succession:
  assumes "\<forall>u \<in> set us. is_signed verify u"
    and "succession verify eligible threshold (head acc)
           (filter (\<lambda>u. has_quorum eligible threshold u u) us)"
  shows "\<exists>p. try_fold (verify_step verify eligible threshold) acc (map Inr us :: ('h + _) list) =
     Inr \<lparr>head = last (head acc # filter (\<lambda>u. has_quorum eligible threshold u u) us), parent = p\<rparr>"
  using assms
proof (induction us arbitrary: acc)
  case Nil
  show ?case by (simp, rule exI [of _ "parent acc"]) simp
next
  case (Cons u us)
  show ?case
  proof (cases "has_quorum eligible threshold u u")
    case True
    then have "verify_step verify eligible threshold acc (Inr u :: 'h + _) =
        Inr \<lparr>head = u, parent = Some (head acc)\<rparr>"
      using Cons.prems by (intro verify_step_advance) simp_all
    with True show ?thesis
      using Cons.IH [of "\<lparr>head = u, parent = Some (head acc)\<rparr>"] Cons.prems by simp
  next
    case False
    then have "verify_step verify eligible threshold acc (Inr u :: 'h + _) = Inr acc"
      using Cons.prems by (intro verify_step_skip) simp_all
    with False show ?thesis using Cons.IH [of acc] Cons.prems by simp
  qed
qed

text \<open>
  A history used by the witnesses: three delegates, an initial revision signed by two of them,
  a proposal signed by one, and a successor signed by two.
\<close>

definition example_history_item ::
  "nat \<Rightarrow> nat option \<Rightarrow> nat list \<Rightarrow>
   (unit, (unit, nat, nat, nat, unit) some_delegations, nat, nat, nat, unit) doc_identity" where
  "example_history_item r repl signers =
     \<lparr>content_id = r, root = 0, revision = r,
      doc = \<lparr>version = 0, replaces = repl, payload = (), delegations = Direct [1, 2, 3]\<rparr>,
      signatures = map (\<lambda>k. (k, ())) signers\<rparr>"

lemmas example_history_simps =
  example_history_item_def is_signed_def has_quorum_def succeeds_def bmap_keys_def
  direct_eligible_def direct_quorum_threshold_def

section \<open>Properties\<close>

text \<open>
  C1: soundness of verification. Folding the history of an attested identity returns an
  identity that is attested as well: signed, with a quorum of its own delegations, and linked
  to an initial revision by steps each of which a quorum of the predecessor's delegations
  signed. The root never changes, given that the revision determines the root as in git, and
  the parent that is returned is attested and is the one the head replaces.
\<close>

theorem verify_sound:
  assumes "verified_verify verify eligible threshold base progeny = Inr folded"
    and "attested verify eligible threshold base"
    and "content_addressed root_of base"
    and "\<And>u. Inr u \<in> set progeny \<Longrightarrow> content_addressed root_of u"
  shows "attested verify eligible threshold (head folded) \<and> root (head folded) = root base \<and>
    (\<forall>p. parent folded = Some p \<longrightarrow>
       attested verify eligible threshold p \<and> succeeds eligible threshold p (head folded))"
proof -
  let ?P = "\<lambda>acc. folded_ok verify eligible threshold acc \<and>
    root (head acc) = root base \<and> content_addressed root_of (head acc)"
  have "?P folded"
    using assms(1) unfolding verified_verify_def
  proof (rule try_fold_invariant)
    show "?P \<lparr>head = base, parent = None\<rparr>" using assms(2,3) by (simp add: folded_ok_def)
  next
    fix acc cur acc'
    assume acc: "?P acc" and cur: "cur \<in> set progeny"
      and step: "verify_step verify eligible threshold acc cur = Inr acc'"
    have "root (head acc') = root (head acc) \<and> content_addressed root_of (head acc')"
      using acc step cur by (intro verify_step_root) (auto intro: assms(4))
    with acc verify_step_ok [OF _ step] show "?P acc'" by simp
  qed
  then show ?thesis by (auto simp: folded_ok_def)
qed

theorem verify_sound_witness:
  "attested (\<lambda>_ _ _. True) some_eligible some_quorum_threshold (example_history_item 8 (Some 7) [2, 3]) \<and>
   root (example_history_item 8 (Some 7) [2, 3]) = root (example_history_item 7 None [1, 2])"
proof -
  let ?V = "\<lambda>_ _ _. True"
  let ?base = "example_history_item 7 None [1, 2]" and ?next = "example_history_item 8 (Some 7) [2, 3]"
  have "attested ?V some_eligible some_quorum_threshold ?base"
    by (rule attested.initial) (simp_all add: example_history_simps)
  moreover have "verified_verify ?V some_eligible some_quorum_threshold ?base
      [Inr ?next :: unit + _] = Inr \<lparr>head = ?next, parent = Some ?base\<rparr>"
    unfolding verified_verify_def
    by (subst try_fold.simps, subst verify_step_advance) (simp_all add: example_history_simps)
  ultimately show ?thesis
    using verify_sound [of ?V some_eligible some_quorum_threshold ?base "[Inr ?next :: unit + _]"
        "\<lparr>head = ?next, parent = Some ?base\<rparr>" "\<lambda>_. 0"]
    by (auto simp: content_addressed_def example_history_item_def)
qed

text \<open>
  C13: completeness of verification. If every element of a history is signed and those which
  reach a quorum of their own delegations form a succession from the base, verification
  succeeds and its head is the last of them: signed proposals without a quorum are skipped
  wherever they stand in the history.
\<close>

theorem verify_complete:
  assumes "\<forall>u \<in> set us. is_signed verify u"
    and "succession verify eligible threshold base
           (filter (\<lambda>u. has_quorum eligible threshold u u) us)"
  shows "\<exists>p. verified_verify verify eligible threshold base (map Inr us) =
     Inr \<lparr>head = last (base # filter (\<lambda>u. has_quorum eligible threshold u u) us), parent = p\<rparr>"
  using verify_fold_succession [of us verify eligible threshold "\<lparr>head = base, parent = None\<rparr>"] assms
  unfolding verified_verify_def by simp

theorem verify_complete_witness:
  "\<exists>p. verified_verify (\<lambda>_ _ _. True) some_eligible some_quorum_threshold
     (example_history_item 7 None [1, 2])
     (map Inr [example_history_item 9 (Some 7) [3], example_history_item 8 (Some 7) [2, 3]] :: (unit + _) list) =
   Inr \<lparr>head = example_history_item 8 (Some 7) [2, 3], parent = p\<rparr>"
  using verify_complete [of "[example_history_item 9 (Some 7) [3], example_history_item 8 (Some 7) [2, 3]]"
      "\<lambda>_ _ _. True" some_eligible some_quorum_threshold "example_history_item 7 None [1, 2]"]
  by (simp add: example_history_simps)

text \<open>
  C2: accountability of forks. Two identities which both verify against the same parent, whose
  delegations are well formed, carry signatures of a common voter: the same directly delegated
  key, or keys of the same delegated identity.
\<close>

theorem forks_share_a_signer:
  assumes "some_ok (delegations (doc p))"
    and "untrusted_verified verify some_eligible some_quorum_threshold i (Some p) = Inr i'"
    and "untrusted_verified verify some_eligible some_quorum_threshold j (Some p) = Inr j'"
  shows "\<exists>k \<in> set (bmap_keys (signatures i)). \<exists>k' \<in> set (bmap_keys (signatures j)).
     some_voter (delegations (doc p)) k = some_voter (delegations (doc p)) k'"
proof -
  have "has_quorum some_eligible some_quorum_threshold p x"
    if "untrusted_verified verify some_eligible some_quorum_threshold x (Some p) = Inr y" for x y
    using that by (auto simp: untrusted_verified_def transition_simps succeeds_def)
  with assms have "has_quorum some_eligible some_quorum_threshold p i"
    "has_quorum some_eligible some_quorum_threshold p j" by blast+
  then show ?thesis
    using some.quorums_intersect [OF assms(1)] by (auto simp: has_quorum_def split: sum.splits)
qed

theorem forks_share_a_signer_witness:
  "\<exists>k \<in> set (bmap_keys (signatures (example_history_item 8 (Some 7) [2, 3]))).
   \<exists>k' \<in> set (bmap_keys (signatures (example_history_item 9 (Some 7) [1, 2]))).
     some_voter (Direct [1, 2, 3] :: (unit, nat, nat, nat, unit) some_delegations) k =
     some_voter (Direct [1, 2, 3] :: (unit, nat, nat, nat, unit) some_delegations) k'"
proof -
  let ?p = "example_history_item 7 None [1, 2]"
  have "untrusted_verified (\<lambda>_ _ _. True) some_eligible some_quorum_threshold i (Some ?p) =
      (Inr i :: (nat, nat, unit + double_vote, unit) verify_error + _)"
    if "i \<in> {example_history_item 8 (Some 7) [2, 3], example_history_item 9 (Some 7) [1, 2]}" for i
    using that by (auto simp: untrusted_verified_def transition_simps example_history_simps)
  note v = this
  have d: "delegations (doc ?p) = Direct [1, 2, 3]" by (simp add: example_history_item_def)
  have "some_ok (delegations (doc ?p))"
    unfolding d by (simp add: direct_ok_def bset_ok_def nonempty_ok_def)
  then show ?thesis
    using forks_share_a_signer [OF _ v v, of "example_history_item 8 (Some 7) [2, 3]"
        "example_history_item 9 (Some 7) [1, 2]"]
    unfolding d by blast
qed

section \<open>A divergence from the documentation\<close>

text \<open>
  \<open>Signed\<close> is documented as ``signed by at least one key delegation''. The transition only
  checks that there are signatures and that each is valid for its own key: an identity whose
  only signer is no delegate passes it.
\<close>

lemma signed_by_stranger:
  "untrusted_signed (\<lambda>_ _ _. True) (example_history_item 7 None [9]) =
     Inr (example_history_item 7 None [9])"
  "\<not> (\<exists>k \<in> set (bmap_keys (signatures (example_history_item 7 None [9]))). direct_contains [1, 2, 3] k)"
  by (simp_all add: untrusted_signed_Inr example_history_simps direct_contains_def)

end
