(* ===== verification/Partial_View.thy ===== *)
theory Partial_View
  imports Bounded "HOL-Library.Multiset"
begin

text \<open>
  The partial view of the network of \<open>librad/src/net/protocol/membership/partial_view.rs\<close>,
  with the peer information of \<open>librad/src/net/protocol/info.rs\<close>.

  The random number generator is third-party: its state is part of the view, and what the code
  calls of it is the record \<open>rng_ops\<close>, an argument of every operation that draws. What the
  code relies on is the predicate \<open>rng_ok\<close>.
\<close>

section \<open>Peer information\<close>

datatype capability = Reserved

record 'a peer_advertisement =
  listen_addrs :: "'a list"
  capabilities :: "capability bset"

record ('k, 'a, 't) generic_peer_info =
  peer_id :: 'k
  advertised_info :: 't
  seen_addrs :: "'a list"

type_synonym ('k, 'a) peer_info = "('k, 'a, 'a peer_advertisement) generic_peer_info"
type_synonym ('k, 'a) partial_peer_info = "('k, 'a, 'a peer_advertisement option) generic_peer_info"

definition peer_advertisement_new :: "'a \<Rightarrow> 'a peer_advertisement" where
  "peer_advertisement_new listen_addr =
     \<lparr>listen_addrs = within_singleton listen_addr, capabilities = []\<rparr>"

definition peer_info_sequence :: "('k, 'a) partial_peer_info \<Rightarrow> ('k, 'a) peer_info option" where
  "peer_info_sequence info =
     map_option (\<lambda>ad. \<lparr>peer_id = peer_id info, advertised_info = ad, seen_addrs = seen_addrs info\<rparr>)
       (advertised_info info)"

definition partial_from_peer_info :: "('k, 'a) peer_info \<Rightarrow> ('k, 'a) partial_peer_info" where
  "partial_from_peer_info info =
     \<lparr>peer_id = peer_id info, advertised_info = Some (advertised_info info),
      seen_addrs = seen_addrs info\<rparr>"

definition partial_peer_info_addrs :: "('k, 'a) partial_peer_info \<Rightarrow> 'k \<times> 'a list" where
  "partial_peer_info_addrs info =
     (peer_id info,
      (case advertised_info info of None \<Rightarrow> [] | Some ad \<Rightarrow> listen_addrs ad) @ seen_addrs info)"

definition peer_info_into_addrs :: "('k, 'a) peer_info \<Rightarrow> 'k \<times> 'a list" where
  "peer_info_into_addrs info =
     (peer_id info, listen_addrs (advertised_info info) @ seen_addrs info)"

definition peer_info_addrs :: "('k, 'a) peer_info \<Rightarrow> 'a list" where
  "peer_info_addrs info = seen_addrs info @ listen_addrs (advertised_info info)"

text \<open>\<open>BoundedVec<U16, _>\<close>.\<close>

definition max_addrs :: nat where
  "max_addrs = 16"

definition info_ok :: "('k, 'a, 't) generic_peer_info \<Rightarrow> bool" where
  "info_ok info = (length (seen_addrs info) \<le> max_addrs)"

section \<open>Random choice\<close>

record ('g, 'k, 'a) rng_ops =
  choose_one :: "'g \<Rightarrow> 'k list \<Rightarrow> 'k option \<times> 'g"
  choose_multiple :: "'g \<Rightarrow> ('k, 'a) peer_info list \<Rightarrow> nat \<Rightarrow> ('k, 'a) peer_info list \<times> 'g"

text \<open>
  What \<open>rand\<close> documents of \<open>IteratorRandom\<close>: \<open>choose\<close> (here \<open>choose_one\<close>) returns an element of the iterator, and
  \<open>None\<close> only for an empty one; \<open>choose_multiple\<close> returns the given number of elements of the
  iterator at different positions, or all of them if there are fewer.
\<close>

definition rng_ok :: "('g, 'k, 'a) rng_ops \<Rightarrow> bool" where
  "rng_ok R =
     ((\<forall>g xs. (fst (choose_one R g xs) = None) = (xs = [])
        \<and> (\<forall>x. fst (choose_one R g xs) = Some x \<longrightarrow> x \<in> set xs))
      \<and> (\<forall>g xs n. mset (fst (choose_multiple R g xs n)) \<subseteq># mset xs
          \<and> length (fst (choose_multiple R g xs n)) = min n (length xs)))"

section \<open>The view\<close>

datatype ('k, 'a) transition =
    Promoted "('k, 'a) partial_peer_info"
  | Demoted "('k, 'a) peer_info"
  | Evicted "('k, 'a) partial_peer_info"

record ('g, 'k, 'a) partial_view =
  local_id :: 'k
  rng :: 'g
  max_active :: nat
  max_passive :: nat
  active :: "('k, ('k, 'a) partial_peer_info) bmap"
  "passive" :: "('k, ('k, 'a) peer_info) bmap"

definition view_new :: "'k \<Rightarrow> 'g \<Rightarrow> nat \<Rightarrow> nat \<Rightarrow> ('g, 'k, 'a) partial_view" where
  "view_new lid r max_act max_pass =
     \<lparr>local_id = lid, rng = r, max_active = max_act, max_passive = max_pass,
      active = bmap_empty, passive = bmap_empty\<rparr>"

definition view_active :: "('g, 'k, 'a) partial_view \<Rightarrow> 'k list" where
  "view_active v = bmap_keys (active v)"

definition view_is_active :: "('g, 'k, 'a) partial_view \<Rightarrow> 'k \<Rightarrow> bool" where
  "view_is_active v peer = (bmap_get (active v) peer \<noteq> None)"

definition view_active_info :: "('g, 'k, 'a) partial_view \<Rightarrow> ('k, 'a) partial_peer_info list" where
  "view_active_info v = bmap_values (active v)"

definition view_passive :: "('g, 'k, 'a) partial_view \<Rightarrow> 'k list" where
  "view_passive v = bmap_keys (passive v)"

definition view_is_passive :: "('g, 'k, 'a) partial_view \<Rightarrow> 'k \<Rightarrow> bool" where
  "view_is_passive v peer = (bmap_get (passive v) peer \<noteq> None)"

definition view_passive_info :: "('g, 'k, 'a) partial_view \<Rightarrow> ('k, 'a) peer_info list" where
  "view_passive_info v = bmap_values (passive v)"

definition view_known :: "('g, 'k, 'a) partial_view \<Rightarrow> 'k list" where
  "view_known v = view_active v @ view_passive v"

definition view_is_known :: "('g, 'k, 'a) partial_view \<Rightarrow> 'k \<Rightarrow> bool" where
  "view_is_known v peer = (view_is_active v peer \<or> view_is_passive v peer)"

definition view_num_active :: "('g, 'k, 'a) partial_view \<Rightarrow> nat" where
  "view_num_active v = bmap_len (active v)"

definition view_num_passive :: "('g, 'k, 'a) partial_view \<Rightarrow> nat" where
  "view_num_passive v = bmap_len (passive v)"

definition view_is_active_full :: "('g, 'k, 'a) partial_view \<Rightarrow> bool" where
  "view_is_active_full v = (bmap_len (active v) \<ge> max_active v)"

definition view_evict ::
  "('g, 'k, 'a) partial_view \<Rightarrow> 'k \<Rightarrow> ('k, 'a) transition list \<times> ('g, 'k, 'a) partial_view" where
  "view_evict v peer =
     (case bmap_get (passive v) peer of
        None \<Rightarrow> ([], v)
      | Some info \<Rightarrow>
          ([Evicted (partial_from_peer_info info)], v\<lparr>passive := bmap_remove peer (passive v)\<rparr>))"

definition view_evict_random ::
  "('g, 'k, 'a) rng_ops \<Rightarrow> ('g, 'k, 'a) partial_view \<Rightarrow>
   ('k, 'a) transition list \<times> ('g, 'k, 'a) partial_view" where
  "view_evict_random R v =
     (let (peer, g) = choose_one R (rng v) (bmap_keys (passive v)); v' = v\<lparr>rng := g\<rparr> in
      case peer of None \<Rightarrow> ([], v') | Some p \<Rightarrow> view_evict v' p)"

text \<open>The entry after \<open>match self.passive.entry(..)\<close>: a known peer keeps the addresses it had.\<close>

definition passive_entry :: "('k, 'a) peer_info option \<Rightarrow> ('k, 'a) peer_info \<Rightarrow> ('k, 'a) peer_info" where
  "passive_entry entry info =
     (case entry of
        None \<Rightarrow> info
      | Some prev_info \<Rightarrow>
          let prev_addrs =
                filter (\<lambda>addr. addr \<notin> set (seen_addrs info)) (seen_addrs prev_info);
              addrs = within_extend_fill max_addrs (seen_addrs info) prev_addrs in
          prev_info\<lparr>advertised_info := advertised_info info, seen_addrs := addrs\<rparr>)"

definition view_add_passive ::
  "('g, 'k::linorder, 'a) rng_ops \<Rightarrow> ('g, 'k, 'a) partial_view \<Rightarrow> ('k, 'a) peer_info \<Rightarrow>
   ('k, 'a) transition list \<times> ('g, 'k, 'a) partial_view" where
  "view_add_passive R v info =
     (if peer_id info = local_id v \<or> view_is_active v (peer_id info) then ([], v)
      else
        let (evicted, v') =
              (if view_num_passive v \<ge> max_passive v then view_evict_random R v else ([], v));
            entry = passive_entry (bmap_get (passive v') (peer_id info)) info
        in (evicted, v'\<lparr>passive := bmap_insert (peer_id info) entry (passive v')\<rparr>))"

definition view_demote ::
  "('g, 'k::linorder, 'a) rng_ops \<Rightarrow> ('g, 'k, 'a) partial_view \<Rightarrow> 'k \<Rightarrow>
   ('k, 'a) transition list \<times> ('g, 'k, 'a) partial_view" where
  "view_demote R v peer =
     (case bmap_get (active v) peer of
        None \<Rightarrow> ([], v)
      | Some demoted \<Rightarrow>
          let v' = v\<lparr>active := bmap_remove peer (active v)\<rparr> in
          (case peer_info_sequence demoted of
             None \<Rightarrow> ([Evicted demoted], v')
           | Some info \<Rightarrow>
               let (evicted, v'') = view_add_passive R v' info in (Demoted info # evicted, v'')))"

definition view_demote_random ::
  "('g, 'k::linorder, 'a) rng_ops \<Rightarrow> ('g, 'k, 'a) partial_view \<Rightarrow>
   ('k, 'a) transition list \<times> ('g, 'k, 'a) partial_view" where
  "view_demote_random R v =
     (let (peer, g) = choose_one R (rng v) (bmap_keys (active v)); v' = v\<lparr>rng := g\<rparr> in
      case peer of None \<Rightarrow> ([], v') | Some p \<Rightarrow> view_demote R v' p)"

definition view_add_active ::
  "('g, 'k::linorder, 'a) rng_ops \<Rightarrow> ('g, 'k, 'a) partial_view \<Rightarrow> ('k, 'a) partial_peer_info \<Rightarrow>
   ('k, 'a) transition list \<times> ('g, 'k, 'a) partial_view" where
  "view_add_active R v info =
     (if peer_id info = local_id v \<or> view_is_active v (peer_id info) then ([], v)
      else
        let (demoted, v') = (if view_is_active_full v then view_demote_random R v else ([], v));
            v'' = (if view_is_passive v' (peer_id info)
                   then v'\<lparr>passive := bmap_remove (peer_id info) (passive v')\<rparr> else v')
        in (Promoted info # demoted,
            v''\<lparr>active := bmap_insert (peer_id info) info (active v'')\<rparr>))"

section \<open>The invariant\<close>

definition ids :: "('k, 'i) bmap \<Rightarrow> 'k set" where
  "ids m = dom (bmap_get m)"

abbreviation active_ids :: "('g, 'k, 'a) partial_view \<Rightarrow> 'k set" where
  "active_ids v \<equiv> ids (active v)"

abbreviation passive_ids :: "('g, 'k, 'a) partial_view \<Rightarrow> 'k set" where
  "passive_ids v \<equiv> ids (passive v)"

definition entries_ok :: "('k::linorder, ('k, 'a, 't) generic_peer_info) bmap \<Rightarrow> bool" where
  "entries_ok m = (bmap_ok m \<and> (\<forall>k i. bmap_get m k = Some i \<longrightarrow> peer_id i = k \<and> info_ok i))"

definition view_ok :: "('g, 'k::linorder, 'a) partial_view \<Rightarrow> bool" where
  "view_ok v =
     (entries_ok (active v) \<and> entries_ok (passive v)
      \<and> active_ids v \<inter> passive_ids v = {} \<and> local_id v \<notin> active_ids v \<union> passive_ids v
      \<and> bmap_len (active v) \<le> max_active v \<and> bmap_len (passive v) \<le> max_passive v)"

text \<open>The configuration of a view, which no operation changes.\<close>

definition view_config :: "('g, 'k, 'a) partial_view \<Rightarrow> 'k \<times> nat \<times> nat" where
  "view_config v = (local_id v, max_active v, max_passive v)"

lemma entries_ok_insert:
  "entries_ok m \<Longrightarrow> peer_id i = k \<Longrightarrow> info_ok i \<Longrightarrow> entries_ok (bmap_insert k i m)"
  by (auto simp: entries_ok_def bmap.lookup_insert split: if_splits)

lemma entries_ok_remove: "entries_ok m \<Longrightarrow> entries_ok (bmap_remove k m)"
  by (auto simp: entries_ok_def bmap.lookup_remove split: if_splits)

lemma entries_ok_bmap [simp]: "entries_ok m \<Longrightarrow> bmap_ok m"
  by (simp add: entries_ok_def)

lemma ids_insert [simp]: "bmap_ok m \<Longrightarrow> ids (bmap_insert k v m) = insert k (ids m)"
  by (simp add: ids_def bmap.lookup_insert)

lemma ids_remove [simp]: "bmap_ok m \<Longrightarrow> ids (bmap_remove k m) = ids m - {k}"
  by (simp add: ids_def bmap.lookup_remove)

lemma ids_empty [simp]: "ids bmap_empty = {}"
  by (simp add: ids_def bmap_empty_def bmap_get_def [abs_def])

lemma ids_get: "bmap_get m k = Some i \<Longrightarrow> k \<in> ids m"
  by (auto simp: ids_def)

lemma ids_keys [simp]: "set (bmap_keys m) = ids m"
  by (simp add: ids_def bmap_keys_set)

lemma ids_None: "bmap_get m k = None \<longleftrightarrow> k \<notin> ids m"
  by (simp add: ids_def domIff)

lemma view_is_active_iff [simp]: "view_is_active v p \<longleftrightarrow> p \<in> active_ids v"
  by (simp add: view_is_active_def ids_None)

lemma view_is_passive_iff [simp]: "view_is_passive v p \<longleftrightarrow> p \<in> passive_ids v"
  by (simp add: view_is_passive_def ids_None)

lemma view_new_ok: "view_ok (view_new lid r ma mp)"
  by (simp add: view_ok_def view_new_def entries_ok_def bmap.lookup_empty bmap_len_def)
    (simp add: bmap_empty_def)

lemma sequence_props:
  "peer_info_sequence p = Some i \<Longrightarrow> peer_id i = peer_id p \<and> info_ok i = info_ok p"
  by (auto simp: peer_info_sequence_def info_ok_def)

lemma partial_from_props [simp]:
  "peer_id (partial_from_peer_info i) = peer_id i" "info_ok (partial_from_peer_info i) = info_ok i"
  by (simp_all add: partial_from_peer_info_def info_ok_def)

section \<open>The peers named by transitions\<close>

definition promoted :: "('k, 'a) transition list \<Rightarrow> 'k set" where
  "promoted ts = {peer_id i |i. Promoted i \<in> set ts}"

definition demoted :: "('k, 'a) transition list \<Rightarrow> 'k set" where
  "demoted ts = {peer_id i |i. Demoted i \<in> set ts}"

definition evicted :: "('k, 'a) transition list \<Rightarrow> 'k set" where
  "evicted ts = {peer_id i |i. Evicted i \<in> set ts}"

lemma promoted_simps [simp]:
  "promoted [] = {}" "promoted (Promoted i # ts) = insert (peer_id i) (promoted ts)"
  "promoted (Demoted j # ts) = promoted ts" "promoted (Evicted i # ts) = promoted ts"
  "promoted (ts @ us) = promoted ts \<union> promoted us"
  by (auto simp: promoted_def)

lemma demoted_simps [simp]:
  "demoted [] = {}" "demoted (Promoted i # ts) = demoted ts"
  "demoted (Demoted j # ts) = insert (peer_id j) (demoted ts)" "demoted (Evicted i # ts) = demoted ts"
  "demoted (ts @ us) = demoted ts \<union> demoted us"
  by (auto simp: demoted_def)

lemma evicted_simps [simp]:
  "evicted [] = {}" "evicted (Promoted i # ts) = evicted ts"
  "evicted (Demoted j # ts) = evicted ts" "evicted (Evicted i # ts) = insert (peer_id i) (evicted ts)"
  "evicted (ts @ us) = evicted ts \<union> evicted us"
  by (auto simp: evicted_def)

section \<open>What the operations do\<close>

lemma choose_one_some:
  assumes "rng_ok R" "xs \<noteq> []"
  obtains x g' where "choose_one R g xs = (Some x, g')" "x \<in> set xs"
  using assms unfolding rng_ok_def by (metis option.exhaust prod.collapse)

lemma choose_one_none: "rng_ok R \<Longrightarrow> fst (choose_one R g []) = None"
  by (simp add: rng_ok_def)

text \<open>Evicting a peer at random takes one passive peer away, if there is any.\<close>

lemma evict_random_cases:
  assumes "rng_ok R" "view_ok v" "passive v \<noteq> []"
  obtains p i g where "bmap_get (passive v) p = Some i" "peer_id i = p"
    "view_evict_random R v =
       ([Evicted (partial_from_peer_info i)], v\<lparr>rng := g, passive := bmap_remove p (passive v)\<rparr>)"
proof -
  have "bmap_keys (passive v) \<noteq> []" using assms(3) by (simp add: bmap_keys_def)
  then obtain p g where c: "choose_one R (rng v) (bmap_keys (passive v)) = (Some p, g)"
    "p \<in> set (bmap_keys (passive v))"
    by (rule choose_one_some [OF assms(1)])
  from c(2) obtain i where i: "bmap_get (passive v) p = Some i" by (auto simp: ids_def)
  moreover have "peer_id i = p" using assms(2) i by (simp add: view_ok_def entries_ok_def)
  ultimately show thesis
    using c(1) by (intro that) (simp_all add: view_evict_random_def view_evict_def)
qed

text \<open>
  The relation every operation keeps to: the configuration stays, the view stays well formed,
  and the transitions name exactly the peers whose membership changed.
\<close>

definition accounts ::
  "('g, 'k::linorder, 'a) partial_view \<Rightarrow> ('k, 'a) transition list \<times> ('g, 'k, 'a) partial_view \<Rightarrow> bool" where
  "accounts v r =
     (case r of (ts, v') \<Rightarrow>
        promoted ts = active_ids v' - active_ids v
        \<and> demoted ts = (active_ids v - active_ids v') \<inter> passive_ids v'
        \<and> evicted ts - promoted ts =
            (active_ids v \<union> passive_ids v) - (active_ids v' \<union> passive_ids v'))"

text \<open>Making room among the passive peers.\<close>

lemma make_room:
  assumes R: "rng_ok R" and v: "view_ok v" and m: "max_passive v > 0"
    and r: "(if view_num_passive v \<ge> max_passive v then view_evict_random R v else ([], v)) = (ts, v')"
  shows "view_ok v' \<and> view_config v' = view_config v \<and> active v' = active v
    \<and> promoted ts = {} \<and> demoted ts = {} \<and> evicted ts \<subseteq> passive_ids v
    \<and> passive_ids v' = passive_ids v - evicted ts \<and> bmap_len (passive v') < max_passive v"
proof (cases "view_num_passive v \<ge> max_passive v")
  case True
  then have "passive v \<noteq> []" using m by (auto simp: view_num_passive_def bmap_len_def)
  then obtain p i g where e: "bmap_get (passive v) p = Some i" "peer_id i = p"
    "view_evict_random R v =
       ([Evicted (partial_from_peer_info i)], v\<lparr>rng := g, passive := bmap_remove p (passive v)\<rparr>)"
    by (rule evict_random_cases [OF R v])
  have p: "bmap_ok (passive v)" using v by (simp add: view_ok_def)
  have "Suc (bmap_len (bmap_remove p (passive v))) = bmap_len (passive v)"
    using bmap.count_remove_in [OF p, of p] e(1) by simp
  with True r e p v ids_get [OF e(1)] show ?thesis
    by (auto simp: view_ok_def view_config_def entries_ok_remove)
next
  case False
  with r v show ?thesis by (auto simp: view_num_passive_def)
qed

lemma add_passive_effect:
  assumes R: "rng_ok R" and v: "view_ok v" and m: "max_passive v > 0" and i: "info_ok info"
    and r: "view_add_passive R v info = (ts, v')"
  shows "view_ok v' \<and> view_config v' = view_config v \<and> active v' = active v
    \<and> (peer_id info \<in> insert (local_id v) (active_ids v) \<longrightarrow> ts = [])
    \<and> promoted ts = {} \<and> demoted ts = {} \<and> evicted ts \<subseteq> passive_ids v
    \<and> passive_ids v' = (if peer_id info \<in> insert (local_id v) (active_ids v) then passive_ids v
                        else insert (peer_id info) (passive_ids v - evicted ts))"
proof (cases "peer_id info \<in> insert (local_id v) (active_ids v)")
  case True
  then show ?thesis using r v by (auto simp: view_add_passive_def)
next
  case False
  obtain ev v1 where ev:
    "(if view_num_passive v \<ge> max_passive v then view_evict_random R v else ([], v)) = (ev, v1)"
    by (rule prod.exhaust)
  note room = make_room [OF R v m ev]
  let ?e = "passive_entry (bmap_get (passive v1) (peer_id info)) info"
  have e: "ts = ev" "v' = v1\<lparr>passive := bmap_insert (peer_id info) ?e (passive v1)\<rparr>"
    using r False unfolding view_add_passive_def ev by simp_all
  have pe: "peer_id ?e = peer_id info" "info_ok ?e"
    using room i by (auto simp: passive_entry_def view_ok_def entries_ok_def info_ok_def
        within_extend_fill_def split: option.splits)
  have p: "bmap_ok (passive v1)" using room by (simp add: view_ok_def)
  have "bmap_len (bmap_insert (peer_id info) ?e (passive v1)) \<le> max_passive v"
    using bmap.count_insert_le [OF p, of "peer_id info" ?e] room by linarith
  with room e pe p False show ?thesis
    by (auto simp: view_ok_def view_config_def entries_ok_insert)
qed

lemma view_ok_remove_active:
  assumes "view_ok v"
  shows "view_ok (v\<lparr>active := bmap_remove p (active v)\<rparr>)"
proof -
  have "bmap_len (bmap_remove p (active v)) \<le> bmap_len (active v)"
    using assms by (intro bmap.count_remove_le) (simp add: view_ok_def)
  with assms show ?thesis by (auto simp: view_ok_def entries_ok_remove)
qed

lemma demote_effect:
  assumes R: "rng_ok R" and v: "view_ok v" and m: "max_passive v > 0"
    and r: "view_demote R v p = (ts, v')"
  shows "view_ok v' \<and> view_config v' = view_config v \<and> active v' = bmap_remove p (active v)
    \<and> promoted ts = {} \<and> evicted ts \<subseteq> active_ids v \<union> passive_ids v
    \<and> (ts = [] \<longleftrightarrow> p \<notin> active_ids v) \<and> demoted ts \<inter> evicted ts = {}
    \<and> (demoted ts = {} \<and> passive_ids v' = passive_ids v \<and> evicted ts = {p} \<inter> active_ids v
       \<or> p \<in> active_ids v \<and> demoted ts = {p} \<and> evicted ts \<subseteq> passive_ids v
         \<and> passive_ids v' = insert p (passive_ids v - evicted ts))"
proof (cases "bmap_get (active v) p")
  case None
  then have p: "p \<notin> active_ids v" by (simp add: ids_None)
  then have "bmap_remove p (active v) = active v"
    by (auto simp: bmap_remove_def ids_def bmap_get_def [abs_def] dom_map_of_conv_image_fst intro!: filter_True)
  with r v None p show ?thesis by (simp add: view_demote_def)
next
  case (Some d)
  let ?v = "v\<lparr>active := bmap_remove p (active v)\<rparr>"
  have v1: "view_ok ?v" by (rule view_ok_remove_active [OF v])
  have d: "peer_id d = p" "info_ok d" "p \<in> active_ids v" "bmap_ok (active v)"
    "p \<notin> passive_ids v" "p \<noteq> local_id v"
    using v Some ids_get [OF Some] by (auto simp: view_ok_def entries_ok_def)
  show ?thesis
  proof (cases "peer_info_sequence d")
    case None
    with r Some d v1 show ?thesis by (auto simp: view_demote_def view_config_def)
  next
    case (Some info)
    obtain es v2 where add: "view_add_passive R ?v info = (es, v2)" by (rule prod.exhaust)
    have i: "peer_id info = p" "info_ok info" using sequence_props [OF Some] d by auto
    have ts: "ts = Demoted info # es" "v' = v2"
      using r Some \<open>bmap_get (active v) p = Some d\<close> add by (simp_all add: view_demote_def)
    have "max_passive ?v > 0" using m by simp
    from add_passive_effect [OF R v1 this i(2) add] show ?thesis
      using d i ts by (auto simp: view_config_def)
  qed
qed

lemma demote_random_effect:
  assumes R: "rng_ok R" and v: "view_ok v" and a: "active v \<noteq> []"
  obtains p g where "p \<in> active_ids v" "view_demote_random R v = view_demote R (v\<lparr>rng := g\<rparr>) p"
proof -
  have "bmap_keys (active v) \<noteq> []" using a by (simp add: bmap_keys_def)
  then obtain p g where "choose_one R (rng v) (bmap_keys (active v)) = (Some p, g)"
    "p \<in> set (bmap_keys (active v))"
    by (rule choose_one_some [OF R])
  then show thesis by (intro that [of p g]) (simp_all add: view_demote_random_def)
qed

lemma view_ok_rng [simp]: "view_ok (v\<lparr>rng := g\<rparr>) = view_ok v"
  by (simp add: view_ok_def)

text \<open>Making room among the active peers.\<close>

lemma make_active_room:
  assumes R: "rng_ok R" and v: "view_ok v" and m: "max_passive v > 0" "max_active v > 0"
    and r: "(if view_is_active_full v then view_demote_random R v else ([], v)) = (ts, v')"
  shows "view_ok v' \<and> view_config v' = view_config v \<and> promoted ts = {}
    \<and> bmap_len (active v') < max_active v
    \<and> active_ids v' \<subseteq> active_ids v
    \<and> demoted ts = (active_ids v - active_ids v') \<inter> passive_ids v'
    \<and> evicted ts = (active_ids v \<union> passive_ids v) - (active_ids v' \<union> passive_ids v')
    \<and> passive_ids v' \<subseteq> passive_ids v \<union> demoted ts"
proof (cases "view_is_active_full v")
  case True
  then have "active v \<noteq> []" using m by (auto simp: view_is_active_full_def bmap_len_def)
  then obtain p g where p: "p \<in> active_ids v"
    "view_demote_random R v = view_demote R (v\<lparr>rng := g\<rparr>) p"
    by (rule demote_random_effect [OF R v])
  let ?v = "v\<lparr>rng := g\<rparr>"
  have a: "bmap_ok (active v)" using v by (simp add: view_ok_def)
  have "Suc (bmap_len (bmap_remove p (active v))) = bmap_len (active v)"
    using bmap.count_remove_in [OF a, of p] p(1) by (auto simp: ids_def)
  moreover have "bmap_len (active v) \<le> max_active v" "active_ids v \<inter> passive_ids v = {}"
    using v by (simp_all add: view_ok_def)
  moreover have "view_ok ?v" "max_passive ?v > 0" "view_demote R ?v p = (ts, v')"
    using v m r True p by simp_all
  note demote_effect [OF R this]
  ultimately show ?thesis using p(1) a by (auto simp: view_config_def)
next
  case False
  with r v show ?thesis by (auto simp: view_is_active_full_def view_ok_def)
qed

lemma add_active_effect:
  assumes R: "rng_ok R" and v: "view_ok v" and m: "max_passive v > 0" "max_active v > 0"
    and i: "info_ok info" and r: "view_add_active R v info = (ts, v')"
  shows "view_ok v' \<and> view_config v' = view_config v \<and> accounts v (ts, v')
    \<and> (peer_id info \<noteq> local_id v \<longrightarrow> peer_id info \<in> active_ids v')"
proof (cases "peer_id info \<in> insert (local_id v) (active_ids v)")
  case True
  have "active_ids v \<inter> passive_ids v = {}" using v by (simp add: view_ok_def)
  with True r v show ?thesis by (auto simp: view_add_active_def accounts_def)
next
  case False
  let ?p = "peer_id info"
  obtain ds v1 where ds:
    "(if view_is_active_full v then view_demote_random R v else ([], v)) = (ds, v1)"
    by (rule prod.exhaust)
  note room = make_active_room [OF R v m ds]
  let ?v2 = "if view_is_passive v1 ?p then v1\<lparr>passive := bmap_remove ?p (passive v1)\<rparr> else v1"
  have v': "ts = Promoted info # ds" "v' = ?v2\<lparr>active := bmap_insert ?p info (active ?v2)\<rparr>"
    using r False unfolding view_add_active_def ds by (simp_all add: Let_def)
  have ok: "bmap_ok (active v1)" "bmap_ok (passive v1)" using room by (simp_all add: view_ok_def)
  have ids: "active_ids v' = insert ?p (active_ids v1)" "passive_ids v' = passive_ids v1 - {?p}"
    using ok by (auto simp: v')
  have len: "bmap_len (active v') \<le> max_active v"
    using bmap.count_insert_le [OF ok(1), of ?p info] room by (simp add: v')
  have "bmap_len (passive v') \<le> bmap_len (passive v1)"
    using bmap.count_remove_le [OF ok(2), of ?p] by (simp add: v')
  moreover have "entries_ok (active v')" "entries_ok (passive v')"
    using room i by (simp_all add: v' view_ok_def entries_ok_insert entries_ok_remove)
  moreover have c: "view_config v' = view_config v"
    using room by (simp add: v' view_config_def)
  ultimately have "view_ok v'"
    using room False len ids by (auto simp: view_ok_def view_config_def)
  moreover have "accounts v (ts, v')"
    using room False ids v by (auto simp: accounts_def v'(1) view_ok_def)
  ultimately show ?thesis using c ids by simp
qed

lemma evict_effect:
  assumes v: "view_ok v" and r: "view_evict v p = (ts, v')"
  shows "view_ok v' \<and> view_config v' = view_config v \<and> accounts v (ts, v')"
proof (cases "bmap_get (passive v) p")
  case None
  with v r show ?thesis by (auto simp: view_evict_def accounts_def view_ok_def)
next
  case (Some i)
  have p: "peer_id i = p" "bmap_ok (passive v)" "p \<notin> active_ids v"
    using v Some ids_get [OF Some] by (auto simp: view_ok_def entries_ok_def)
  have "bmap_len (bmap_remove p (passive v)) \<le> bmap_len (passive v)"
    by (rule bmap.count_remove_le [OF p(2)])
  with v r Some p ids_get [OF Some] show ?thesis
    by (auto simp: view_evict_def accounts_def view_ok_def view_config_def entries_ok_remove)
qed

lemma add_passive_accounts:
  assumes "rng_ok R" "view_ok v" "max_passive v > 0" "info_ok info"
    and "peer_id info \<notin> passive_ids v"
  shows "accounts v (view_add_passive R v info)"
proof -
  obtain ts v' where r: "view_add_passive R v info = (ts, v')" by (rule prod.exhaust)
  have "active_ids v \<inter> passive_ids v = {}" using assms(2) by (simp add: view_ok_def)
  with add_passive_effect [OF assms(1-4) r] assms(5) show ?thesis
    unfolding r by (auto simp: accounts_def split: if_splits)
qed

lemma demote_accounts:
  assumes "rng_ok R" "view_ok v" "max_passive v > 0"
  shows "accounts v (view_demote R v p)"
proof -
  obtain ts v' where r: "view_demote R v p = (ts, v')" by (rule prod.exhaust)
  have "active_ids v \<inter> passive_ids v = {}" "bmap_ok (active v)"
    using assms(2) by (simp_all add: view_ok_def)
  with demote_effect [OF assms r] show ?thesis unfolding r by (auto simp: accounts_def)
qed

section \<open>A concrete view\<close>

text \<open>A generator that always takes the first elements, used to evaluate concrete runs.\<close>

definition first_rng :: "(unit, 'k, 'a) rng_ops" where
  "first_rng =
     \<lparr>choose_one = \<lambda>g xs. (case xs of [] \<Rightarrow> None | x # _ \<Rightarrow> Some x, g),
      choose_multiple = \<lambda>g xs n. (take n xs, g)\<rparr>"

lemma first_rng_ok: "rng_ok first_rng"
proof -
  have "mset (take n xs) \<subseteq># mset xs" for n and xs :: "'x list"
    by (metis append_take_drop_id mset_append mset_subset_eq_add_left)
  then show ?thesis by (auto simp: rng_ok_def first_rng_def min.commute split: list.splits)
qed

definition example_info :: "nat \<Rightarrow> (nat, nat) peer_info" where
  "example_info k =
     \<lparr>peer_id = k, advertised_info = peer_advertisement_new k, seen_addrs = [k]\<rparr>"

lemma example_info_props [simp]: "peer_id (example_info k) = k" "info_ok (example_info k)"
  by (simp_all add: example_info_def info_ok_def max_addrs_def)

text \<open>Peer 1 is active, peer 2 passive, and both views are full.\<close>

definition example_view :: "(unit, nat, nat) partial_view" where
  "example_view =
     snd (view_add_passive first_rng
       (snd (view_add_active first_rng (view_new 0 () 1 1) (partial_from_peer_info (example_info 1))))
       (example_info 2))"

lemma example_view_eval:
  "example_view =
     \<lparr>local_id = 0, rng = (), max_active = 1, max_passive = 1,
      active = [(1, partial_from_peer_info (example_info 1))], passive = [(2, example_info 2)]\<rparr>"
  by code_simp

lemma example_view_ok: "view_ok example_view"
  by (auto simp: example_view_eval view_ok_def entries_ok_def ids_def bmap_get_def bmap_len_def
      split: if_splits)

lemma example_view_props:
  "local_id example_view = 0" "max_active example_view = 1" "max_passive example_view = 1"
  "active_ids example_view = {1}" "passive_ids example_view = {2}"
  by (auto simp: example_view_eval ids_def bmap_get_def split: if_splits)

section \<open>Properties\<close>

text \<open>
  C17: every operation of the partial view, from a well-formed view whose limits are at least
  one, yields a well-formed view with the same configuration: both views are ordered maps from
  a peer id to the information of that peer, they are disjoint, they never contain the local
  peer, neither exceeds its limit, and no peer has more than sixteen seen addresses. After
  \<open>add_active\<close> the peer is active, unless it is the local one.
\<close>

theorem view_operations_safe:
  assumes "rng_ok R" "view_ok v" "max_active v > 0" "max_passive v > 0"
    and "info_ok info" "info_ok pinfo"
  shows "view_ok (snd (view_add_active R v pinfo))
    \<and> view_config (snd (view_add_active R v pinfo)) = view_config v
    \<and> (peer_id pinfo \<noteq> local_id v \<longrightarrow>
         view_is_active (snd (view_add_active R v pinfo)) (peer_id pinfo))
    \<and> view_ok (snd (view_add_passive R v info))
    \<and> view_config (snd (view_add_passive R v info)) = view_config v
    \<and> view_ok (snd (view_demote R v p)) \<and> view_config (snd (view_demote R v p)) = view_config v
    \<and> \<not> view_is_active (snd (view_demote R v p)) p
    \<and> view_ok (snd (view_evict v p)) \<and> view_config (snd (view_evict v p)) = view_config v"
proof -
  have "bmap_ok (active v)" using assms(2) by (simp add: view_ok_def)
  then show ?thesis
    using add_active_effect [OF assms(1,2,4,3,6) surjective_pairing]
      add_passive_effect [OF assms(1,2,4,5) surjective_pairing]
      demote_effect [OF assms(1,2,4) surjective_pairing, of p]
      evict_effect [OF assms(2) surjective_pairing, of p] by simp
qed

theorem view_operations_safe_witness:
  "view_ok (snd (view_demote first_rng example_view 1))
    \<and> view_is_active (snd (view_add_active first_rng example_view (partial_from_peer_info (example_info 3)))) 3"
  using view_operations_safe [OF first_rng_ok example_view_ok, of "example_info 2"
      "partial_from_peer_info (example_info 3)" 1]
  by (simp add: example_view_props)



section \<open>A promoted peer reported as evicted\<close>

text \<open>
  Promoting the passive peer of a full view demotes the active one, which in turn may evict the
  very peer that is being promoted: its eviction is reported although it is active.
\<close>

lemma promoted_and_evicted:
  "fst (view_add_active first_rng example_view (partial_from_peer_info (example_info 2))) =
     [Promoted (partial_from_peer_info (example_info 2)), Demoted (example_info 1),
      Evicted (partial_from_peer_info (example_info 2))]"
  "bmap_keys (active (snd (view_add_active first_rng example_view
     (partial_from_peer_info (example_info 2))))) = [2]"
  by code_simp+

text \<open>
  The limits have to be at least one: with a limit of zero the first peer already exceeds it.
\<close>

lemma zero_limit_exceeded:
  "\<not> view_ok (snd (view_add_active first_rng (view_new 0 () 0 1)
      (partial_from_peer_info (example_info 1))))"
proof -
  have "bmap_len (active (snd (view_add_active first_rng (view_new 0 () 0 1)
      (partial_from_peer_info (example_info 1))))) = 1"
    "max_active (snd (view_add_active first_rng (view_new 0 () 0 1)
      (partial_from_peer_info (example_info 1)))) = 0"
    by code_simp+
  then show ?thesis by (simp add: view_ok_def)
qed

end
