(* ===== verification/Hpv.thy ===== *)
theory Hpv
  imports Partial_View
begin

text \<open>
  The HyParView membership protocol of \<open>librad/src/net/protocol/membership\<close>: its parameters
  (\<open>params.rs\<close>), messages (\<open>rpc.rs\<close>), ticks (\<open>tick.rs\<close>), the state machine \<open>HpvInner\<close>
  (\<open>hpv.rs\<close>) and the periodic tasks (\<open>periodic.rs\<close>).

  Every method of \<open>HpvInner\<close> that takes \<open>&mut self\<close> returns the new state next to its result;
  the lock of \<open>Hpv\<close> makes each of them one atomic step. A failed \<open>assert!\<close> is \<open>None\<close>.
\<close>

section \<open>Parameters, messages and ticks\<close>

record params =
  p_max_active :: nat
  p_max_passive :: nat
  p_active_random_walk_length :: nat
  p_passive_random_walk_length :: nat
  p_shuffle_sample_size :: nat
  p_shuffle_interval :: nat
  p_promote_interval :: nat

definition params_default :: params where
  "params_default =
     \<lparr>p_max_active = 5, p_max_passive = 30, p_active_random_walk_length = 6,
      p_passive_random_walk_length = 3, p_shuffle_sample_size = 7, p_shuffle_interval = 30,
      p_promote_interval = 30\<rparr>"

datatype priority = Normal_prio | High_prio

datatype ('k, 'a) message =
    Join "'a peer_advertisement"
  | ForwardJoin "('k, 'a) peer_info" nat
  | Neighbour "'a peer_advertisement" priority
  | Shuffle "('k, 'a) peer_info" "('k, 'a) peer_info list" nat
  | ShuffleReply "('k, 'a) peer_info list"
  | Disconnect

datatype ('k, 'a) tick =
    All_tick "'k list" "('k, 'a) message"
  | Reply_tick 'k "('k, 'a) message"
  | Try_tick "('k, 'a) peer_info" "('k, 'a) message"
  | Connect_tick "('k, 'a) peer_info"
  | Forget_tick 'k

fun tick_from_transition :: "('k, 'a) transition \<Rightarrow> ('k, 'a) tick option" where
  "tick_from_transition (Demoted info) = Some (Try_tick info Disconnect)"
| "tick_from_transition (Evicted info) = Some (Forget_tick (peer_id info))"
| "tick_from_transition (Promoted info) = None"

record ('k, 'a) tnt =
  tnt_trans :: "('k, 'a) transition list"
  tnt_ticks :: "('k, 'a) tick list"

definition tnt_default :: "('k, 'a) tnt" where
  "tnt_default = \<lparr>tnt_trans = [], tnt_ticks = []\<rparr>"

definition tnt_with_tick :: "('k, 'a) tnt \<Rightarrow> ('k, 'a) tick option \<Rightarrow> ('k, 'a) tnt" where
  "tnt_with_tick t tick = t\<lparr>tnt_ticks := (case tick of None \<Rightarrow> [] | Some x \<Rightarrow> [x])\<rparr>"

definition tnt_mul :: "('k, 'a) tnt \<Rightarrow> ('k, 'a) tnt \<Rightarrow> ('k, 'a) tnt" where
  "tnt_mul s rhs =
     \<lparr>tnt_trans = tnt_trans s @ tnt_trans rhs, tnt_ticks = tnt_ticks s @ tnt_ticks rhs\<rparr>"

definition tnt_from_transitions :: "('k, 'a) transition list \<Rightarrow> ('k, 'a) tnt" where
  "tnt_from_transitions ts =
     \<lparr>tnt_trans = ts, tnt_ticks = List.map_filter tick_from_transition ts\<rparr>"

definition tnt_from_ticks :: "('k, 'a) tick list \<Rightarrow> ('k, 'a) tnt" where
  "tnt_from_ticks ts = \<lparr>tnt_trans = [], tnt_ticks = ts\<rparr>"

definition tnt_extend :: "('k, 'a) tnt \<Rightarrow> ('k, 'a) tick list \<Rightarrow> ('k, 'a) tnt" where
  "tnt_extend t ts = t\<lparr>tnt_ticks := tnt_ticks t @ ts\<rparr>"

section \<open>The state machine\<close>

record ('k, 'a) shuffle =
  recipient :: 'k
  sample :: "('k, 'a) peer_info list"
  shuffle_ttl :: nat

record ('g, 'k, 'a) hpv =
  hpv_local_id :: 'k
  hpv_params :: params
  hpv_rng :: 'g
  view :: "('g, 'k, 'a) partial_view"

datatype hpv_error = JoinWhileConnected

definition hpv_new :: "'k \<Rightarrow> 'g \<Rightarrow> params \<Rightarrow> ('g, 'k, 'a) hpv" where
  "hpv_new lid r ps =
     \<lparr>hpv_local_id = lid, hpv_params = ps, hpv_rng = r,
      view = view_new lid r (p_max_active ps) (p_max_passive ps)\<rparr>"

definition hpv_view_stats :: "('g, 'k, 'a) hpv \<Rightarrow> nat \<times> nat" where
  "hpv_view_stats h = (view_num_active (view h), view_num_passive (view h))"

definition hpv_hello :: "('g, 'k, 'a) hpv \<Rightarrow> 'a peer_advertisement \<Rightarrow> ('k, 'a) message" where
  "hpv_hello h local_info =
     (case hpv_view_stats h of
        (0, 0) \<Rightarrow> Join local_info
      | (act, _) \<Rightarrow> Neighbour local_info (if act = 0 then High_prio else Normal_prio))"

text \<open>The \<open>assert!\<close> makes the default of \<open>checked_sub\<close> unreachable.\<close>

definition hpv_choose_passive_to_promote ::
  "('g, 'k, 'a) rng_ops \<Rightarrow> ('g, 'k, 'a) hpv \<Rightarrow> (('k, 'a) peer_info list \<times> ('g, 'k, 'a) hpv) option" where
  "hpv_choose_passive_to_promote R h =
     (if p_max_active (hpv_params h) \<ge> view_num_active (view h) then
        let n = p_max_active (hpv_params h) - view_num_active (view h);
            (ps, g) = choose_multiple R (hpv_rng h) (view_passive_info (view h)) n
        in Some (ps, h\<lparr>hpv_rng := g\<rparr>)
      else None)"

definition hpv_connection_lost ::
  "('g, 'k::linorder, 'a) rng_ops \<Rightarrow> ('g, 'k, 'a) hpv \<Rightarrow> 'k \<Rightarrow> (('k, 'a) tnt \<times> ('g, 'k, 'a) hpv) option" where
  "hpv_connection_lost R h remote_peer =
     (let (dem, v) = view_demote R (view h) remote_peer; h' = h\<lparr>view := v\<rparr> in
      if dem = [] then Some (tnt_default, h')
      else map_option (\<lambda>(ps, h''). (\<lparr>tnt_trans = dem, tnt_ticks = map Connect_tick ps\<rparr>, h''))
             (hpv_choose_passive_to_promote R h'))"

definition hpv_connection_established ::
  "('g, 'k::linorder, 'a) rng_ops \<Rightarrow> ('g, 'k, 'a) hpv \<Rightarrow> ('k, 'a) partial_peer_info \<Rightarrow>
   ('k, 'a) tnt \<times> ('g, 'k, 'a) hpv" where
  "hpv_connection_established R h info =
     (let (ts, v) = view_add_active R (view h) info in (tnt_from_transitions ts, h\<lparr>view := v\<rparr>))"

definition hpv_random_active ::
  "('g, 'k, 'a) rng_ops \<Rightarrow> ('g, 'k, 'a) hpv \<Rightarrow> 'k option \<times> ('g, 'k, 'a) hpv" where
  "hpv_random_active R h =
     (let (p, g) = choose_one R (hpv_rng h) (view_active (view h)) in (p, h\<lparr>hpv_rng := g\<rparr>))"

definition hpv_sample ::
  "('g, 'k, 'a) rng_ops \<Rightarrow> ('g, 'k, 'a) hpv \<Rightarrow> nat \<Rightarrow> ('k, 'a) peer_info list \<times> ('g, 'k, 'a) hpv" where
  "hpv_sample R h sz =
     (let (act, g) = choose_multiple R (hpv_rng h)
                       (List.map_filter peer_info_sequence (view_active_info (view h))) sz in
      if length act < p_shuffle_sample_size (hpv_params h) then
        let (pas, g') = choose_multiple R g (view_passive_info (view h)) (sz - length act)
        in (act @ pas, h\<lparr>hpv_rng := g'\<rparr>)
      else (act, h\<lparr>hpv_rng := g\<rparr>))"

definition hpv_shuffle ::
  "('g, 'k, 'a) rng_ops \<Rightarrow> ('g, 'k, 'a) hpv \<Rightarrow> ('k, 'a) shuffle option \<times> ('g, 'k, 'a) hpv" where
  "hpv_shuffle R h =
     (let (r, h') = hpv_random_active R h in
      case r of
        None \<Rightarrow> (None, h')
      | Some rcpt \<Rightarrow>
          let (ps, h'') = hpv_sample R h' (p_shuffle_sample_size (hpv_params h'));
              ps' = filter (\<lambda>info. peer_id info \<noteq> rcpt) ps in
          (if ps' = [] then None
           else Some \<lparr>recipient = rcpt, sample = ps',
                  shuffle_ttl = p_active_random_walk_length (hpv_params h')\<rparr>, h''))"

definition hpv_broadcast_recipients :: "('g, 'k, 'a) hpv \<Rightarrow> 'k option \<Rightarrow> 'k list" where
  "hpv_broadcast_recipients h exclude =
     filter (\<lambda>p. case exclude of None \<Rightarrow> True | Some ex \<Rightarrow> ex \<noteq> p) (view_active (view h))"

definition peer_info_from :: "'k \<Rightarrow> 'a peer_advertisement \<Rightarrow> 'a \<Rightarrow> ('k, 'a) peer_info" where
  "peer_info_from remote_peer advertised remote_addr =
     \<lparr>peer_id = remote_peer, advertised_info = advertised,
      seen_addrs = within_singleton remote_addr\<rparr>"

section \<open>Applying a message\<close>

text \<open>\<open>fold(tnt, |acc, info| acc * self.view.add_passive(info).into_iter().collect())\<close>\<close>

fun hpv_add_all_passive ::
  "('g, 'k::linorder, 'a) rng_ops \<Rightarrow> ('k, 'a) tnt \<Rightarrow> ('g, 'k, 'a) hpv \<Rightarrow> ('k, 'a) peer_info list \<Rightarrow>
   ('k, 'a) tnt \<times> ('g, 'k, 'a) hpv" where
  "hpv_add_all_passive R acc h [] = (acc, h)"
| "hpv_add_all_passive R acc h (info # infos) =
     (let (ts, v) = view_add_passive R (view h) info in
      hpv_add_all_passive R (tnt_mul acc (tnt_from_transitions ts)) (h\<lparr>view := v\<rparr>) infos)"

text \<open>A random active peer other than the sender.\<close>

definition hpv_next_hop ::
  "('g, 'k, 'a) rng_ops \<Rightarrow> ('g, 'k, 'a) hpv \<Rightarrow> 'k \<Rightarrow> 'k option \<times> ('g, 'k, 'a) hpv" where
  "hpv_next_hop R h remote_peer =
     (let (p, g) = choose_one R (hpv_rng h) (filter (\<lambda>p. p \<noteq> remote_peer) (view_active (view h)))
      in (p, h\<lparr>hpv_rng := g\<rparr>))"

definition forward_tick :: "'k option \<Rightarrow> ('k, 'a) message \<Rightarrow> ('k, 'a) tick list" where
  "forward_tick hop msg = (case hop of None \<Rightarrow> [] | Some p \<Rightarrow> [All_tick [p] msg])"

definition hpv_apply_join ::
  "('g, 'k::linorder, 'a) rng_ops \<Rightarrow> ('g, 'k, 'a) hpv \<Rightarrow> 'k \<Rightarrow> 'a \<Rightarrow> 'a peer_advertisement \<Rightarrow>
   (hpv_error + ('k, 'a) tnt) \<times> ('g, 'k, 'a) hpv" where
  "hpv_apply_join R h remote_peer remote_addr adv =
     (if view_is_active (view h) remote_peer then (Inl JoinWhileConnected, h)
      else
        let info = peer_info_from remote_peer adv remote_addr;
            (ts, v) = view_add_active R (view h) (partial_from_peer_info info);
            h' = h\<lparr>view := v\<rparr>;
            tnt = tnt_from_transitions ts;
            fwd = hpv_broadcast_recipients h' (Some remote_peer)
        in (Inr (if fwd \<noteq> [] then
                   tnt_extend tnt [All_tick fwd
                     (ForwardJoin info (p_active_random_walk_length (hpv_params h')))]
                 else tnt), h'))"

definition hpv_apply_forward_join ::
  "('g, 'k::linorder, 'a) rng_ops \<Rightarrow> ('g, 'k, 'a) hpv \<Rightarrow> 'k \<Rightarrow> ('k, 'a) peer_info \<Rightarrow> nat \<Rightarrow>
   (hpv_error + ('k, 'a) tnt) \<times> ('g, 'k, 'a) hpv" where
  "hpv_apply_forward_join R h remote_peer joined ttl =
     (if (ttl = 0 \<or> \<not> view_is_active_full (view h))
         \<and> \<not> view_is_active (view h) (peer_id joined) \<and> peer_id joined \<noteq> hpv_local_id h
      then (Inr (tnt_with_tick tnt_default (Some (Connect_tick joined))), h)
      else
        let (tnt, h') =
              (if ttl = 0 then
                 let (ts, v) = view_add_passive R (view h) joined
                 in (tnt_from_transitions ts, h\<lparr>view := v\<rparr>)
               else (tnt_default, h));
            (hop, h'') = hpv_next_hop R h' remote_peer
        in (Inr (tnt_extend tnt (forward_tick hop (ForwardJoin joined (ttl - 1)))), h''))"

definition hpv_apply_neighbour ::
  "('g, 'k::linorder, 'a) rng_ops \<Rightarrow> ('g, 'k, 'a) hpv \<Rightarrow> 'k \<Rightarrow> 'a \<Rightarrow> 'a peer_advertisement \<Rightarrow>
   priority \<Rightarrow> (hpv_error + ('k, 'a) tnt) \<times> ('g, 'k, 'a) hpv" where
  "hpv_apply_neighbour R h remote_peer remote_addr adv prio =
     (if prio = High_prio \<or> \<not> view_is_active_full (view h) then
        let info = peer_info_from remote_peer adv remote_addr;
            (ts, v) = view_add_active R (view h) (partial_from_peer_info info)
        in (Inr (tnt_from_transitions ts), h\<lparr>view := v\<rparr>)
      else (Inr (tnt_with_tick tnt_default (Some (Reply_tick remote_peer Disconnect))), h))"

definition hpv_apply_shuffle ::
  "('g, 'k::linorder, 'a) rng_ops \<Rightarrow> ('g, 'k, 'a) hpv \<Rightarrow> 'k \<Rightarrow> 'a \<Rightarrow> ('k, 'a) peer_info \<Rightarrow>
   ('k, 'a) peer_info list \<Rightarrow> nat \<Rightarrow> (hpv_error + ('k, 'a) tnt) \<times> ('g, 'k, 'a) hpv" where
  "hpv_apply_shuffle R h remote_peer remote_addr origin peers ttl =
     (if ttl = 0 \<and> peer_id origin \<noteq> hpv_local_id h then
        let (smp, h') = hpv_sample R h (length peers);
            tnt = (if smp \<noteq> [] then tnt_from_ticks [Try_tick origin (ShuffleReply smp)]
                   else tnt_default);
            (tnt', h'') = hpv_add_all_passive R tnt h' peers
        in (Inr tnt', h'')
      else if ttl > 0 then
        let origin' =
              (if peer_id origin = remote_peer then
                 origin\<lparr>seen_addrs :=
                   within_extend_fill max_addrs (within_singleton remote_addr)
                     (filter (\<lambda>addr. addr \<noteq> remote_addr) (seen_addrs origin))\<rparr>
               else origin);
            (hop, h') = hpv_next_hop R h remote_peer
        in (Inr (tnt_from_ticks (forward_tick hop (Shuffle origin' peers (ttl - 1)))), h')
      else (Inr tnt_default, h))"

fun hpv_apply ::
  "('g, 'k::linorder, 'a) rng_ops \<Rightarrow> ('g, 'k, 'a) hpv \<Rightarrow> 'k \<Rightarrow> 'a \<Rightarrow> ('k, 'a) message \<Rightarrow>
   (hpv_error + ('k, 'a) tnt) \<times> ('g, 'k, 'a) hpv" where
  "hpv_apply R h remote_peer remote_addr (Join adv) = hpv_apply_join R h remote_peer remote_addr adv"
| "hpv_apply R h remote_peer remote_addr (ForwardJoin joined ttl) =
     hpv_apply_forward_join R h remote_peer joined ttl"
| "hpv_apply R h remote_peer remote_addr (Neighbour adv prio) =
     hpv_apply_neighbour R h remote_peer remote_addr adv prio"
| "hpv_apply R h remote_peer remote_addr Disconnect =
     (let (ts, v) = view_demote R (view h) remote_peer in (Inr (tnt_from_transitions ts), h\<lparr>view := v\<rparr>))"
| "hpv_apply R h remote_peer remote_addr (Shuffle origin peers ttl) =
     hpv_apply_shuffle R h remote_peer remote_addr origin peers ttl"
| "hpv_apply R h remote_peer remote_addr (ShuffleReply peers) =
     (let (tnt, h') = hpv_add_all_passive R tnt_default h peers in (Inr tnt, h'))"

section \<open>Periodic tasks\<close>

datatype ('k, 'a) periodic =
    RandomPromotion "('k, 'a) peer_info list"
  | Periodic_Shuffle "('k, 'a) shuffle"
  | Tickle

text \<open>What each of the three interval streams yields when its interval elapses.\<close>

definition periodic_shuffle ::
  "('g, 'k, 'a) rng_ops \<Rightarrow> ('g, 'k, 'a) hpv \<Rightarrow> ('k, 'a) periodic option \<times> ('g, 'k, 'a) hpv" where
  "periodic_shuffle R h = (let (s, h') = hpv_shuffle R h in (map_option Periodic_Shuffle s, h'))"

definition periodic_promote ::
  "('g, 'k, 'a) rng_ops \<Rightarrow> ('g, 'k, 'a) hpv \<Rightarrow>
   (('k, 'a) periodic option \<times> ('g, 'k, 'a) hpv) option" where
  "periodic_promote R h =
     map_option (\<lambda>(candidates, h').
         (if candidates = [] then None else Some (RandomPromotion candidates), h'))
       (hpv_choose_passive_to_promote R h)"

definition periodic_tickle :: "('k, 'a) periodic option" where
  "periodic_tickle = Some Tickle"

section \<open>The invariant\<close>

definition hpv_ok :: "('g, 'k::linorder, 'a) hpv \<Rightarrow> bool" where
  "hpv_ok h =
     (view_ok (view h)
      \<and> view_config (view h) =
          (hpv_local_id h, p_max_active (hpv_params h), p_max_passive (hpv_params h)))"

definition limits_ok :: "params \<Rightarrow> bool" where
  "limits_ok ps = (p_max_active ps > 0 \<and> p_max_passive ps > 0)"

text \<open>The infos carried by a message are within their bounds, as decoding ensures.\<close>

fun message_ok :: "('k, 'a) message \<Rightarrow> bool" where
  "message_ok (ForwardJoin joined ttl) = info_ok joined"
| "message_ok (Shuffle origin peers ttl) = (info_ok origin \<and> list_all info_ok peers)"
| "message_ok (ShuffleReply peers) = list_all info_ok peers"
| "message_ok _ = True"

text \<open>
  Accounting for a sequence of operations: whoever became active was promoted, whoever ceased
  to be active was demoted or evicted, and whoever is no longer known was evicted.
\<close>

definition accounts_seq ::
  "('g, 'k, 'a) partial_view \<Rightarrow> ('k, 'a) transition list \<Rightarrow> ('g, 'k, 'a) partial_view \<Rightarrow> bool" where
  "accounts_seq v ts v' =
     (active_ids v' - active_ids v \<subseteq> promoted ts
      \<and> active_ids v - active_ids v' \<subseteq> demoted ts \<union> evicted ts
      \<and> (active_ids v \<union> passive_ids v) - (active_ids v' \<union> passive_ids v') \<subseteq> evicted ts)"

lemma accounts_seq_refl [simp]: "accounts_seq v ts v"
  by (simp add: accounts_seq_def)

lemma accounts_seq_trans:
  "accounts_seq v ts v' \<Longrightarrow> accounts_seq v' us v'' \<Longrightarrow> accounts_seq v (ts @ us) v''"
  unfolding accounts_seq_def by auto

lemma accounts_seq_of: "accounts v (ts, v') \<Longrightarrow> accounts_seq v ts v'"
  unfolding accounts_def accounts_seq_def by auto

lemma add_passive_seq:
  assumes "rng_ok R" "view_ok v" "max_passive v > 0" "info_ok info"
    and r: "view_add_passive R v info = (ts, v')"
  shows "accounts_seq v ts v'"
  using add_passive_effect [OF assms] by (auto simp: accounts_seq_def split: if_splits)

text \<open>The ticks that follow from transitions.\<close>

definition notifies :: "('k, 'a) tnt \<Rightarrow> bool" where
  "notifies t =
     ((\<forall>i. Demoted i \<in> set (tnt_trans t) \<longrightarrow> Try_tick i Disconnect \<in> set (tnt_ticks t))
      \<and> (\<forall>i. Evicted i \<in> set (tnt_trans t) \<longrightarrow> Forget_tick (peer_id i) \<in> set (tnt_ticks t)))"

lemma tnt_simps [simp]:
  "tnt_trans tnt_default = []" "tnt_ticks tnt_default = []"
  "tnt_trans (tnt_from_transitions ts) = ts" "tnt_trans (tnt_from_ticks ks) = []"
  "tnt_ticks (tnt_from_ticks ks) = ks"
  "tnt_trans (tnt_mul s t) = tnt_trans s @ tnt_trans t"
  "tnt_ticks (tnt_mul s t) = tnt_ticks s @ tnt_ticks t"
  "tnt_trans (tnt_extend t ks) = tnt_trans t" "tnt_ticks (tnt_extend t ks) = tnt_ticks t @ ks"
  "tnt_trans (tnt_with_tick t k) = tnt_trans t"
  "tnt_ticks (tnt_with_tick t (Some x)) = [x]"
  by (simp_all add: tnt_default_def tnt_from_transitions_def tnt_from_ticks_def tnt_mul_def
      tnt_extend_def tnt_with_tick_def)

lemma set_map_filter: "set (List.map_filter f xs) = {y. \<exists>x \<in> set xs. f x = Some y}"
  by (force simp: List.map_filter_def)

lemma ticks_from_transitions:
  "set (tnt_ticks (tnt_from_transitions ts)) =
     {Try_tick i Disconnect |i. Demoted i \<in> set ts} \<union> {Forget_tick (peer_id i) |i. Evicted i \<in> set ts}"
proof -
  have "tick_from_transition t = Some k \<longleftrightarrow>
     (\<exists>i. t = Demoted i \<and> k = Try_tick i Disconnect) \<or> (\<exists>i. t = Evicted i \<and> k = Forget_tick (peer_id i))"
    for t :: "('a, 'b) transition" and k
    by (cases t) auto
  then show ?thesis by (auto simp: tnt_from_transitions_def set_map_filter)
qed

lemma notifies_simps [simp]:
  "notifies (tnt_from_transitions ts)" "notifies tnt_default" "notifies (tnt_from_ticks ks)"
  "notifies t \<Longrightarrow> notifies (tnt_extend t ks)"
  "notifies s \<Longrightarrow> notifies t \<Longrightarrow> notifies (tnt_mul s t)"
  by (auto simp: notifies_def ticks_from_transitions)

lemma hpv_okD:
  assumes "hpv_ok h" "limits_ok (hpv_params h)"
  shows "view_ok (view h)" "max_active (view h) > 0" "max_passive (view h) > 0"
    "local_id (view h) = hpv_local_id h" "max_active (view h) = p_max_active (hpv_params h)"
  using assms by (auto simp: hpv_ok_def limits_ok_def view_config_def)

lemma hpv_ok_rng [simp]: "hpv_ok (h\<lparr>hpv_rng := g\<rparr>) = hpv_ok h"
  by (simp add: hpv_ok_def)

lemma hpv_ok_view:
  "hpv_ok h \<Longrightarrow> view_ok v \<Longrightarrow> view_config v = view_config (view h) \<Longrightarrow> hpv_ok (h\<lparr>view := v\<rparr>)"
  by (simp add: hpv_ok_def)

text \<open>What every handler guarantees.\<close>

definition hpv_good :: "('g, 'k::linorder, 'a) hpv \<Rightarrow> ('k, 'a) tnt \<Rightarrow> ('g, 'k, 'a) hpv \<Rightarrow> bool" where
  "hpv_good h t h' =
     (hpv_ok h' \<and> hpv_params h' = hpv_params h \<and> hpv_local_id h' = hpv_local_id h
      \<and> accounts_seq (view h) (tnt_trans t) (view h') \<and> notifies t)"

lemma hpv_good_same: "hpv_ok h \<Longrightarrow> notifies t \<Longrightarrow> hpv_good h t h"
  by (simp add: hpv_good_def)

lemma hpv_good_rng: "hpv_good h t (h'\<lparr>hpv_rng := g\<rparr>) = hpv_good h t h'"
  by (simp add: hpv_good_def)

lemma hpv_good_extend: "hpv_good h t h' \<Longrightarrow> hpv_good h (tnt_extend t ks) h'"
  by (simp add: hpv_good_def)

lemma hpv_good_view:
  assumes "hpv_ok h" "view_ok v \<and> view_config v = view_config (view h)" "accounts_seq (view h) ts v"
  shows "hpv_good h (tnt_from_transitions ts) (h\<lparr>view := v\<rparr>)"
  using assms by (simp add: hpv_good_def hpv_ok_view)

lemma hpv_good_add_active:
  assumes "rng_ok R" "hpv_ok h" "limits_ok (hpv_params h)" "info_ok info"
    and "view_add_active R (view h) info = (ts, v)"
  shows "hpv_good h (tnt_from_transitions ts) (h\<lparr>view := v\<rparr>)"
  using add_active_effect [OF assms(1) hpv_okD(1,3,2) [OF assms(2,3)] assms(4,5)] assms(2)
  by (intro hpv_good_view accounts_seq_of) auto

lemma hpv_good_add_passive:
  assumes "rng_ok R" "hpv_ok h" "limits_ok (hpv_params h)" "info_ok info"
    and "view_add_passive R (view h) info = (ts, v)"
  shows "hpv_good h (tnt_from_transitions ts) (h\<lparr>view := v\<rparr>)"
  using add_passive_effect [OF assms(1) hpv_okD(1,3) [OF assms(2,3)] assms(4,5)] assms(2)
    add_passive_seq [OF assms(1) hpv_okD(1,3) [OF assms(2,3)] assms(4,5)]
  by (intro hpv_good_view) auto

lemma hpv_good_demote:
  assumes "rng_ok R" "hpv_ok h" "limits_ok (hpv_params h)"
    and "view_demote R (view h) p = (ts, v)"
  shows "hpv_good h (tnt_from_transitions ts) (h\<lparr>view := v\<rparr>)"
  using demote_effect [OF assms(1) hpv_okD(1,3) [OF assms(2,3)] assms(4)] assms(2)
    demote_accounts [OF assms(1) hpv_okD(1,3) [OF assms(2,3)], of p]
  unfolding assms(4) by (intro hpv_good_view accounts_seq_of) auto

lemma hpv_good_trans:
  assumes "hpv_good h s h'" "hpv_good h' t h''"
  shows "hpv_good h (tnt_mul s t) h''"
  using assms by (auto simp: hpv_good_def intro: accounts_seq_trans)

lemma hpv_good_add_all_passive:
  assumes "rng_ok R" "limits_ok (hpv_params h0)"
  shows "hpv_good h0 acc h \<Longrightarrow> list_all info_ok infos \<Longrightarrow>
    hpv_add_all_passive R acc h infos = (t, h') \<Longrightarrow> hpv_good h0 t h'"
proof (induction infos arbitrary: acc h)
  case (Cons info infos)
  obtain ts v where r: "view_add_passive R (view h) info = (ts, v)" by (rule prod.exhaust)
  have "hpv_ok h" "limits_ok (hpv_params h)" "info_ok info"
    using Cons.prems(1,2) assms(2) by (simp_all add: hpv_good_def)
  from hpv_good_add_passive [OF assms(1) this r]
  have "hpv_good h0 (tnt_mul acc (tnt_from_transitions ts)) (h\<lparr>view := v\<rparr>)"
    by (rule hpv_good_trans [OF Cons.prems(1)])
  from Cons.IH [OF this] show ?case using Cons.prems(2,3) r by simp
qed simp

lemma info_ok_from [simp]:
  "info_ok (peer_info_from p adv addr)" "peer_id (peer_info_from p adv addr) = p"
  by (simp_all add: peer_info_from_def info_ok_def within_singleton_def max_addrs_def)

lemma hpv_sample_frame: "hpv_sample R h n = (smp, h') \<Longrightarrow> \<exists>g. h' = h\<lparr>hpv_rng := g\<rparr>"
  by (auto simp: hpv_sample_def Let_def split: prod.splits if_splits)

lemma hpv_next_hop_frame: "hpv_next_hop R h p = (hop, h') \<Longrightarrow> \<exists>g. h' = h\<lparr>hpv_rng := g\<rparr>"
  by (auto simp: hpv_next_hop_def split: prod.splits)

lemma hpv_good_next_hop:
  "hpv_good h t h1 \<Longrightarrow> hpv_next_hop R h1 p = (hop, h') \<Longrightarrow> hpv_good h t h'"
  using hpv_next_hop_frame by (fastforce simp: hpv_good_rng)

lemma forward_join_good:
  assumes R: "rng_ok R" and h: "hpv_ok h" and l: "limits_ok (hpv_params h)" and i: "info_ok joined"
    and r: "hpv_apply_forward_join R h p joined ttl = (Inr t, h')"
  shows "hpv_good h t h'"
proof (cases "(ttl = 0 \<or> \<not> view_is_active_full (view h))
    \<and> \<not> view_is_active (view h) (peer_id joined) \<and> peer_id joined \<noteq> hpv_local_id h")
  case True
  then show ?thesis
    using r h unfolding hpv_apply_forward_join_def if_P [OF True]
    by (auto simp: notifies_def intro!: hpv_good_same)
next
  case False
  obtain ts v where a: "view_add_passive R (view h) joined = (ts, v)" by (rule prod.exhaust)
  obtain tnt h1 where 1: "(if ttl = 0 then (tnt_from_transitions ts, h\<lparr>view := v\<rparr>)
      else (tnt_default, h)) = (tnt, h1)" by (rule prod.exhaust)
  obtain hop h2 where 2: "hpv_next_hop R h1 p = (hop, h2)" by (rule prod.exhaust)
  have "hpv_good h tnt h1"
    using 1 h hpv_good_add_passive [OF R h l i a] by (auto intro: hpv_good_same split: if_splits)
  then have "hpv_good h tnt h2" using 2 by (rule hpv_good_next_hop)
  then show ?thesis
    using r unfolding hpv_apply_forward_join_def if_not_P [OF False] a prod.case 1 2 Let_def
    by (auto intro: hpv_good_extend)
qed

lemma shuffle_good:
  assumes R: "rng_ok R" and h: "hpv_ok h" and l: "limits_ok (hpv_params h)"
    and i: "list_all info_ok peers"
    and r: "hpv_apply_shuffle R h p addr origin peers ttl = (Inr t, h')"
  shows "hpv_good h t h'"
proof -
  consider "ttl = 0" "peer_id origin \<noteq> hpv_local_id h" | "ttl > 0"
    | "ttl = 0" "peer_id origin = hpv_local_id h" by blast
  then show ?thesis
  proof cases
    case 1
    obtain smp h1 where s: "hpv_sample R h (length peers) = (smp, h1)" by (rule prod.exhaust)
    from hpv_sample_frame [OF s] obtain g where g: "h1 = h\<lparr>hpv_rng := g\<rparr>" by blast
    have "hpv_good h (if smp \<noteq> [] then tnt_from_ticks [Try_tick origin (ShuffleReply smp)]
        else tnt_default) h1"
      using h by (simp add: g hpv_good_rng hpv_good_same)
    from hpv_good_add_all_passive [OF R l this i] show ?thesis
      using r 1 by (auto simp: hpv_apply_shuffle_def s split: prod.splits)
  next
    case 2
    obtain hop h1 where n: "hpv_next_hop R h p = (hop, h1)" by (rule prod.exhaust)
    have "hpv_good h (tnt_from_ticks ks) h1" for ks
      by (rule hpv_good_next_hop [OF _ n]) (simp add: h hpv_good_same)
    then show ?thesis using r 2 by (auto simp: hpv_apply_shuffle_def n Let_def)
  next
    case 3
    then show ?thesis using r h by (auto simp: hpv_apply_shuffle_def hpv_good_same)
  qed
qed

lemma hpv_apply_good:
  assumes R: "rng_ok R" and h: "hpv_ok h" and l: "limits_ok (hpv_params h)" and m: "message_ok msg"
    and r: "hpv_apply R h p addr msg = (Inr t, h')"
  shows "hpv_good h t h'"
proof (cases msg)
  case (Join adv)
  obtain ts v where a:
    "view_add_active R (view h) (partial_from_peer_info (peer_info_from p adv addr)) = (ts, v)"
    by (rule prod.exhaust)
  have "hpv_good h (tnt_from_transitions ts) (h\<lparr>view := v\<rparr>)"
    by (rule hpv_good_add_active [OF R h l _ a]) simp
  then show ?thesis
    using r unfolding Join by (auto simp: hpv_apply_join_def a Let_def hpv_good_extend split: if_splits)
next
  case (ForwardJoin joined ttl)
  then show ?thesis using r m by (auto intro: forward_join_good [OF R h l])
next
  case (Neighbour adv prio)
  obtain ts v where a:
    "view_add_active R (view h) (partial_from_peer_info (peer_info_from p adv addr)) = (ts, v)"
    by (rule prod.exhaust)
  have "hpv_good h (tnt_from_transitions ts) (h\<lparr>view := v\<rparr>)"
    by (rule hpv_good_add_active [OF R h l _ a]) simp
  then show ?thesis
    using r h unfolding Neighbour
    by (auto simp: hpv_apply_neighbour_def a notifies_def intro!: hpv_good_same split: if_splits)
next
  case (Shuffle origin peers ttl)
  then show ?thesis using r m by (auto intro: shuffle_good [OF R h l])
next
  case (ShuffleReply peers)
  have "hpv_good h tnt_default h" using h by (simp add: hpv_good_same)
  then show ?thesis
    using r m unfolding ShuffleReply
    by (auto intro: hpv_good_add_all_passive [OF R l] split: prod.splits)
next
  case Disconnect
  then show ?thesis using r by (auto intro: hpv_good_demote [OF R h l] split: prod.splits)
qed

lemma hpv_apply_Inl: "hpv_apply R h p addr msg = (Inl e, h') \<Longrightarrow> h' = h \<and> view_is_active (view h) p"
  by (cases msg) (auto simp: hpv_apply_join_def hpv_apply_forward_join_def hpv_apply_neighbour_def
      hpv_apply_shuffle_def Let_def split: if_splits prod.splits)

lemma choose_multiple_props:
  assumes "rng_ok R" "choose_multiple R g xs n = (ys, g')"
  shows "mset ys \<subseteq># mset xs" "set ys \<subseteq> set xs" "length ys = min n (length xs)"
proof -
  have "mset (fst (choose_multiple R g xs n)) \<subseteq># mset xs
      \<and> length (fst (choose_multiple R g xs n)) = min n (length xs)"
    using assms(1) unfolding rng_ok_def by blast
  then show "mset ys \<subseteq># mset xs" "length ys = min n (length xs)"
    using assms(2) by simp_all
  then show "set ys \<subseteq> set xs" using set_mset_mono by fastforce
qed

lemma choose_passive_total:
  assumes R: "rng_ok R" and h: "hpv_ok h"
  obtains ps g where "hpv_choose_passive_to_promote R h = Some (ps, h\<lparr>hpv_rng := g\<rparr>)"
    "length ps = min (p_max_active (hpv_params h) - view_num_active (view h)) (view_num_passive (view h))"
    "set ps \<subseteq> set (view_passive_info (view h))"
proof -
  let ?n = "p_max_active (hpv_params h) - view_num_active (view h)"
  obtain ps g where c: "choose_multiple R (hpv_rng h) (view_passive_info (view h)) ?n = (ps, g)"
    by (rule prod.exhaust)
  have "view_num_active (view h) \<le> p_max_active (hpv_params h)"
    using h by (auto simp: hpv_ok_def view_ok_def view_config_def view_num_active_def)
  moreover have "length (view_passive_info (view h)) = view_num_passive (view h)"
    by (simp add: view_passive_info_def bmap_values_def view_num_passive_def bmap_len_def)
  ultimately show thesis
    using c choose_multiple_props [OF R c] by (intro that [of ps g])
      (simp_all add: hpv_choose_passive_to_promote_def)
qed

lemma connection_lost_total:
  assumes R: "rng_ok R" and h: "hpv_ok h" and l: "limits_ok (hpv_params h)"
  obtains t h' where "hpv_connection_lost R h p = Some (t, h')" "hpv_ok h'"
    "hpv_params h' = hpv_params h" "hpv_local_id h' = hpv_local_id h"
    "accounts_seq (view h) (tnt_trans t) (view h')"
    "\<not> view_is_active (view h') p"
proof -
  obtain ts v where d: "view_demote R (view h) p = (ts, v)" by (rule prod.exhaust)
  note g = hpv_good_demote [OF R h l d]
  have a: "\<not> view_is_active v p"
    using demote_effect [OF R hpv_okD(1,3) [OF h l] d] hpv_okD(1) [OF h l] by (auto simp: view_ok_def)
  have ok: "hpv_ok (h\<lparr>view := v\<rparr>)" using g by (simp add: hpv_good_def)
  obtain ps rg where c: "hpv_choose_passive_to_promote R (h\<lparr>view := v\<rparr>) =
      Some (ps, h\<lparr>view := v, hpv_rng := rg\<rparr>)"
    by (rule choose_passive_total [OF R ok]) simp
  show thesis
  proof (cases "ts = []")
    case True
    with d g a show thesis
      by (intro that [of tnt_default "h\<lparr>view := v\<rparr>"]) (simp_all add: hpv_connection_lost_def hpv_good_def)
  next
    case False
    with d g a c show thesis
      by (intro that [of "\<lparr>tnt_trans = ts, tnt_ticks = map Connect_tick ps\<rparr>"
            "h\<lparr>view := v, hpv_rng := rg\<rparr>"])
        (simp_all add: hpv_connection_lost_def hpv_good_def)
  qed
qed

lemma hpv_shuffle_frame: "hpv_shuffle R h = (s, h') \<Longrightarrow> \<exists>g. h' = h\<lparr>hpv_rng := g\<rparr>"
  by (fastforce simp: hpv_shuffle_def hpv_random_active_def Let_def
      dest: hpv_sample_frame split: prod.splits option.splits)

text \<open>The states a node can be in: every event, in any order.\<close>

inductive hpv_reachable ::
  "('g, 'k::linorder, 'a) rng_ops \<Rightarrow> 'k \<Rightarrow> params \<Rightarrow> ('g, 'k, 'a) hpv \<Rightarrow> bool"
  for R lid ps where
  start: "hpv_reachable R lid ps (hpv_new lid g ps)"
| message: "hpv_reachable R lid ps h \<Longrightarrow> message_ok msg \<Longrightarrow>
    hpv_apply R h p addr msg = (r, h') \<Longrightarrow> hpv_reachable R lid ps h'"
| lost: "hpv_reachable R lid ps h \<Longrightarrow> hpv_connection_lost R h p = Some (t, h') \<Longrightarrow>
    hpv_reachable R lid ps h'"
| established: "hpv_reachable R lid ps h \<Longrightarrow> info_ok info \<Longrightarrow>
    hpv_connection_established R h info = (t, h') \<Longrightarrow> hpv_reachable R lid ps h'"
| shuffled: "hpv_reachable R lid ps h \<Longrightarrow> hpv_shuffle R h = (s, h') \<Longrightarrow> hpv_reachable R lid ps h'"
| promoting: "hpv_reachable R lid ps h \<Longrightarrow> hpv_choose_passive_to_promote R h = Some (c, h') \<Longrightarrow>
    hpv_reachable R lid ps h'"

lemma hpv_new_ok: "hpv_ok (hpv_new lid g ps)"
  by (simp add: hpv_ok_def hpv_new_def view_new_ok) (simp add: view_new_def view_config_def)

lemma hpv_reachable_ok:
  assumes "hpv_reachable R lid ps h" "rng_ok R" "limits_ok ps"
  shows "hpv_ok h \<and> hpv_params h = ps \<and> hpv_local_id h = lid"
  using assms
proof (induction rule: hpv_reachable.induct)
  case (start g)
  then show ?case by (simp add: hpv_new_ok) (simp add: hpv_new_def)
next
  case (message h msg p addr r h')
  then have ok: "hpv_ok h" "hpv_params h = ps" "limits_ok (hpv_params h)" "hpv_local_id h = lid"
    by simp_all
  show ?case
  proof (cases r)
    case (Inl e)
    with message.hyps(3) have "h' = h" using hpv_apply_Inl [of R h p addr msg e h'] by simp
    with ok show ?thesis by simp
  next
    case (Inr t)
    have "hpv_good h t h'"
      using message.hyps(2,3) Inr by (intro hpv_apply_good [OF message.prems(1) ok(1,3)]) simp_all
    with ok show ?thesis by (simp add: hpv_good_def)
  qed
next
  case (lost h p t h')
  then have ok: "hpv_ok h" "hpv_params h = ps" "limits_ok (hpv_params h)" "hpv_local_id h = lid"
    by simp_all
  from connection_lost_total [OF lost.prems(1) ok(1,3), of p]
  obtain t1 h1 where "hpv_connection_lost R h p = Some (t1, h1)" "hpv_ok h1"
    "hpv_params h1 = hpv_params h" "hpv_local_id h1 = hpv_local_id h" by blast
  with lost.hyps(2) ok show ?case by simp
next
  case (established h info t h')
  then have ok: "hpv_ok h" "hpv_params h = ps" "limits_ok (hpv_params h)" "hpv_local_id h = lid"
    by simp_all
  obtain ts v where a: "view_add_active R (view h) info = (ts, v)" by (rule prod.exhaust)
  have "hpv_good h (tnt_from_transitions ts) (h\<lparr>view := v\<rparr>)"
    by (rule hpv_good_add_active [OF established.prems(1) ok(1,3) established.hyps(2) a])
  then show ?case
    using established.hyps(3) a ok by (auto simp: hpv_connection_established_def hpv_good_def)
next
  case (shuffled h s h')
  from hpv_shuffle_frame [OF shuffled.hyps(2)] obtain g where "h' = h\<lparr>hpv_rng := g\<rparr>" by blast
  with shuffled show ?case by simp
next
  case (promoting h c h')
  then show ?case
    by (auto simp: hpv_choose_passive_to_promote_def Let_def split: if_splits prod.splits)
qed

section \<open>Forwarding and sampling\<close>

lemma next_hop_props:
  assumes "rng_ok R" "hpv_next_hop R h p = (Some q, h')"
  shows "q \<noteq> p" "q \<in> active_ids (view h')"
proof -
  let ?xs = "filter (\<lambda>q. q \<noteq> p) (view_active (view h))"
  obtain o' g where c: "choose_one R (hpv_rng h) ?xs = (o', g)" by (rule prod.exhaust)
  then have o': "o' = Some q" "h' = h\<lparr>hpv_rng := g\<rparr>" using assms(2) by (simp_all add: hpv_next_hop_def)
  have "fst (choose_one R (hpv_rng h) ?xs) = Some q" using c o' by simp
  then have "q \<in> set ?xs" using assms(1) unfolding rng_ok_def by blast
  then show "q \<noteq> p" "q \<in> active_ids (view h')" by (simp_all add: o' view_active_def)
qed

lemma random_active_props:
  assumes "rng_ok R" "hpv_random_active R h = (o', h')"
  shows "(\<forall>q. o' = Some q \<longrightarrow> q \<in> active_ids (view h)) \<and> (\<exists>g. h' = h\<lparr>hpv_rng := g\<rparr>)"
proof -
  obtain o1 g where c: "choose_one R (hpv_rng h) (view_active (view h)) = (o1, g)"
    by (rule prod.exhaust)
  have "\<forall>q. fst (choose_one R (hpv_rng h) (view_active (view h))) = Some q \<longrightarrow>
      q \<in> set (view_active (view h))"
    using assms(1) unfolding rng_ok_def by blast
  with c assms(2) show ?thesis by (auto simp: hpv_random_active_def view_active_def)
qed

lemma All_tick_transitions [simp]: "All_tick rs m \<notin> set (tnt_ticks (tnt_from_transitions ts))"
  by (auto simp: ticks_from_transitions)

lemma All_tick_add_all_passive:
  "hpv_add_all_passive R acc h infos = (t, h') \<Longrightarrow> All_tick rs m \<in> set (tnt_ticks t) \<Longrightarrow>
     All_tick rs m \<in> set (tnt_ticks acc)"
proof (induction infos arbitrary: acc h)
  case (Cons info infos)
  obtain ts v where "view_add_passive R (view h) info = (ts, v)" by (rule prod.exhaust)
  with Cons.IH [of "tnt_mul acc (tnt_from_transitions ts)" "h\<lparr>view := v\<rparr>"] Cons.prems
  show ?case by simp
qed simp

lemma forward_tick_props:
  assumes "rng_ok R" "hpv_next_hop R h p = (hop, h')" "All_tick rs m \<in> set (forward_tick hop msg)"
  shows "p \<notin> set rs \<and> length rs = 1 \<and> set rs \<subseteq> active_ids (view h') \<and> m = msg"
proof (cases hop)
  case (Some q)
  then show ?thesis
    using assms(3) next_hop_props [OF assms(1), of h p q h'] assms(2) by (auto simp: forward_tick_def)
qed (use assms(3) in \<open>simp add: forward_tick_def\<close>)

text \<open>The peers of a list of entries.\<close>

lemma entries_entry: "entries_ok m \<Longrightarrow> (k, i) \<in> set m \<Longrightarrow> bmap_get m k = Some i \<and> peer_id i = k"
  by (simp add: entries_ok_def bmap_get_in)

lemma entries_infos:
  assumes "entries_ok m" "i \<in> set (bmap_values m)"
  shows "peer_id i \<in> ids m"
proof -
  from assms(2) obtain k where "(k, i) \<in> set m" by (auto simp: bmap_values_def)
  with assms(1) have "bmap_get m k = Some i" "peer_id i = k" by (auto dest: entries_entry)
  then show ?thesis by (auto dest: ids_get)
qed

lemma entries_distinct:
  assumes "entries_ok m"
  shows "distinct (map peer_id (bmap_values m))"
proof -
  have "map peer_id (bmap_values m) = bmap_keys m"
    using entries_entry [OF assms] by (auto simp: bmap_values_def bmap_keys_def)
  with assms show ?thesis by (simp add: bmap_keys_distinct)
qed

lemma sequence_distinct:
  fixes m :: "('k::linorder, ('k, 'a) partial_peer_info) bmap"
  assumes "entries_ok m"
  shows "distinct (map peer_id (List.map_filter peer_info_sequence (bmap_values m)))"
proof -
  have "map peer_id (List.map_filter peer_info_sequence xs) =
      map peer_id (filter (\<lambda>x. peer_info_sequence x \<noteq> None) xs)" for xs :: "('k, 'a) partial_peer_info list"
    by (induction xs) (auto simp: List.map_filter_def dest: sequence_props)
  then show ?thesis using entries_distinct [OF assms] by (simp only: distinct_map_filter)
qed

lemma sub_distinct:
  assumes "mset ys \<subseteq># mset xs" "distinct (map f xs)"
  shows "distinct (map f ys)"
proof -
  have "mset (map f ys) \<subseteq># mset (map f xs)" using assms(1) by (simp add: image_mset_subseteq_mono)
  then have "count (mset (map f ys)) a \<le> 1" for a
    using assms(2) unfolding distinct_count_atmost_1
    by (metis le_zero_eq mset_subset_eq_count nle_le zero_le)
  then show ?thesis unfolding distinct_count_atmost_1
    by (metis count_greater_eq_one_iff count_mset_0_iff le_antisym set_mset_mset)
qed

lemma sample_props:
  assumes R: "rng_ok R" and h: "hpv_ok h" and r: "hpv_sample R h sz = (smp, h')"
  shows "length smp \<le> sz \<and> distinct (map peer_id smp)
    \<and> peer_id ` set smp \<subseteq> active_ids (view h) \<union> passive_ids (view h)"
proof -
  let ?as = "List.map_filter peer_info_sequence (view_active_info (view h))"
  let ?ps = "view_passive_info (view h)"
  have v: "entries_ok (active (view h))" "entries_ok (passive (view h))"
    "active_ids (view h) \<inter> passive_ids (view h) = {}"
    using h by (simp_all add: hpv_ok_def view_ok_def)
  obtain act g where a: "choose_multiple R (hpv_rng h) ?as sz = (act, g)" by (rule prod.exhaust)
  obtain pas g' where p: "choose_multiple R g ?ps (sz - length act) = (pas, g')" by (rule prod.exhaust)
  note A = choose_multiple_props [OF R a] and P = choose_multiple_props [OF R p]
  have act: "distinct (map peer_id act)" "peer_id ` set act \<subseteq> active_ids (view h)"
  proof -
    show "distinct (map peer_id act)"
      using A(1) sequence_distinct [OF v(1)] unfolding view_active_info_def by (rule sub_distinct)
    have "peer_id i \<in> active_ids (view h)" if "i \<in> set ?as" for i
      using that entries_infos [OF v(1)] by (auto simp: set_map_filter view_active_info_def dest: sequence_props)
    then show "peer_id ` set act \<subseteq> active_ids (view h)" using A(2) by blast
  qed
  have pas: "distinct (map peer_id pas)" "peer_id ` set pas \<subseteq> passive_ids (view h)"
    using sub_distinct [OF P(1)] entries_distinct [OF v(2)] P(2) entries_infos [OF v(2)]
    by (auto simp: view_passive_info_def)
  have "smp = act \<or> smp = act @ pas" using r a p by (auto simp: hpv_sample_def split: if_splits)
  moreover have "distinct (map peer_id (act @ pas))"
    using act pas v(3) unfolding map_append distinct_append set_map by blast
  moreover have "length act \<le> sz" "length (act @ pas) \<le> sz" using A(3) P(3) by simp_all
  moreover have "peer_id ` set (act @ pas) \<subseteq> active_ids (view h) \<union> passive_ids (view h)"
    unfolding set_append image_Un using act(2) pas(2) by blast
  ultimately show ?thesis using act by (elim disjE) auto
qed

section \<open>A concrete node\<close>

definition example_params :: params where
  "example_params =
     \<lparr>p_max_active = 2, p_max_passive = 2, p_active_random_walk_length = 3,
      p_passive_random_walk_length = 1, p_shuffle_sample_size = 4, p_shuffle_interval = 30,
      p_promote_interval = 30\<rparr>"

text \<open>Node 0 after peer 1 and then peer 2 joined.\<close>

definition example_hpv :: "(unit, nat, nat) hpv" where
  "example_hpv =
     snd (hpv_apply first_rng
       (snd (hpv_apply first_rng (hpv_new 0 () example_params) 1 1 (Join (peer_advertisement_new 1))))
       2 2 (Join (peer_advertisement_new 2)))"

lemma example_limits [simp]: "limits_ok example_params"
  by (simp add: limits_ok_def example_params_def)

lemma example_reachable: "hpv_reachable first_rng 0 example_params example_hpv"
  unfolding example_hpv_def
  by (rule hpv_reachable.message [OF hpv_reachable.message [OF hpv_reachable.start _ surjective_pairing]
        _ surjective_pairing]) simp_all

lemma example_hpv_ok: "hpv_ok example_hpv" "hpv_params example_hpv = example_params"
  using hpv_reachable_ok [OF example_reachable first_rng_ok example_limits] by simp_all

section \<open>Properties\<close>

text \<open>
  C3: in every state a node can reach, by any sequence of messages, lost and established
  connections, shuffles and promotions, the partial view is well formed with the configured
  limits, and neither the loss of a connection nor the choice of peers to promote fails on the
  assertion that the active peers are within the limit. The peers chosen fit the free slots.
\<close>

theorem hpv_reachable_safe:
  assumes "hpv_reachable R lid ps h" "rng_ok R" "limits_ok ps"
  shows "view_ok (view h) \<and> view_config (view h) = (lid, p_max_active ps, p_max_passive ps)
    \<and> (\<exists>cs h'. hpv_choose_passive_to_promote R h = Some (cs, h')
         \<and> length cs + view_num_active (view h) \<le> p_max_active ps)
    \<and> (\<exists>t h'. hpv_connection_lost R h p = Some (t, h') \<and> \<not> view_is_active (view h') p)"
proof -
  have ok: "hpv_ok h" "hpv_params h = ps" "hpv_local_id h = lid" "limits_ok (hpv_params h)"
    using hpv_reachable_ok [OF assms] assms(3) by simp_all
  have "view_num_active (view h) \<le> p_max_active ps"
    using ok by (auto simp: hpv_ok_def view_ok_def view_config_def view_num_active_def)
  moreover obtain cs g where "hpv_choose_passive_to_promote R h = Some (cs, h\<lparr>hpv_rng := g\<rparr>)"
    "length cs = min (p_max_active ps - view_num_active (view h)) (view_num_passive (view h))"
    using choose_passive_total [OF assms(2) ok(1)] ok(2) by blast
  moreover obtain t h' where "hpv_connection_lost R h p = Some (t, h')" "\<not> view_is_active (view h') p"
    using connection_lost_total [OF assms(2) ok(1,4)] by blast
  ultimately show ?thesis using ok by (auto simp: hpv_ok_def)
qed

theorem hpv_reachable_safe_witness:
  "view_ok (view example_hpv)
    \<and> (\<exists>t h'. hpv_connection_lost first_rng example_hpv 2 = Some (t, h') \<and> \<not> view_is_active (view h') 2)"
  using hpv_reachable_safe [OF example_reachable first_rng_ok example_limits, of 2] by blast

text \<open>
  C5: applying a message keeps the state well formed, and what it reports accounts for the
  change of the view: whoever became active is reported as promoted, whoever ceased to be
  active as demoted or evicted, and whoever is no longer known as evicted. Every demoted peer
  is sent a disconnect message and every evicted one is forgotten. The only error, a join from
  an active peer, leaves the state as it was.
\<close>

theorem hpv_apply_accounts:
  assumes "rng_ok R" "hpv_ok h" "limits_ok (hpv_params h)" "message_ok msg"
  shows "case hpv_apply R h p addr msg of
      (Inl e, h') \<Rightarrow> h' = h \<and> view_is_active (view h) p
    | (Inr t, h') \<Rightarrow> hpv_ok h' \<and> accounts_seq (view h) (tnt_trans t) (view h') \<and> notifies t"
proof -
  obtain r h' where r: "hpv_apply R h p addr msg = (r, h')" by (rule prod.exhaust)
  show ?thesis
  proof (cases r)
    case (Inl e)
    then show ?thesis using hpv_apply_Inl [of R h p addr msg e h'] r by simp
  next
    case (Inr t)
    then show ?thesis using hpv_apply_good [OF assms, of p addr t h'] r by (simp add: hpv_good_def)
  qed
qed

theorem hpv_apply_accounts_witness:
  "case hpv_apply first_rng example_hpv 3 3 (Join (peer_advertisement_new 3)) of
      (Inl e, h') \<Rightarrow> h' = example_hpv \<and> view_is_active (view example_hpv) 3
    | (Inr t, h') \<Rightarrow> hpv_ok h' \<and> accounts_seq (view example_hpv) (tnt_trans t) (view h') \<and> notifies t"
  by (rule hpv_apply_accounts [OF first_rng_ok example_hpv_ok(1)]) (simp_all add: example_hpv_ok(2))

text \<open>
  C24: forwarding. A message that is passed on goes to active peers only and never back to its
  sender. A join starts a random walk of the configured length to all other active peers; a
  walk goes on to a single peer with its time to live decremented, and a shuffle only while
  its time to live is positive.
\<close>

theorem hpv_apply_forwards:
  assumes R: "rng_ok R" and r: "hpv_apply R h p addr msg = (Inr t, h')"
    and a: "All_tick rs m \<in> set (tnt_ticks t)"
  shows "p \<notin> set rs \<and> set rs \<subseteq> set (view_active (view h')) \<and>
    (case msg of
       Join adv \<Rightarrow> m = ForwardJoin (peer_info_from p adv addr) (p_active_random_walk_length (hpv_params h))
     | ForwardJoin joined ttl \<Rightarrow> length rs = 1 \<and> m = ForwardJoin joined (ttl - 1)
     | Shuffle origin peers ttl \<Rightarrow>
         length rs = 1 \<and> ttl > 0 \<and> (\<exists>o'. m = Shuffle o' peers (ttl - 1) \<and> peer_id o' = peer_id origin)
     | _ \<Rightarrow> False)"
proof (cases msg)
  case (Join adv)
  then show ?thesis using r a
    by (auto simp: hpv_apply_join_def Let_def hpv_broadcast_recipients_def split: prod.splits if_splits)
next
  case (ForwardJoin joined ttl)
  then show ?thesis using r a
    by (auto simp: hpv_apply_forward_join_def Let_def view_active_def split: prod.splits if_splits
        dest!: forward_tick_props [OF R])
next
  case (Shuffle origin peers ttl)
  then show ?thesis using r a
    by (auto simp: hpv_apply_shuffle_def Let_def view_active_def split: prod.splits if_splits
        dest!: forward_tick_props [OF R] All_tick_add_all_passive)
qed (use r a in \<open>auto simp: hpv_apply_neighbour_def Let_def split: prod.splits if_splits
    dest!: All_tick_add_all_passive\<close>)

theorem hpv_apply_forwards_witness:
  "3 \<notin> set [2::nat] \<and> set [2] \<subseteq>
     set (view_active (view (snd (hpv_apply first_rng example_hpv 3 3 (Join (peer_advertisement_new 3))))))"
proof -
  let ?r = "hpv_apply first_rng example_hpv 3 3 (Join (peer_advertisement_new 3))"
  let ?m = "ForwardJoin (peer_info_from 3 (peer_advertisement_new 3) 3) 3 :: (nat, nat) message"
  obtain t where t: "?r = (Inr t, snd ?r)" "All_tick [2] ?m \<in> set (tnt_ticks t)"
  proof
    show "?r = (Inr (projr (fst ?r)), snd ?r)" by code_simp
    show "All_tick [2] ?m \<in> set (tnt_ticks (projr (fst ?r)))" by code_simp
  qed
  from hpv_apply_forwards [OF first_rng_ok t] show ?thesis by simp
qed

text \<open>
  C27: a shuffle goes to an active peer and carries at most the configured number of peers, all
  different, all known to the node, and never the recipient itself.
\<close>

theorem hpv_shuffle_sample:
  assumes "rng_ok R" "hpv_ok h" "hpv_shuffle R h = (Some s, h')"
  shows "view_is_active (view h) (recipient s) \<and> sample s \<noteq> []
    \<and> length (sample s) \<le> p_shuffle_sample_size (hpv_params h)
    \<and> distinct (map peer_id (sample s)) \<and> recipient s \<notin> peer_id ` set (sample s)
    \<and> peer_id ` set (sample s) \<subseteq> set (view_known (view h))"
proof -
  obtain o1 h1 where a: "hpv_random_active R h = (o1, h1)" by (rule prod.exhaust)
  obtain ps h2 where b: "hpv_sample R h1 (p_shuffle_sample_size (hpv_params h1)) = (ps, h2)"
    by (rule prod.exhaust)
  obtain q where q: "o1 = Some q" "q \<in> active_ids (view h)" and h1: "\<exists>g. h1 = h\<lparr>hpv_rng := g\<rparr>"
    using random_active_props [OF assms(1) a] assms(3) a by (cases o1) (auto simp: hpv_shuffle_def)
  then have f: "hpv_ok h1" "view h1 = view h" "hpv_params h1 = hpv_params h" using assms(2) by auto
  have s: "recipient s = q" "sample s = filter (\<lambda>i. peer_id i \<noteq> q) ps" "sample s \<noteq> []"
    using assms(3) a b q(1) by (auto simp: hpv_shuffle_def Let_def split: if_splits)
  have l: "length (sample s) \<le> length ps" by (simp add: s(2))
  note p = sample_props [OF assms(1) f(1) b]
  have "length (sample s) \<le> p_shuffle_sample_size (hpv_params h)"
    using l p f(3) by (metis order_trans)
  then show ?thesis
    using p q(2) f s
    by (auto simp: view_known_def view_active_def view_passive_def distinct_map_filter)
qed

theorem hpv_shuffle_sample_witness:
  "view_is_active (view example_hpv) (recipient (the (fst (hpv_shuffle first_rng example_hpv))))
    \<and> sample (the (fst (hpv_shuffle first_rng example_hpv))) \<noteq> []"
proof -
  have "hpv_shuffle first_rng example_hpv =
      (Some (the (fst (hpv_shuffle first_rng example_hpv))), snd (hpv_shuffle first_rng example_hpv))"
    by code_simp
  from hpv_shuffle_sample [OF first_rng_ok example_hpv_ok(1) this] show ?thesis by simp
qed

section \<open>A walk that does not end\<close>

text \<open>
  A forwarded join whose time to live has run out is meant to end in the passive view. When
  the joined peer is already active, or is the node itself, adding it to the passive view
  does nothing, and the message is passed on again with a time to live of zero.
\<close>

lemma forward_join_zero_ttl:
  assumes "view_is_active (view h) (peer_id joined) \<or> peer_id joined = local_id (view h)"
    and "local_id (view h) = hpv_local_id h"
  shows "\<exists>hop g. hpv_apply R h p addr (ForwardJoin joined 0) =
    (Inr (tnt_from_ticks (forward_tick hop (ForwardJoin joined 0))), h\<lparr>hpv_rng := g\<rparr>)
    \<and> hpv_next_hop R h p = (hop, h\<lparr>hpv_rng := g\<rparr>)"
proof -
  obtain hop h' where n: "hpv_next_hop R h p = (hop, h')" by (rule prod.exhaust)
  from hpv_next_hop_frame [OF this] obtain g where "h' = h\<lparr>hpv_rng := g\<rparr>" by blast
  moreover have "view_add_passive R (view h) joined = ([], view h)"
    using assms by (auto simp: view_add_passive_def)
  moreover have "tnt_extend (tnt_from_transitions []) ks = tnt_from_ticks ks" for ks :: "('b, 'c) tick list"
    by (simp add: tnt_extend_def tnt_from_transitions_def tnt_from_ticks_def List.map_filter_def)
  ultimately show ?thesis
    using assms n by (auto simp: hpv_apply_forward_join_def)
qed

end
