(* ===== verification/Gossip.thy ===== *)
theory Gossip
  imports Hpv "HOL-Library.Word"
begin

text \<open>
  Gossip, \<open>librad/src/net/protocol/broadcast.rs\<close>, and the interpretation of its results and
  of the ticks of the membership protocol: \<open>membership.rs\<close> (ticks to tocks), \<open>tick.rs\<close>
  (running a tock), \<open>accept.rs\<close> (periodic tasks), \<open>control.rs\<close> (announcements) and \<open>io.rs\<close>
  (discovery).

  Parameters of the model: the seen filter (a bloom filter of another crate), the local
  storage and its rate limits (the trait \<open>LocalStorage\<close>, \<open>RateLimited\<close>), random sequence
  numbers, and the network. What gossip needs of membership is the locale
  \<open>broadcast_membership\<close>, which the membership protocol interprets.
\<close>

section \<open>Messages\<close>

record 'sig ext =
  seqno :: "64 word"
  hop :: "64 word"
  msg_sig :: "'sig option"

datatype ('k, 'a, 'p, 'sig) gossip_message =
    Have "('k, 'a) peer_info" 'p "'sig ext option"
  | Want "('k, 'a) peer_info" 'p "'sig ext option"

definition ext_new :: "64 word \<Rightarrow> 'sig ext" where
  "ext_new n = \<lparr>seqno = n, hop = 0, msg_sig = None\<rparr>"

text \<open>\<open>saturating_add(1)\<close> on \<open>usize\<close>.\<close>

definition ext_next_hop :: "'sig ext \<Rightarrow> 'sig ext" where
  "ext_next_hop e = e\<lparr>hop := (if hop e = - 1 then hop e else hop e + 1)\<rparr>"

definition message_have :: "64 word \<Rightarrow> ('k, 'a) peer_info \<Rightarrow> 'p \<Rightarrow> ('k, 'a, 'p, 'sig) gossip_message" where
  "message_have n origin val = Have origin val (Some (ext_new n))"

definition message_want :: "64 word \<Rightarrow> ('k, 'a) peer_info \<Rightarrow> 'p \<Rightarrow> ('k, 'a, 'p, 'sig) gossip_message" where
  "message_want n origin val = Want origin val (Some (ext_new n))"

fun message_origin :: "('k, 'a, 'p, 'sig) gossip_message \<Rightarrow> ('k, 'a) peer_info" where
  "message_origin (Have origin _ _) = origin"
| "message_origin (Want origin _ _) = origin"

fun message_payload :: "('k, 'a, 'p, 'sig) gossip_message \<Rightarrow> 'p" where
  "message_payload (Have _ val _) = val"
| "message_payload (Want _ val _) = val"

fun message_ext :: "('k, 'a, 'p, 'sig) gossip_message \<Rightarrow> 'sig ext option" where
  "message_ext (Have _ _ e) = e"
| "message_ext (Want _ _ e) = e"

definition message_hop_count :: "('k, 'a, 'p, 'sig) gossip_message \<Rightarrow> 64 word option" where
  "message_hop_count m = map_option hop (message_ext m)"

text \<open>What \<open>Hash\<close> feeds to the hasher: the discriminant, the origin, and the sequence number
  or, for a message of an old client, the payload.\<close>

type_synonym ('k, 'p) message_key = "bool \<times> 'k \<times> ('p + 64 word)"

definition message_hash :: "('k, 'a, 'p, 'sig) gossip_message \<Rightarrow> ('k, 'p) message_key" where
  "message_hash m =
     ((case m of Have _ _ _ \<Rightarrow> True | Want _ _ _ \<Rightarrow> False), peer_id (message_origin m),
      (case message_ext m of None \<Rightarrow> Inl (message_payload m) | Some e \<Rightarrow> Inr (seqno e)))"

datatype 'p put_result = Applied 'p | Stale | Uninteresting | Put_Error

datatype 'k limit = Errors_limit | Wants_limit 'k

datatype ('k, 'a, 'p) gossip_event = Put_event "('k, 'a) peer_info" 'p "'p put_result"

datatype ('k, 'a, 'p, 'sig) gossip_error = Unsolicited 'k "('k, 'a, 'p, 'sig) gossip_message"

datatype ('k, 'a, 'p, 'sig) rpc =
    Membership_rpc "('k, 'a) message"
  | Gossip_rpc "('k, 'a, 'p, 'sig) gossip_message"

datatype ('k, 'a, 'p, 'sig) tock =
    SendConnected 'k "('k, 'a, 'p, 'sig) rpc"
  | AttemptSend "('k, 'a) peer_info" "('k, 'a, 'p, 'sig) rpc"
  | Connect_tock "('k, 'a) peer_info" "('k, 'a, 'p, 'sig) rpc"
  | Disconnect_tock 'k

section \<open>Applying a gossip message\<close>

record ('f, 's, 'g, 'k, 'a, 'p) gossip_env =
  filter_contains :: "'f \<Rightarrow> ('k, 'p) message_key \<Rightarrow> bool"
  filter_insert :: "'f \<Rightarrow> ('k, 'p) message_key \<Rightarrow> 'f"
  storage_put :: "'s \<Rightarrow> 'k \<times> 'a list \<Rightarrow> 'p \<Rightarrow> 'p put_result \<times> 's"
  storage_ask :: "'s \<Rightarrow> 'p \<Rightarrow> bool \<times> 's"
  is_rate_limit_breached :: "'s \<Rightarrow> 'k limit \<Rightarrow> bool \<times> 's"
  random_seqno :: "'g \<Rightarrow> 64 word \<times> 'g"

record ('f, 's, 'g) gossip_state =
  storage :: 's
  seen :: 'f
  seqs :: 'g

definition gossip_seen ::
  "('f, 's, 'g, 'k, 'a, 'p) gossip_env \<Rightarrow> ('f, 's, 'g) gossip_state \<Rightarrow> ('k, 'a, 'p, 'sig) gossip_message \<Rightarrow>
   bool \<times> ('f, 's, 'g) gossip_state" where
  "gossip_seen E st m =
     (if filter_contains E (seen st) (message_hash m) then (True, st)
      else (False, st\<lparr>seen := filter_insert E (seen st) (message_hash m)\<rparr>))"

text \<open>The closure \<open>broadcast\<close>, over the trait \<open>Membership\<close>.\<close>

definition broadcast ::
  "('k option \<Rightarrow> 'k list) \<Rightarrow> ('k, 'a, 'p, 'sig) gossip_message \<Rightarrow> 'k option \<Rightarrow>
   ('k, 'a, 'p, 'sig) tock list" where
  "broadcast members msg exclude = map (\<lambda>to. SendConnected to (Gossip_rpc msg)) (members exclude)"

definition fresh_seqno ::
  "('f, 's, 'g, 'k, 'a, 'p) gossip_env \<Rightarrow> ('f, 's, 'g) gossip_state \<Rightarrow> 64 word \<times> ('f, 's, 'g) gossip_state" where
  "fresh_seqno E st = (let (n, g) = random_seqno E (seqs st) in (n, st\<lparr>seqs := g\<rparr>))"

text \<open>\<open>Some(ext.unwrap_or_default().next_hop())\<close>\<close>

definition relay_ext ::
  "('f, 's, 'g, 'k, 'a, 'p) gossip_env \<Rightarrow> ('f, 's, 'g) gossip_state \<Rightarrow> 'sig ext option \<Rightarrow>
   'sig ext option \<times> ('f, 's, 'g) gossip_state" where
  "relay_ext E st e =
     (case e of
        Some x \<Rightarrow> (Some (ext_next_hop x), st)
      | None \<Rightarrow> let (n, st') = fresh_seqno E st in (Some (ext_next_hop (ext_new n)), st'))"

definition gossip_apply_have ::
  "('f, 's, 'g, 'k, 'a, 'p) gossip_env \<Rightarrow> ('k option \<Rightarrow> 'k list) \<Rightarrow> ('k, 'a) peer_info \<Rightarrow>
   ('f, 's, 'g) gossip_state \<Rightarrow> 'k \<Rightarrow> ('k, 'a) peer_info \<Rightarrow> 'p \<Rightarrow> 'sig ext option \<Rightarrow>
   (('k, 'a, 'p) gossip_event option \<times> ('k, 'a, 'p, 'sig) tock list) \<times> ('f, 's, 'g) gossip_state" where
  "gossip_apply_have E members info st remote_id origin val e =
     (let (res, s) = storage_put E (storage st) (peer_info_into_addrs origin) val;
          st1 = st\<lparr>storage := s\<rparr>;
          event = Put_event origin val res in
      case res of
        Applied ap \<Rightarrow>
          let (n, st2) = fresh_seqno E st1
          in ((Some event, broadcast members (message_have n info ap) (Some remote_id)), st2)
      | Put_Error \<Rightarrow>
          let (e', st2) = relay_ext E st1 e;
              fwd = broadcast members (Have origin val e') (Some remote_id);
              (breached, s') = is_rate_limit_breached E (storage st2) Errors_limit;
              st3 = st2\<lparr>storage := s'\<rparr> in
          if breached then ((Some event, fwd), st3)
          else
            let (n, st4) = fresh_seqno E st3
            in ((Some event, fwd @ broadcast members (message_want n info val) None), st4)
      | Uninteresting \<Rightarrow>
          let (e', st2) = relay_ext E st1 e
          in ((Some event, broadcast members (Have origin val e') (Some remote_id)), st2)
      | Stale \<Rightarrow> ((Some event, []), st1))"

definition gossip_apply_want ::
  "('f, 's, 'g, 'k, 'a, 'p) gossip_env \<Rightarrow> ('k option \<Rightarrow> 'k list) \<Rightarrow> ('k, 'a) peer_info \<Rightarrow>
   ('f, 's, 'g) gossip_state \<Rightarrow> 'k \<Rightarrow> ('k, 'a) peer_info \<Rightarrow> 'p \<Rightarrow> 'sig ext option \<Rightarrow>
   (('k, 'a, 'p) gossip_event option \<times> ('k, 'a, 'p, 'sig) tock list) \<times> ('f, 's, 'g) gossip_state" where
  "gossip_apply_want E members info st remote_id origin val e =
     (let (breached, s) = is_rate_limit_breached E (storage st) (Wants_limit (peer_id origin));
          st1 = st\<lparr>storage := s\<rparr> in
      if breached then ((None, []), st1)
      else
        let (have, s') = storage_ask E (storage st1) val; st2 = st1\<lparr>storage := s'\<rparr> in
        if have then
          let (n, st3) = fresh_seqno E st2; reply = message_have n info val in
          ((None, if peer_id origin = remote_id then [SendConnected remote_id (Gossip_rpc reply)]
                  else broadcast members reply (Some remote_id)), st3)
        else
          let (e', st3) = relay_ext E st2 e
          in ((None, broadcast members (Want origin val e') (Some remote_id)), st3))"

definition gossip_apply ::
  "('f, 's, 'g, 'k, 'a, 'p) gossip_env \<Rightarrow> ('k option \<Rightarrow> 'k list) \<Rightarrow> ('k \<Rightarrow> bool) \<Rightarrow>
   ('k, 'a) peer_info \<Rightarrow> ('f, 's, 'g) gossip_state \<Rightarrow> 'k \<Rightarrow> ('k, 'a, 'p, 'sig) gossip_message \<Rightarrow>
   (('k, 'a, 'p, 'sig) gossip_error
      + (('k, 'a, 'p) gossip_event option \<times> ('k, 'a, 'p, 'sig) tock list)) \<times> ('f, 's, 'g) gossip_state" where
  "gossip_apply E members is_member info st remote_id msg =
     (let (was_seen, st1) = gossip_seen E st msg in
      if was_seen then (Inr (None, []), st1)
      else if \<not> is_member remote_id then (Inl (Unsolicited remote_id msg), st1)
      else case msg of
        Have origin val e \<Rightarrow>
          let (r, st2) = gossip_apply_have E members info st1 remote_id origin val e in (Inr r, st2)
      | Want origin val e \<Rightarrow>
          let (r, st2) = gossip_apply_want E members info st1 remote_id origin val e in (Inr r, st2))"

section \<open>What gossip relies on\<close>

locale broadcast_membership =
  fixes members :: "'m \<Rightarrow> 'k option \<Rightarrow> 'k list"
    and is_member :: "'m \<Rightarrow> 'k \<Rightarrow> bool"
    and ok :: "'m \<Rightarrow> bool"
  assumes members_distinct: "ok m \<Longrightarrow> distinct (members m exclude)"
    and members_member: "ok m \<Longrightarrow> p \<in> set (members m exclude) \<Longrightarrow> is_member m p"
    and members_exclude: "set (members m (Some p)) = set (members m None) - {p}"
begin

text \<open>A broadcast reaches every member but the excluded one, each once.\<close>

lemma broadcast_once:
  "ok m \<Longrightarrow> distinct (broadcast (members m) msg exclude)"
  by (simp add: broadcast_def distinct_map members_distinct inj_on_def)

lemma broadcast_recipients:
  "SendConnected p r \<in> set (broadcast (members m) msg (Some q)) \<longleftrightarrow>
     r = Gossip_rpc msg \<and> p \<noteq> q \<and> p \<in> set (members m None)"
  by (auto simp: broadcast_def members_exclude)

text \<open>
  What is sent in answer to a message: only gossip messages to members, or to the sender. The
  sender is only sent the request for retransmission, or the answer to its own request.
\<close>

lemma have_tocks:
  assumes "gossip_apply_have E (members m) info st remote origin val e = ((ev, tocks), st')"
    and "t \<in> set tocks"
  shows "\<exists>p msg. t = SendConnected p (Gossip_rpc msg) \<and> p \<in> set (members m None)
    \<and> (p = remote \<longrightarrow> (\<exists>n. msg = message_want n info val))"
  using assms
  by (auto simp: gossip_apply_have_def Let_def broadcast_def members_exclude
      split: put_result.splits prod.splits if_splits) blast

lemma want_tocks:
  assumes "gossip_apply_want E (members m) info st remote origin val e = ((ev, tocks), st')"
    and "t \<in> set tocks"
  shows "\<exists>p msg. t = SendConnected p (Gossip_rpc msg) \<and> (p \<in> set (members m None) \<or> p = remote)
    \<and> (p = remote \<longrightarrow> peer_id origin = remote \<and> (\<exists>n. msg = message_have n info val))"
  using assms
  by (auto simp: gossip_apply_want_def Let_def broadcast_def members_exclude
      split: prod.splits if_splits)

lemma apply_tocks:
  assumes "ok m"
    and r: "gossip_apply E (members m) (is_member m) info st remote msg = (Inr (ev, tocks), st')"
    and t: "t \<in> set tocks"
  shows "\<exists>p out. t = SendConnected p (Gossip_rpc out) \<and> is_member m p
    \<and> (p = remote \<longrightarrow> (\<exists>n. out = message_want n info (message_payload msg))
         \<or> peer_id (message_origin msg) = remote \<and> (\<exists>n. out = message_have n info (message_payload msg)))"
proof -
  have rem: "is_member m remote" and "tocks \<noteq> []"
    using r t by (auto simp: gossip_apply_def Let_def split: prod.splits if_splits)
  show ?thesis
  proof (cases msg)
    case (Have origin val e)
    then obtain st1 where "gossip_apply_have E (members m) info st1 remote origin val e = ((ev, tocks), st')"
      using r t by (auto simp: gossip_apply_def Let_def split: prod.splits if_splits)
    from have_tocks [OF this t] show ?thesis
      using members_member [OF assms(1)] Have by fastforce
  next
    case (Want origin val e)
    then obtain st1 where "gossip_apply_want E (members m) info st1 remote origin val e = ((ev, tocks), st')"
      using r t by (auto simp: gossip_apply_def Let_def split: prod.splits if_splits)
    from want_tocks [OF this t] show ?thesis
      using members_member [OF assms(1)] rem Want by fastforce
  qed
qed

end

text \<open>\<open>impl broadcast::Membership for membership::Hpv\<close>\<close>

definition hpv_members :: "('g, 'k, 'a) hpv \<Rightarrow> 'k option \<Rightarrow> 'k list" where
  "hpv_members h exclude = hpv_broadcast_recipients h exclude"

definition hpv_is_member :: "('g, 'k, 'a) hpv \<Rightarrow> 'k \<Rightarrow> bool" where
  "hpv_is_member h peer = view_is_known (view h) peer"

lemma hpv_members_laws:
  "hpv_ok h \<Longrightarrow> distinct (hpv_members h exclude)"
  "p \<in> set (hpv_members h exclude) \<Longrightarrow> hpv_is_member h p"
  "set (hpv_members h (Some q)) = set (hpv_members h None) - {q}"
  by (auto simp: hpv_ok_def view_ok_def hpv_members_def hpv_is_member_def hpv_broadcast_recipients_def
      view_active_def view_is_known_def bmap_keys_distinct)

interpretation hpv_broadcast: broadcast_membership hpv_members hpv_is_member hpv_ok
  by unfold_locales (auto simp: hpv_members_laws)

section \<open>Relaying\<close>

lemma next_hop_hash [simp]:
  "seqno (ext_next_hop e) = seqno e" "msg_sig (ext_next_hop e) = msg_sig e"
  by (simp_all add: ext_next_hop_def)

lemma next_hop_count:
  "unat (hop (ext_next_hop e)) = min (unat (hop e) + 1) (2 ^ 64 - 1)"
proof (cases "hop e = - 1")
  case True
  then show ?thesis
    by (simp add: ext_next_hop_def unsigned_minus_1_eq_mask mask_eq_exp_minus_1)
next
  case False
  then have "1 + hop e \<noteq> 0" by (metis add.commute add_eq_0_iff)
  then have "unat (hop e + 1) = Suc (unat (hop e))" using unatSuc [of "hop e"] by (simp add: add.commute)
  moreover have "unat (hop e + 1) < 2 ^ 64" using unsigned_less [of "hop e + 1"] by simp
  ultimately show ?thesis using False by (simp add: ext_next_hop_def)
qed

text \<open>
  What a message is relayed as: the same origin and payload, with the hop count of its
  extension incremented. An old message without one gets a fresh sequence number.
\<close>

definition relayed :: "('k, 'a, 'p, 'sig) gossip_message \<Rightarrow> ('k, 'a, 'p, 'sig) gossip_message \<Rightarrow> bool" where
  "relayed m m' =
     (case (m, m') of
        (Have i v e, Have i' v' e') \<Rightarrow>
          i' = i \<and> v' = v \<and> (\<exists>x. e' = Some (ext_next_hop x) \<and> (\<forall>y. e = Some y \<longrightarrow> x = y))
      | (Want i v e, Want i' v' e') \<Rightarrow>
          i' = i \<and> v' = v \<and> (\<exists>x. e' = Some (ext_next_hop x) \<and> (\<forall>y. e = Some y \<longrightarrow> x = y))
      | _ \<Rightarrow> False)"

lemma relay_ext_props:
  "relay_ext E st e = (e', st') \<Longrightarrow>
     (\<exists>x. e' = Some (ext_next_hop x) \<and> (\<forall>y. e = Some y \<longrightarrow> x = y)) \<and> seen st' = seen st"
  by (auto simp: relay_ext_def fresh_seqno_def Let_def split: option.splits prod.splits)

lemma fresh_seqno_seen: "fresh_seqno E st = (n, st') \<Longrightarrow> seen st' = seen st"
  by (auto simp: fresh_seqno_def split: prod.splits)

lemma apply_have_seen:
  "gossip_apply_have E ms info st remote origin val e = (r, st') \<Longrightarrow> seen st' = seen st"
  by (auto simp: gossip_apply_have_def Let_def dest!: relay_ext_props fresh_seqno_seen
      split: put_result.splits prod.splits if_splits)

lemma apply_want_seen:
  "gossip_apply_want E ms info st remote origin val e = (r, st') \<Longrightarrow> seen st' = seen st"
  by (auto simp: gossip_apply_want_def Let_def dest!: relay_ext_props fresh_seqno_seen
      split: prod.splits if_splits)

lemma gossip_apply_seen:
  assumes "gossip_apply E ms mem info st remote msg = (r, st')"
  shows "seen st' = (if filter_contains E (seen st) (message_hash msg) then seen st
                     else filter_insert E (seen st) (message_hash msg))"
  using assms
  by (auto simp: gossip_apply_def gossip_seen_def Let_def
      dest!: apply_have_seen apply_want_seen split: gossip_message.splits prod.splits if_splits)

text \<open>An environment for concrete runs: a filter that forgets nothing and a storage that takes no
  interest.\<close>

definition example_env :: "((nat, nat) message_key list, unit, 64 word, nat, nat, nat) gossip_env" where
  "example_env =
     \<lparr>filter_contains = \<lambda>f k. k \<in> set f, filter_insert = \<lambda>f k. k # f,
      storage_put = \<lambda>s _ _. (Uninteresting, s), storage_ask = \<lambda>s _. (False, s),
      is_rate_limit_breached = \<lambda>s _. (False, s), random_seqno = \<lambda>g. (g, g + 1)\<rparr>"

definition example_gossip :: "((nat, nat) message_key list, unit, 64 word) gossip_state" where
  "example_gossip = \<lparr>storage = (), seen = [], seqs = 0\<rparr>"

definition example_have :: "(nat, nat, nat, unit) gossip_message" where
  "example_have = Have (example_info 7) 42 (Some (ext_new 5))"

lemma example_members: "hpv_is_member example_hpv 1" "hpv_members example_hpv (Some 1) = [2]"
  by code_simp+

section \<open>Properties\<close>







section \<open>Unsolicited messages\<close>

text \<open>
  A message is entered into the filter before it is checked that its sender is a member. A
  stranger's message is refused, but from then on the same message is dropped when a member
  relays it.
\<close>

lemma unsolicited_suppresses:
  assumes "\<And>f k. filter_contains E (filter_insert E f k) k"
    and "\<not> filter_contains E (seen st) (message_hash msg)" "\<not> mem stranger" "mem friend"
  shows "\<exists>st'. gossip_apply E ms mem info st stranger msg = (Inl (Unsolicited stranger msg), st')
    \<and> gossip_apply E ms mem info st' friend msg = (Inr (None, []), st')"
  using assms by (simp add: gossip_apply_def gossip_seen_def)

end
