(* ===== verification/Node.thy ===== *)
theory Node
  imports Gossip
begin

text \<open>
  A protocol node: how the ticks of the membership protocol and the results of gossip are
  carried out. \<open>membership.rs\<close> turns ticks into tocks, \<open>tick.rs\<close> runs a tock, whose failure
  feeds back into membership, and the receive loops (\<open>io/recv/membership.rs\<close>,
  \<open>io/recv/gossip.rs\<close>), the periodic tasks (\<open>accept.rs\<close>), announcements (\<open>control.rs\<close>) and
  discovery (\<open>io.rs\<close>) produce them.

  The network is the environment: whether a connection exists or can be made, and whether a
  message can be sent, are arguments. The futures of a node interleave at their await points,
  so a node is a step relation that picks any pending piece of work.
\<close>

section \<open>From ticks to tocks\<close>

fun into_tocks ::
  "('g, 'k, 'a) hpv \<Rightarrow> 'a peer_advertisement \<Rightarrow> ('k, 'a) tick \<Rightarrow> ('k, 'a, 'p, 'sig) tock list" where
  "into_tocks h info (Forget_tick peer) = [Disconnect_tock peer]"
| "into_tocks h info (Connect_tick to) = [Connect_tock to (Membership_rpc (hpv_hello h info))]"
| "into_tocks h info (Reply_tick to m) = [SendConnected to (Membership_rpc m)]"
| "into_tocks h info (Try_tick rcpt m) = [AttemptSend rcpt (Membership_rpc m)]"
| "into_tocks h info (All_tick recipients m) = map (\<lambda>r. SendConnected r (Membership_rpc m)) recipients"

definition membership_tocks ::
  "('g, 'k, 'a) hpv \<Rightarrow> 'a peer_advertisement \<Rightarrow> ('k, 'a) tick list \<Rightarrow> ('k, 'a, 'p, 'sig) tock list" where
  "membership_tocks h info ticks = concat (map (into_tocks h info) ticks)"

definition membership_apply ::
  "('g, 'k::linorder, 'a) rng_ops \<Rightarrow> ('g, 'k, 'a) hpv \<Rightarrow> 'a peer_advertisement \<Rightarrow> 'k \<Rightarrow> 'a \<Rightarrow>
   ('k, 'a) message \<Rightarrow>
   (hpv_error + ('k, 'a) transition list \<times> ('k, 'a, 'p, 'sig) tock list) \<times> ('g, 'k, 'a) hpv" where
  "membership_apply R h info remote_id remote_addr msg =
     (let (r, h') = hpv_apply R h remote_id remote_addr msg in
      (map_ok (\<lambda>t. (tnt_trans t, membership_tocks h' info (tnt_ticks t))) r, h'))"

section \<open>Running a tock\<close>

datatype 'k reliable_source = NotConnected 'k | Reliable_SendGossip

datatype ('k, 'a) best_effort = CouldNotConnect "('k, 'a) peer_info" | BestEffort_SendGossip

datatype ('k, 'a) tock_error =
    Reliable "('k, 'a) tick list" "'k reliable_source"
  | Unreliable "('k, 'a) best_effort"

text \<open>What running a tock returns, the transitions it emits, and the peers it disconnects.\<close>

record ('k, 'a) tock_run =
  result :: "('k, 'a) tock_error + ('k, 'a) tick list"
  emitted :: "('k, 'a) transition list"
  disconnected :: "'k list"

definition try_connect_and_send ::
  "bool \<Rightarrow> bool \<Rightarrow> ('k, 'a) peer_info \<Rightarrow> ('k, 'a) best_effort + unit" where
  "try_connect_and_send conn sent to =
     (if \<not> conn then Inl (CouldNotConnect to)
      else if \<not> sent then Inl BestEffort_SendGossip
      else Inr ())"

text \<open>
  \<open>conn\<close>: a connection exists or was made; \<open>sent\<close>: sending succeeded. After a failed send
  the \<open>?\<close> leaves the block before \<open>state.emit(events)\<close>.
\<close>

fun one_tock ::
  "('g, 'k::linorder, 'a) rng_ops \<Rightarrow> ('g, 'k, 'a) hpv \<Rightarrow> bool \<Rightarrow> bool \<Rightarrow> ('k, 'a, 'p, 'sig) tock \<Rightarrow>
   (('k, 'a) tock_run \<times> ('g, 'k, 'a) hpv) option" where
  "one_tock R h conn sent (SendConnected to msg) =
     (if \<not> conn then
        map_option (\<lambda>(t, h'). (\<lparr>result = Inl (Reliable (tnt_ticks t) (NotConnected to)),
            emitted = tnt_trans t, disconnected = []\<rparr>, h')) (hpv_connection_lost R h to)
      else if \<not> sent then
        map_option (\<lambda>(t, h'). (\<lparr>result = Inl (Reliable (tnt_ticks t) Reliable_SendGossip),
            emitted = [], disconnected = []\<rparr>, h')) (hpv_connection_lost R h to)
      else Some (\<lparr>result = Inr [], emitted = [], disconnected = []\<rparr>, h))"
| "one_tock R h conn sent (AttemptSend to msg) =
     Some (\<lparr>result = map_ok (\<lambda>_. []) (map_err Unreliable (try_connect_and_send conn sent to)),
        emitted = [], disconnected = []\<rparr>, h)"
| "one_tock R h conn sent (Connect_tock to msg) =
     (case try_connect_and_send conn sent to of
        Inl e \<Rightarrow> Some (\<lparr>result = Inl (Unreliable e), emitted = [], disconnected = []\<rparr>, h)
      | Inr _ \<Rightarrow>
          let (t, h') = hpv_connection_established R h (partial_from_peer_info to)
          in Some (\<lparr>result = Inr (tnt_ticks t), emitted = tnt_trans t, disconnected = []\<rparr>, h'))"
| "one_tock R h conn sent (Disconnect_tock peer) =
     Some (\<lparr>result = Inr [], emitted = [], disconnected = [peer]\<rparr>, h)"

text \<open>The ticks \<open>tock\<close> goes on with, whatever the result.\<close>

fun tock_cont :: "('k, 'a) tock_error + ('k, 'a) tick list \<Rightarrow> ('k, 'a) tick list" where
  "tock_cont (Inr cont) = cont"
| "tock_cont (Inl (Reliable cont _)) = cont"
| "tock_cont (Inl (Unreliable _)) = []"

section \<open>Producers of work\<close>

text \<open>Work that is waiting: a tick to be turned into tocks, a tock to run, or a lost connection
  to be reported to membership.\<close>

datatype ('k, 'a, 'p, 'sig) work =
    Tick_work "('k, 'a) tick"
  | Tock_work "('k, 'a, 'p, 'sig) tock"
  | Lost_work 'k

record ('k, 'a, 'p, 'sig) produced =
  events :: "('k, 'a) transition list"
  works :: "('k, 'a, 'p, 'sig) work list"
  continues :: bool

definition connection_lost ::
  "('g, 'k::linorder, 'a) rng_ops \<Rightarrow> ('g, 'k, 'a) hpv \<Rightarrow> 'k \<Rightarrow>
   (('k, 'a, 'p, 'sig) produced \<times> ('g, 'k, 'a) hpv) option" where
  "connection_lost R h remote_id =
     map_option (\<lambda>(t, h').
         (\<lparr>events = tnt_trans t, works = map Tick_work (tnt_ticks t), continues = False\<rparr>, h'))
       (hpv_connection_lost R h remote_id)"

text \<open>One round of the membership receive loop: a decoding error, or a message together with
  whether it exceeds the rate limit of the sender.\<close>

fun recv_membership ::
  "('g, 'k::linorder, 'a) rng_ops \<Rightarrow> ('g, 'k, 'a) hpv \<Rightarrow> 'a peer_advertisement \<Rightarrow> 'k \<Rightarrow> 'a \<Rightarrow>
   'e + (bool \<times> ('k, 'a) message) \<Rightarrow> ('k, 'a, 'p, 'sig) produced \<times> ('g, 'k, 'a) hpv" where
  "recv_membership R h info remote_id remote_addr (Inl e) =
     (\<lparr>events = [], works = [Lost_work remote_id], continues = False\<rparr>, h)"
| "recv_membership R h info remote_id remote_addr (Inr (breached, msg)) =
     (if breached then
        (\<lparr>events = [],
          works = [Tick_work (Reply_tick remote_id Disconnect),
                   Tock_work (Disconnect_tock remote_id), Lost_work remote_id],
          continues = False\<rparr>, h)
      else case membership_apply R h info remote_id remote_addr msg of
        (Inl e, h') \<Rightarrow> (\<lparr>events = [], works = [], continues = False\<rparr>, h')
      | (Inr (ts, tocks), h') \<Rightarrow>
          (\<lparr>events = ts, works = map Tock_work tocks, continues = True\<rparr>, h'))"

definition empty_info :: "'k \<Rightarrow> 'a peer_advertisement \<Rightarrow> ('k, 'a) peer_info" where
  "empty_info lid adv = \<lparr>peer_id = lid, advertised_info = adv, seen_addrs = within_from_empty\<rparr>"

text \<open>One round of the gossip receive loop.\<close>

fun recv_gossip ::
  "('f, 's, 'q, 'k, 'a, 'p) gossip_env \<Rightarrow> ('g, 'k, 'a) hpv \<Rightarrow>
   ('f, 's, 'q) gossip_state \<Rightarrow> 'a peer_advertisement \<Rightarrow> 'k \<Rightarrow> 'e + ('k, 'a, 'p, 'sig) gossip_message \<Rightarrow>
   (('k, 'a, 'p) gossip_event option \<times> ('k, 'a, 'p, 'sig) produced) \<times> ('f, 's, 'q) gossip_state" where
  "recv_gossip E h st adv remote_id (Inl e) =
     ((None, \<lparr>events = [], works = [Lost_work remote_id], continues = False\<rparr>), st)"
| "recv_gossip E h st adv remote_id (Inr msg) =
     (case gossip_apply E (hpv_members h) (hpv_is_member h)
             (empty_info (hpv_local_id h) adv) st remote_id msg of
        (Inl (Unsolicited r _), st') \<Rightarrow>
          ((None, \<lparr>events = [], works = [Tick_work (Reply_tick r Disconnect)], continues = False\<rparr>), st')
      | (Inr (may_event, tocks), st') \<Rightarrow>
          ((may_event, \<lparr>events = [], works = map Tock_work tocks, continues = True\<rparr>), st'))"

text \<open>A periodic task; \<open>Tickle\<close> only keeps connections alive.\<close>

fun accept_periodic ::
  "('g, 'k, 'a) hpv \<Rightarrow> 'a peer_advertisement \<Rightarrow> ('k, 'a) periodic \<Rightarrow> ('k, 'a, 'p, 'sig) tock list" where
  "accept_periodic h adv (RandomPromotion candidates) =
     map (\<lambda>info. AttemptSend info (Membership_rpc (hpv_hello h adv))) candidates"
| "accept_periodic h adv (Periodic_Shuffle s) =
     [SendConnected (recipient s)
       (Membership_rpc (Shuffle (empty_info (hpv_local_id h) adv) (sample s) (shuffle_ttl s)))]"
| "accept_periodic h adv Tickle = []"

datatype 'p downstream_gossip = Announce 'p | Query 'p

definition control_gossip ::
  "('g, 'k, 'a) hpv \<Rightarrow> 'a peer_advertisement \<Rightarrow> 64 word \<Rightarrow> 'p downstream_gossip \<Rightarrow> 'k option \<Rightarrow>
   ('k, 'a, 'p, 'sig) tock list" where
  "control_gossip h adv n evt exclude =
     (let origin = empty_info (hpv_local_id h) adv;
          rpc = (case evt of Announce p \<Rightarrow> message_have n origin p | Query p \<Rightarrow> message_want n origin p) in
      map (\<lambda>to. SendConnected to (Gossip_rpc rpc)) (hpv_broadcast_recipients h exclude))"

text \<open>Discovery: \<open>conn\<close> is the address of the connection made, if any.\<close>

definition discovered ::
  "('g, 'k::linorder, 'a) rng_ops \<Rightarrow> ('g, 'k, 'a) hpv \<Rightarrow> bool \<Rightarrow> 'a option \<Rightarrow> bool \<Rightarrow> 'k \<Rightarrow>
   ('k, 'a, 'p, 'sig) produced \<times> ('g, 'k, 'a) hpv" where
  "discovered R h has_connection conn sent peer =
     (let none = \<lparr>events = [], works = [], continues = True\<rparr> in
      if has_connection then (none, h)
      else case conn of
        None \<Rightarrow> (none, h)
      | Some addr \<Rightarrow>
          if \<not> sent then (none, h)
          else
            let (t, h') = hpv_connection_established R h
                  \<lparr>peer_id = peer, advertised_info = None, seen_addrs = within_singleton addr\<rparr>
            in (\<lparr>events = tnt_trans t, works = map Tick_work (tnt_ticks t), continues = True\<rparr>, h'))"

text \<open>\<open>peer_advertisement\<close>: at most sixteen listen addresses.\<close>

definition peer_advertisement_of :: "'a list \<Rightarrow> 'a peer_advertisement" where
  "peer_advertisement_of addrs =
     \<lparr>listen_addrs = within_extend_fill max_addrs within_from_empty addrs, capabilities = []\<rparr>"

section \<open>The node as a step relation\<close>

text \<open>
  Any pending piece of work may be taken next, and the environment may deliver a message,
  let an interval elapse, discover a peer or announce something at any time.
\<close>

type_synonym ('g, 'k, 'a, 'f, 's, 'q, 'p, 'sig) node =
  "('g, 'k, 'a) hpv \<times> ('f, 's, 'q) gossip_state \<times> ('k, 'a, 'p, 'sig) work list"

definition periodic_works ::
  "('g, 'k, 'a) hpv \<Rightarrow> 'a peer_advertisement \<Rightarrow> ('k, 'a) periodic option \<Rightarrow> ('k, 'a, 'p, 'sig) work list" where
  "periodic_works h adv pd =
     (case pd of None \<Rightarrow> [] | Some x \<Rightarrow> map Tock_work (accept_periodic h adv x))"

inductive node_step ::
  "('g, 'k::linorder, 'a) rng_ops \<Rightarrow> ('f, 's, 'q, 'k, 'a, 'p) gossip_env \<Rightarrow>
   ('g, 'k, 'a, 'f, 's, 'q, 'p, 'sig) node \<Rightarrow> ('g, 'k, 'a, 'f, 's, 'q, 'p, 'sig) node \<Rightarrow> bool"
  for R E where
  expand: "node_step R E (h, st, xs @ Tick_work t # ys)
    (h, st, xs @ ys @ map Tock_work (into_tocks h adv t))"
| run: "one_tock R h conn sent t = Some (out, h') \<Longrightarrow>
    node_step R E (h, st, xs @ Tock_work t # ys)
      (h', st, xs @ ys @ map Tick_work (tock_cont (result out)))"
| lost: "connection_lost R h p = Some (pr, h') \<Longrightarrow>
    node_step R E (h, st, xs @ Lost_work p # ys) (h', st, xs @ ys @ works pr)"
| membership: "(\<And>b m. inp = Inr (b, m) \<Longrightarrow> message_ok m) \<Longrightarrow>
    recv_membership R h adv p addr (inp :: unit + _) = (pr, h') \<Longrightarrow>
    node_step R E (h, st, ws) (h', st, ws @ works pr)"
| gossip: "recv_gossip E h st adv p (inp :: unit + _) = ((ev, pr), st') \<Longrightarrow>
    node_step R E (h, st, ws) (h, st', ws @ works pr)"
| promote: "periodic_promote R h = Some (pd, h') \<Longrightarrow>
    node_step R E (h, st, ws) (h', st, ws @ periodic_works h' adv pd)"
| shuffle: "periodic_shuffle R h = (pd, h') \<Longrightarrow>
    node_step R E (h, st, ws) (h', st, ws @ periodic_works h' adv pd)"
| announce: "node_step R E (h, st, ws) (h, st, ws @ map Tock_work (control_gossip h adv n evt exclude))"
| discover: "discovered R h hc conn sent p = (pr, h') \<Longrightarrow>
    node_step R E (h, st, ws) (h', st, ws @ works pr)"

inductive node_reachable ::
  "('g, 'k::linorder, 'a) rng_ops \<Rightarrow> ('f, 's, 'q, 'k, 'a, 'p) gossip_env \<Rightarrow> 'k \<Rightarrow> params \<Rightarrow>
   ('g, 'k, 'a, 'f, 's, 'q, 'p, 'sig) node \<Rightarrow> bool"
  for R E lid ps where
  start: "node_reachable R E lid ps (hpv_new lid g ps, st, [])"
| step: "node_reachable R E lid ps s \<Longrightarrow> node_step R E s s' \<Longrightarrow> node_reachable R E lid ps s'"

text \<open>Peers to connect to carry information within its bounds.\<close>

fun work_ok :: "('k, 'a, 'p, 'sig) work \<Rightarrow> bool" where
  "work_ok (Tick_work (Connect_tick i)) = info_ok i"
| "work_ok (Tock_work (Connect_tock i m)) = info_ok i"
| "work_ok _ = True"

definition tick_ok :: "('k, 'a) tick \<Rightarrow> bool" where
  "tick_ok t = (\<forall>i. t = Connect_tick i \<longrightarrow> info_ok i)"

lemma work_ok_tick [simp]: "work_ok (Tick_work t) = tick_ok t"
  by (cases t) (simp_all add: tick_ok_def)

lemma works_ok_ticks [simp]: "list_all work_ok (map Tick_work ts) = list_all tick_ok ts"
  by (simp add: list_all_iff)

lemma work_ok_into_tocks: "tick_ok t \<Longrightarrow> list_all work_ok (map Tock_work (into_tocks h adv t))"
  by (cases t) (auto simp: tick_ok_def list_all_iff)

lemma ticks_ok_transitions [simp]: "list_all tick_ok (tnt_ticks (tnt_from_transitions ts))"
  by (auto simp: list_all_iff ticks_from_transitions tick_ok_def)

lemma ticks_ok_add_all_passive:
  "hpv_add_all_passive R acc h infos = (t, h') \<Longrightarrow> list_all tick_ok (tnt_ticks acc) \<Longrightarrow>
     list_all tick_ok (tnt_ticks t)"
proof (induction infos arbitrary: acc h)
  case (Cons info infos)
  obtain ts v where "view_add_passive R (view h) info = (ts, v)" by (rule prod.exhaust)
  with Cons.IH [of "tnt_mul acc (tnt_from_transitions ts)" "h\<lparr>view := v\<rparr>"] Cons.prems
  show ?case by simp
qed simp

lemma forward_tick_ok [simp]: "list_all tick_ok (forward_tick hp m)"
  by (simp add: forward_tick_def tick_ok_def split: option.splits)

lemma tick_ok_simps [simp]:
  "tick_ok (All_tick rs m)" "tick_ok (Try_tick i m)" "tick_ok (Reply_tick p m)"
  by (simp_all add: tick_ok_def)

lemma hpv_apply_ticks_ok:
  assumes "message_ok msg" "hpv_apply R h p addr msg = (Inr t, h')"
  shows "list_all tick_ok (tnt_ticks t)"
  using assms
  by (cases msg)
    (auto simp: hpv_apply_join_def hpv_apply_forward_join_def hpv_apply_neighbour_def
      hpv_apply_shuffle_def Let_def tick_ok_def [of "Connect_tick _"]
      dest!: ticks_ok_add_all_passive split: prod.splits if_splits)

lemma connection_lost_ticks_ok:
  assumes "rng_ok R" "hpv_ok h" "limits_ok (hpv_params h)" "hpv_connection_lost R h p = Some (t, h')"
  shows "list_all tick_ok (tnt_ticks t)"
proof -
  obtain ts v where d: "view_demote R (view h) p = (ts, v)" by (rule prod.exhaust)
  have ok: "hpv_ok (h\<lparr>view := v\<rparr>)"
    using hpv_good_demote [OF assms(1-3) d] by (simp add: hpv_good_def)
  then have e: "entries_ok (passive v)" by (simp add: hpv_ok_def view_ok_def)
  obtain ps g where c:
    "hpv_choose_passive_to_promote R (h\<lparr>view := v\<rparr>) = Some (ps, h\<lparr>view := v, hpv_rng := g\<rparr>)"
    "set ps \<subseteq> set (view_passive_info v)"
    by (rule choose_passive_total [OF assms(1) ok]) simp
  have "info_ok i" if "i \<in> set (view_passive_info v)" for i
  proof -
    from that obtain k where "(k, i) \<in> set (passive v)" by (auto simp: view_passive_info_def bmap_values_def)
    then have "bmap_get (passive v) k = Some i" using entries_entry [OF e] by blast
    then show ?thesis using e by (simp add: entries_ok_def)
  qed
  with c have "list_all tick_ok (map Connect_tick ps)" by (auto simp: list_all_iff tick_ok_def)
  moreover have "tnt_ticks t = [] \<or> tnt_ticks t = map Connect_tick ps"
    using assms(4) d c(1) by (auto simp: hpv_connection_lost_def Let_def split: if_splits)
  ultimately show ?thesis by auto
qed

text \<open>The invariant of a node: membership is in a reachable state, and the work is well formed.\<close>

definition node_ok ::
  "('g, 'k::linorder, 'a) rng_ops \<Rightarrow> 'k \<Rightarrow> params \<Rightarrow> ('g, 'k, 'a, 'f, 's, 'q, 'p, 'sig) node \<Rightarrow> bool" where
  "node_ok R lid ps s =
     (case s of (h, st, ws) \<Rightarrow> hpv_reachable R lid ps h \<and> list_all work_ok ws)"

lemma connection_lost_ok:
  assumes "rng_ok R" "limits_ok ps" "hpv_reachable R lid ps h" "hpv_connection_lost R h p = Some (t, h')"
  shows "hpv_reachable R lid ps h' \<and> list_all tick_ok (tnt_ticks t)"
proof -
  have "hpv_ok h" "limits_ok (hpv_params h)"
    using hpv_reachable_ok [OF assms(3,1,2)] assms(2) by simp_all
  then show ?thesis
    using connection_lost_ticks_ok [OF assms(1) _ _ assms(4)] hpv_reachable.lost [OF assms(3,4)] by blast
qed

lemma one_tock_ok:
  assumes "rng_ok R" "limits_ok ps" "hpv_reachable R lid ps h" "work_ok (Tock_work t)"
    and "one_tock R h conn sent t = Some (out, h')"
  shows "hpv_reachable R lid ps h' \<and> list_all tick_ok (tock_cont (result out))"
proof (cases t)
  case (SendConnected to msg)
  then show ?thesis
    using assms(3,5) by (auto split: if_splits dest!: connection_lost_ok [OF assms(1-3)])
next
  case (Connect_tock to msg)
  have "hpv_reachable R lid ps h'' \<and> list_all tick_ok (tnt_ticks t)"
    if "hpv_connection_established R h (partial_from_peer_info to) = (t, h'')" for t h''
    using that assms(4) Connect_tock hpv_reachable.established [OF assms(3) _ that]
    by (auto simp: hpv_connection_established_def split: prod.splits)
  then show ?thesis using assms(3,5) Connect_tock by (auto split: sum.splits prod.splits)
qed (use assms in \<open>auto simp: try_connect_and_send_def split: if_splits\<close>)

lemma recv_membership_ok:
  assumes "hpv_reachable R lid ps h" "\<And>b m. inp = Inr (b, m) \<Longrightarrow> message_ok m"
    and "recv_membership R h adv p addr inp = (pr, h')"
  shows "hpv_reachable R lid ps h' \<and> list_all work_ok (works pr)"
proof (cases inp)
  case (Inl e)
  then show ?thesis using assms by auto
next
  case (Inr bm)
  obtain b m where bm: "bm = (b, m)" by (rule prod.exhaust)
  obtain r h2 where a: "hpv_apply R h p addr m = (r, h2)" by (rule prod.exhaust)
  have m: "message_ok m" using assms(2) Inr bm by simp
  have reach: "hpv_reachable R lid ps h2" by (rule hpv_reachable.message [OF assms(1) m a])
  have ts: "list_all work_ok (map Tock_work (membership_tocks h2 adv (tnt_ticks t)))" if "r = Inr t" for t
    using hpv_apply_ticks_ok [OF m] a that work_ok_into_tocks
    by (fastforce simp: membership_tocks_def list_all_iff)
  show ?thesis
    using assms(1,3) Inr bm a reach ts
    by (cases r) (auto simp: membership_apply_def tick_ok_def split: if_splits)
qed

lemma gossip_works_ok:
  assumes "recv_gossip E h st adv p inp = ((ev, pr), st')"
  shows "list_all work_ok (works pr)"
proof -
  have b: "list_all work_ok (map Tock_work (broadcast ms m x))" for ms m x
    by (simp add: broadcast_def list_all_iff)
  have "list_all work_ok (map Tock_work tocks)"
    if "gossip_apply E (hpv_members h) (hpv_is_member h) i st p m = (Inr (ev, tocks), st')" for i m tocks ev
  proof -
    have "\<exists>q r. t = SendConnected q r" if "t \<in> set tocks" for t
      using that \<open>gossip_apply E _ _ i st p m = _\<close>
      by (auto simp: gossip_apply_def gossip_apply_have_def gossip_apply_want_def broadcast_def Let_def
          split: prod.splits if_splits gossip_message.splits put_result.splits)
    then show ?thesis by (fastforce simp: list_all_iff)
  qed
  then show ?thesis
    using assms by (cases inp) (auto split: prod.splits sum.splits gossip_error.splits)
qed

lemma periodic_works_ok: "list_all work_ok (periodic_works h adv pd)"
proof (cases pd)
  case (Some x)
  then show ?thesis by (cases x) (auto simp: periodic_works_def list_all_iff)
qed (simp add: periodic_works_def)

lemma discovered_ok:
  assumes "hpv_reachable R lid ps h" "discovered R h hc conn sent p = (pr, h')"
  shows "hpv_reachable R lid ps h' \<and> list_all work_ok (works pr)"
proof -
  have "hpv_reachable R lid ps h'' \<and> list_all tick_ok (tnt_ticks t)"
    if "hpv_connection_established R h
      \<lparr>peer_id = p, advertised_info = None, seen_addrs = within_singleton addr\<rparr> = (t, h'')" for t h'' addr
    using that hpv_reachable.established [OF assms(1) _ that]
    by (auto simp: hpv_connection_established_def info_ok_def within_singleton_def max_addrs_def split: prod.splits)
  then show ?thesis
    using assms
    by (auto simp: discovered_def Let_def list_all_iff split: if_splits option.splits prod.splits)
qed

lemma node_step_ok:
  assumes "node_step R E s s'" "rng_ok R" "limits_ok ps" "node_ok R lid ps s"
  shows "node_ok R lid ps s'"
  using assms(1,4)
proof (induction rule: node_step.induct)
  case (expand h st xs t ys adv)
  then show ?case using work_ok_into_tocks [of t h adv] by (simp add: node_ok_def)
next
  case (run h conn sent t out h' st xs ys)
  then have "hpv_reachable R lid ps h" "work_ok (Tock_work t)" by (simp_all add: node_ok_def)
  from one_tock_ok [OF assms(2,3) this run.hyps] run.prems show ?case by (simp add: node_ok_def)
next
  case (lost h p pr h' st xs ys)
  then obtain t where t: "hpv_connection_lost R h p = Some (t, h')" "works pr = map Tick_work (tnt_ticks t)"
    by (auto simp: connection_lost_def)
  from lost.prems have "hpv_reachable R lid ps h" by (simp add: node_ok_def)
  from connection_lost_ok [OF assms(2,3) this t(1)] t(2) lost.prems show ?case by (simp add: node_ok_def)
next
  case (membership inp h adv p addr pr h' st ws)
  then show ?case using recv_membership_ok [OF _ membership.hyps] by (auto simp: node_ok_def)
next
  case (gossip h st adv p inp ev pr st' ws)
  then show ?case using gossip_works_ok [OF gossip.hyps] by (auto simp: node_ok_def)
next
  case (promote h pd h' st ws adv)
  then show ?case using periodic_works_ok [of h' adv pd]
    by (auto simp: node_ok_def periodic_promote_def intro: hpv_reachable.promoting)
next
  case (shuffle h pd h' st ws adv)
  then show ?case using periodic_works_ok [of h' adv pd]
    by (auto simp: node_ok_def periodic_shuffle_def intro: hpv_reachable.shuffled split: prod.splits)
next
  case (announce h st ws adv n evt exclude)
  then show ?case by (auto simp: node_ok_def control_gossip_def list_all_iff Let_def)
next
  case (discover h hc conn sent p pr h' st ws)
  then show ?case using discovered_ok [OF _ discover.hyps] by (auto simp: node_ok_def)
qed

lemma node_reachable_ok:
  assumes "node_reachable R E lid ps s" "rng_ok R" "limits_ok ps"
  shows "node_ok R lid ps s"
  using assms
proof induction
  case (start g st)
  show ?case by (simp add: node_ok_def hpv_reachable.start)
next
  case (step s s')
  then show ?case by (blast intro: node_step_ok)
qed

text \<open>Work that is pending can be carried out, whatever the network does.\<close>

lemma one_tock_total:
  assumes "rng_ok R" "hpv_ok h" "limits_ok (hpv_params h)"
  shows "one_tock R h conn sent t \<noteq> None"
proof (cases t)
  case (SendConnected to msg)
  obtain t' h' where "hpv_connection_lost R h to = Some (t', h')"
    by (rule connection_lost_total [OF assms])
  then show ?thesis using SendConnected by simp
next
  case (Connect_tock to msg)
  then show ?thesis by (simp add: Let_def split: sum.splits prod.splits)
qed simp_all

lemma pending_work_runs:
  assumes "rng_ok R" "hpv_ok h" "limits_ok (hpv_params h)"
  shows "\<exists>h' new. node_step R E (h, st, xs @ w # ys) (h', st, xs @ ys @ new)"
proof (cases w)
  case (Tick_work t)
  then show ?thesis using node_step.expand [of R E h st xs t ys] by blast
next
  case (Tock_work t)
  obtain out h' where "one_tock R h True True t = Some (out, h')"
    using one_tock_total [OF assms, of True True t] by (cases "one_tock R h True True t") auto
  from node_step.run [OF this] Tock_work show ?thesis by blast
next
  case (Lost_work p)
  obtain t h' where c: "hpv_connection_lost R h p = Some (t, h')" by (rule connection_lost_total [OF assms])
  show ?thesis unfolding Lost_work
    by (intro exI, rule node_step.lost) (simp add: connection_lost_def c)
qed

text \<open>
  When a message cannot be sent over an existing connection, the peer leaves the active view
  but the transition is not emitted, whereas it is emitted when there is no connection.
\<close>

lemma send_failure_drops_events:
  assumes "one_tock R h True False (SendConnected to msg) = Some (out, h')"
    and "one_tock R h False sent (SendConnected to msg) = Some (out2, h2)"
  shows "h2 = h' \<and> emitted out = [] \<and> map_option (tnt_trans \<circ> fst) (hpv_connection_lost R h to) = Some (emitted out2)"
  using assms by auto

lemma send_failure_drops_events_example:
  "map_option (\<lambda>(out, h'). (emitted out, view_is_active (view h') 2))
     (one_tock first_rng example_hpv True False (SendConnected 2 (Membership_rpc Disconnect)
        :: (nat, nat, nat, unit) tock)) = Some ([], False)"
  "view_is_active (view example_hpv) 2"
  by code_simp+

section \<open>Properties\<close>

text \<open>Node 0 that peers 1 and 2 joined, with the work this caused pending.\<close>

definition example_join ::
  "(unit, nat, nat, (nat, nat) message_key list, unit, 64 word, nat, unit) node \<Rightarrow> nat \<Rightarrow>
   (unit, nat, nat, (nat, nat) message_key list, unit, 64 word, nat, unit) node" where
  "example_join n p =
     (case n of (h, st, ws) \<Rightarrow>
        let (pr, h') = recv_membership first_rng h (peer_advertisement_new 9) p p
              (Inr (False, Join (peer_advertisement_new p)) :: unit + _)
        in (h', st, ws @ works pr))"

definition example_node ::
  "(unit, nat, nat, (nat, nat) message_key list, unit, 64 word, nat, unit) node" where
  "example_node = example_join (example_join (hpv_new 0 () example_params, example_gossip, []) 1) 2"

lemma example_join_step: "node_step first_rng example_env n (example_join n p)"
proof -
  obtain h st ws where n: "n = (h, st, ws)" by (rule prod_cases3)
  obtain pr h' where r: "recv_membership first_rng h (peer_advertisement_new 9) p p
      (Inr (False, Join (peer_advertisement_new p)) :: unit + _) = (pr :: (nat, nat, nat, unit) produced, h')"
    by (rule prod.exhaust)
  have "node_step first_rng example_env (h, st, ws) (h', st, ws @ works pr)"
    by (rule node_step.membership [OF _ r]) simp
  with r n show ?thesis by (simp add: example_join_def del: recv_membership.simps)
qed

lemma example_node_reachable: "node_reachable first_rng example_env 0 example_params example_node"
  unfolding example_node_def 
  by (rule node_reachable.step [OF node_reachable.step [OF node_reachable.start example_join_step]
        example_join_step])

lemma example_node_pending:
  "snd (snd example_node) = [Tock_work (SendConnected 1
     (Membership_rpc (ForwardJoin (peer_info_from 2 (peer_advertisement_new 2) 2) 3)))]"
  by code_simp

text \<open>
  C6: a node refines the membership protocol. Whatever the network does and in whichever order
  a node takes its pending work, messages and periodic tasks, its membership state is one that
  the membership protocol alone can reach; no tock and no lost connection panics in it, and
  every pending piece of work can be carried out.
\<close>

theorem node_refines_membership:
  assumes "node_reachable R E lid ps (h, st, ws)" "rng_ok R" "limits_ok ps"
  shows "hpv_reachable R lid ps h \<and> view_ok (view h)
    \<and> (\<forall>conn sent t. one_tock R h conn sent t \<noteq> None)
    \<and> (\<forall>xs w ys. ws = xs @ w # ys \<longrightarrow> (\<exists>h' new. node_step R E (h, st, ws) (h', st, xs @ ys @ new)))"
proof -
  have r: "hpv_reachable R lid ps h" using node_reachable_ok [OF assms] by (simp add: node_ok_def)
  then have ok: "hpv_ok h" "limits_ok (hpv_params h)"
    using hpv_reachable_ok [OF r assms(2,3)] assms(3) by simp_all
  show ?thesis
    using r ok one_tock_total [OF assms(2) ok] pending_work_runs [OF assms(2) ok] by (auto simp: hpv_ok_def)
qed

theorem node_refines_membership_witness:
  "hpv_reachable first_rng 0 example_params (fst example_node)
    \<and> one_tock first_rng (fst example_node) False False (Disconnect_tock 1 :: (nat, nat, nat, unit) tock) \<noteq> None
    \<and> (\<exists>h' new. node_step first_rng example_env example_node (h', fst (snd example_node), new))"
proof -
  obtain h st ws where n: "example_node = (h, st, ws)" by (rule prod_cases3)
  obtain w where w: "ws = [] @ w # []" using example_node_pending unfolding n by simp
  note r = node_refines_membership [OF example_node_reachable [unfolded n] first_rng_ok example_limits]
  from r w obtain h' new where "node_step first_rng example_env (h, st, ws) (h', st, [] @ [] @ new)" by blast
  with r show ?thesis unfolding n by auto
qed

end
