(* ===== verification/Ref_Like.thy ===== *)
theory Ref_Like
  imports Ref_Name
begin

text \<open>
  The older path-like reference names of \<open>git-ext/src/reference/name.rs\<close>, which the rest of
  the code uses beside \<open>git-ref-format\<close>: \<open>RefLike\<close>, \<open>OneLevel\<close>, \<open>Qualified\<close> and
  \<open>RefspecPattern\<close>, all strings, with their conversions. Validity is that of \<open>Ref_Name\<close>.
\<close>

section \<open>RefLike\<close>

datatype reflike_error = Utf8 | RefFormat check_error

definition reflike_error_empty :: reflike_error where
  "reflike_error_empty = RefFormat Empty"

datatype strip_prefix_error = ImproperPrefix | NotPrefix

definition reflike_try_from :: "string \<Rightarrow> reflike_error + string" where
  "reflike_try_from s =
     map_ok (\<lambda>_. s) (map_err RefFormat (ref_format \<lparr>allow_onelevel = True, allow_pattern = False\<rparr> s))"

definition reflike_join :: "string \<Rightarrow> string \<Rightarrow> string" where
  "reflike_join self other = self @ ''/'' @ other"

definition reflike_with_pattern_suffix :: "string \<Rightarrow> string \<Rightarrow> string" where
  "reflike_with_pattern_suffix self suf = self @ ''/'' @ suf"

definition strip_suffix_slash :: "string \<Rightarrow> string" where
  "strip_suffix_slash s = (if s \<noteq> [] \<and> last s = slash then butlast s else s)"

definition reflike_strip_prefix :: "string \<Rightarrow> string \<Rightarrow> strip_prefix_error + string" where
  "reflike_strip_prefix self base =
     and_then (ok_or NotPrefix (strip_pre (strip_suffix_slash base @ ''/'') self))
       (\<lambda>path. if path = [] then Inl ImproperPrefix else Inr path)"

definition reflike_from_iter :: "string list \<Rightarrow> string" where
  "reflike_from_iter xs = join_with slash xs"

section \<open>OneLevel and Qualified\<close>

definition onelevel_from_reflike :: "string \<Rightarrow> string" where
  "onelevel_from_reflike path =
     (if prefix ''refs/'' path then join_with slash (drop 2 (split_on slash path)) else path)"

definition qualified_from_reflike :: "string \<Rightarrow> string" where
  "qualified_from_reflike path = (if prefix ''refs/'' path then path else ''refs/heads/'' @ path)"

definition onelevel_from_qualified :: "string \<Rightarrow> string \<times> string option" where
  "onelevel_from_qualified q =
     (case split_on slash (case strip_pre ''refs/'' q of None \<Rightarrow> q | Some p \<Rightarrow> p) of
        category # path \<Rightarrow>
          (case path of
             head # path \<Rightarrow> (join_with slash (head # path), Some category)
           | [] \<Rightarrow> (onelevel_from_reflike category, None)))"

definition onelevel_into_qualified :: "string \<Rightarrow> string \<Rightarrow> string" where
  "onelevel_into_qualified self category = ''refs/'' @ category @ ''/'' @ self"

definition onelevel_of_qualified :: "string \<Rightarrow> string" where
  "onelevel_of_qualified q = onelevel_from_reflike q"

definition qualified_from_onelevel :: "string \<Rightarrow> string" where
  "qualified_from_onelevel o1 = qualified_from_reflike o1"

section \<open>Refspec patterns\<close>

definition refspec_try_from :: "string \<Rightarrow> reflike_error + string" where
  "refspec_try_from s =
     map_ok (\<lambda>_. s) (map_err RefFormat (ref_format \<lparr>allow_onelevel = True, allow_pattern = True\<rparr> s))"

definition refspec_append :: "string \<Rightarrow> string \<Rightarrow> string" where
  "refspec_append self name = self @ ''/'' @ name"

section \<open>Decoding\<close>

text \<open>The argument is what the decoder read as a string.\<close>

datatype decode_error = Decode_str | Decode_message string

definition reflike_decode :: "decode_error + string \<Rightarrow> decode_error + string" where
  "reflike_decode d =
     and_then d (\<lambda>path. map_err (\<lambda>_. Decode_message ''invalid reflike'') (reflike_try_from path))"

definition onelevel_decode :: "decode_error + string \<Rightarrow> decode_error + string" where
  "onelevel_decode d = map_ok onelevel_from_reflike (reflike_decode d)"

definition qualified_decode :: "decode_error + string \<Rightarrow> decode_error + string" where
  "qualified_decode d = map_ok qualified_from_reflike (reflike_decode d)"

definition refspec_decode :: "decode_error + string \<Rightarrow> decode_error + string" where
  "refspec_decode d =
     and_then d (\<lambda>s. map_err (\<lambda>_. Decode_message ''invalid refspec pattern'') (refspec_try_from s))"

section \<open>Validity\<close>

lemma reflike_try_from_iff: "reflike_try_from s = Inr t \<longleftrightarrow> t = s \<and> is_refstr s"
  using ref_format_iff [of name_check_opts s]
  by (auto simp: reflike_try_from_def is_refstr_def name_check_opts_def)

lemma refspec_try_from_iff: "refspec_try_from s = Inr t \<longleftrightarrow> t = s \<and> is_pattern s"
  using ref_format_iff [of pattern_check_opts s]
  by (auto simp: refspec_try_from_def is_pattern_def pattern_check_opts_def)

lemma reflike_join_push: "reflike_join a b = refstring_push a b"
  by (simp add: reflike_join_def refstring_push_def)

lemma reflike_join_refstr: "is_refstr a \<Longrightarrow> is_refstr b \<Longrightarrow> is_refstr (reflike_join a b)"
  unfolding reflike_join_push by (intro refstring_push_refstr) (auto simp: is_refstr_iff)

lemma refs_prefix_iff: "prefix ''refs/'' s \<longleftrightarrow> (\<exists>c cs. split_on slash s = REFS # c # cs)"
proof
  assume "prefix ''refs/'' s"
  then obtain t where "s = REFS @ slash # t" by (auto simp: prefix_def REFS_def)
  then show "\<exists>c cs. split_on slash s = REFS # c # cs"
    using split_on_append [of slash REFS t] by (cases "split_on slash t") (auto simp: REFS_def)
next
  assume "\<exists>c cs. split_on slash s = REFS # c # cs"
  then obtain c cs where "s = join_with slash (REFS # c # cs)" using join_split by metis
  then show "prefix ''refs/'' s" by (simp add: REFS_def)
qed

lemma heads_refstr: "is_refstr s \<Longrightarrow> is_refstr (''refs/heads/'' @ s)"
proof -
  assume s: "is_refstr s"
  have "is_refstr ''refs/heads''" by code_simp
  from reflike_join_refstr [OF this s] show ?thesis by (simp add: reflike_join_def)
qed

lemma qualified_from_reflike_valid:
  assumes "is_refstr s"
  shows "is_refstr (qualified_from_reflike s) \<and> prefix ''refs/'' (qualified_from_reflike s)"
  using assms heads_refstr by (simp add: qualified_from_reflike_def)

lemma strip_suffix_slash_refstr: "is_refstr s \<Longrightarrow> strip_suffix_slash s = s"
proof -
  assume "is_refstr s"
  then have c: "list_all is_component (split_on slash s)" by (simp add: is_refstr_iff refstr_components_def)
  have "last s \<noteq> slash" if "s \<noteq> []"
  proof
    assume "last s = slash"
    with that have "s = butlast s @ slash # []" using append_butlast_last_id by metis
    then have "split_on slash s = split_on slash (butlast s) @ [[]]"
      using split_on_append [of slash "butlast s" "[]"] by simp
    then have "[] \<in> set (split_on slash s)" by simp
    with c show False by (auto simp: list_all_iff is_component_def component_ok_def)
  qed
  then show ?thesis by (auto simp: strip_suffix_slash_def)
qed

lemma strip_suffix_slash_snoc: "strip_suffix_slash (s @ ''/'') = s"
  by (simp add: strip_suffix_slash_def)

lemma onelevel_split:
  assumes "split_on slash q = REFS # c # o1 # os"
  shows "onelevel_from_qualified q = (join_with slash (o1 # os), Some c)"
    and "onelevel_of_qualified q = join_with slash (o1 # os)"
proof -
  have q: "q = ''refs/'' @ join_with slash (c # o1 # os)"
    using join_split [of slash q] assms by (simp add: REFS_def)
  have cs: "split_on slash (join_with slash (c # o1 # os)) = c # o1 # os"
    using assms split_on_pieces [of _ slash q] by (intro split_join) auto
  show "onelevel_from_qualified q = (join_with slash (o1 # os), Some c)"
    using q cs by (simp add: onelevel_from_qualified_def)
  show "onelevel_of_qualified q = join_with slash (o1 # os)"
    using q assms by (simp add: onelevel_of_qualified_def onelevel_from_reflike_def)
qed

text \<open>What the conversions leave undone: results that are not valid names.\<close>

lemma onelevel_empty:
  "is_refstr ''refs/HEAD'' \<and> onelevel_from_reflike ''refs/HEAD'' = [] \<and> \<not> is_refstr []
   \<and> onelevel_from_qualified ''refs/HEAD'' = (''HEAD'', None)"
  by code_simp

lemma reflike_from_empty_iter: "reflike_from_iter [] = [] \<and> \<not> is_refstr []"
  by code_simp

text \<open>The length is said to be at most 1024 bytes, which nothing checks.\<close>

lemma reflike_no_length_limit: "\<exists>s. is_refstr s \<and> n \<le> length s"
proof -
  let ?cs = "replicate (Suc n) HEADS"
  have "refstr_components (join_with slash ?cs) = ?cs"
    by (rule components_join) (simp_all add: list_all_iff)
  moreover have "n \<le> length (join_with slash ?cs)"
    by (induction n) (auto simp: HEADS_def join_with_Cons)
  moreover have "join_with slash ?cs \<noteq> ''@''"
    by (cases n) (simp_all add: HEADS_def)
  ultimately have "is_refstr (join_with slash ?cs) \<and> n \<le> length (join_with slash ?cs)"
    by (simp add: is_refstr_iff list_all_iff)
  then show ?thesis by blast
qed

section \<open>Properties\<close>

text \<open>
  C40: the category of a qualified name and the rest are recovered from each other. For a name
  \<open>refs/<category>/<rest>\<close> the two ways to take off the prefix agree, and putting it back
  gives the name; conversely, a valid name put under a category is taken apart into the same
  two. A name joined onto a base, with or without a trailing slash, is given back by stripping
  the base off.
\<close>

theorem onelevel_qualified_roundtrip:
  assumes "is_refstr q" "prefix ''refs/'' q" "2 < length (refstr_components q)"
    and "is_refstr o1" "is_component c"
  shows "(\<exists>cat. onelevel_from_qualified q = (onelevel_of_qualified q, Some cat)
        \<and> onelevel_into_qualified (onelevel_of_qualified q) cat = q)
    \<and> onelevel_from_qualified (onelevel_into_qualified o1 c) = (o1, Some c)
    \<and> is_refstr (onelevel_into_qualified o1 c)
    \<and> reflike_strip_prefix (reflike_join q o1) q = Inr o1
    \<and> reflike_strip_prefix (reflike_join q o1) (q @ ''/'') = Inr o1"
proof -
  obtain cat x xs where q: "split_on slash q = REFS # cat # x # xs"
    using assms(2,3) unfolding refs_prefix_iff refstr_components_def
    by (metis (no_types) One_nat_def Suc_1 length_Cons less_irrefl list.exhaust list.size(3))
  have 1: "onelevel_into_qualified (join_with slash (x # xs)) cat = q"
    using join_split [of slash q] q by (simp add: onelevel_into_qualified_def REFS_def)
  have o: "list_all is_component (split_on slash o1)"
    using assms(4) by (simp add: is_refstr_iff refstr_components_def)
  obtain y ys where o1: "split_on slash o1 = y # ys" by (cases "split_on slash o1") auto
  have cs: "split_on slash (onelevel_into_qualified o1 c) = REFS # c # y # ys"
    using assms(5) split_on_append [of slash REFS "c @ slash # o1"] split_on_append [of slash c o1] o1
    by (simp add: onelevel_into_qualified_def REFS_def is_component_def split_on_notin)
  have 2: "onelevel_from_qualified (onelevel_into_qualified o1 c) = (o1, Some c)"
    using onelevel_split(1) [OF cs] join_split [of slash o1] o1 by simp
  have "is_component REFS" by simp
  then have 3: "is_refstr (onelevel_into_qualified o1 c)"
    using cs o o1 assms(5) by (auto simp: is_refstr_iff refstr_components_def onelevel_into_qualified_def)
  have "o1 \<noteq> []" using assms(4) by (auto simp: is_refstr_iff refstr_components_def is_component_def component_ok_def)
  then have 4: "reflike_strip_prefix (reflike_join q o1) q = Inr o1"
    "reflike_strip_prefix (reflike_join q o1) (q @ ''/'') = Inr o1"
    by (simp_all add: reflike_strip_prefix_def reflike_join_def strip_suffix_slash_snoc
        strip_suffix_slash_refstr [OF assms(1)])
  show ?thesis using onelevel_split [OF q] 1 2 3 4 by simp
qed

theorem onelevel_qualified_roundtrip_witness:
  "onelevel_from_qualified (onelevel_into_qualified ''origin/it'' ''remotes'') = (''origin/it'', Some ''remotes'')
    \<and> reflike_strip_prefix (reflike_join ''refs/heads/a'' ''origin/it'') ''refs/heads/a/'' = Inr ''origin/it''"
proof -
  have "is_refstr ''refs/heads/a''" "prefix ''refs/'' ''refs/heads/a''"
    "2 < length (refstr_components ''refs/heads/a'')" "is_refstr ''origin/it''" "is_component ''remotes''"
    by code_simp+
  from onelevel_qualified_roundtrip [OF this] show ?thesis by simp
qed

end
