(* ===== verification/Urn.thy ===== *)
theory Urn
  imports Ref_Like "HOL-Library.Option_ord" "HOL-Library.List_Lexorder" "HOL-Library.Char_ord"
begin

text \<open>
  Radicle URNs (\<open>link-identities/src/urn.rs\<close>): an identifier and an optional path, with their
  rendering as a string, as a reference name below \<open>refs/namespaces\<close> and as the structure
  that is encoded as CBOR. The encodings of identifiers and percent encoding come from other
  crates and are the parameters \<open>urn_env\<close>; what the code relies on is \<open>urn_env_ok\<close>.
\<close>

section \<open>The type\<close>

datatype 'r urn = Urn (urn_id: 'r) (urn_path: "string option")

text \<open>The derived order: by identifier, then by path.\<close>

instantiation urn :: (linorder) linorder
begin

definition less_eq_urn :: "'a urn \<Rightarrow> 'a urn \<Rightarrow> bool" where
  "less_eq_urn u v = (urn_id u < urn_id v \<or> urn_id u = urn_id v \<and> urn_path u \<le> urn_path v)"

definition less_urn :: "'a urn \<Rightarrow> 'a urn \<Rightarrow> bool" where
  "less_urn u v = (urn_id u < urn_id v \<or> urn_id u = urn_id v \<and> urn_path u < urn_path v)"

instance
  by standard (auto simp: less_eq_urn_def less_urn_def intro: urn.expand)

end

definition urn_new :: "'r \<Rightarrow> 'r urn" where
  "urn_new i = Urn i None"

definition urn_map :: "('r \<Rightarrow> 's) \<Rightarrow> 'r urn \<Rightarrow> 's urn" where
  "urn_map f u = Urn (f (urn_id u)) (urn_path u)"

definition urn_map_path :: "(string option \<Rightarrow> string option) \<Rightarrow> 'r urn \<Rightarrow> 'r urn" where
  "urn_map_path f u = Urn (urn_id u) (f (urn_path u))"

definition urn_with_path :: "'r urn \<Rightarrow> string option \<Rightarrow> 'r urn" where
  "urn_with_path u path = urn_map_path (\<lambda>_. path) u"

section \<open>Encodings from other crates\<close>

record ('r, 'b) urn_env =
  protocol :: string
  into_multihash :: "'r \<Rightarrow> 'b"
  from_multihash :: "'b \<Rightarrow> 'r option"
  multihash_from_bytes :: "'b \<Rightarrow> 'b option"
  multibase_encode :: "'b \<Rightarrow> string"
  multibase_decode :: "string \<Rightarrow> 'b option"
  utf8_percent_encode :: "string \<Rightarrow> (char \<Rightarrow> bool) \<Rightarrow> string"
  percent_decode_utf8 :: "string \<Rightarrow> string option"

text \<open>
  What these do: identifiers are recovered from their encoding, which is a valid path
  component without percent sign or quotation mark; percent encoding emits no colon when there is none,
  leaves printable ASCII outside of the given set alone, and is undone by decoding when the
  text has no percent sign; decoding leaves a text without percent sign alone.
\<close>

definition plain :: "(char \<Rightarrow> bool) \<Rightarrow> char \<Rightarrow> bool" where
  "plain S c = (\<not> S c \<and> 32 < (of_char c :: nat) \<and> (of_char c :: nat) < 127)"

definition urn_env_ok :: "('r, 'b) urn_env \<Rightarrow> bool" where
  "urn_env_ok E =
     ((\<forall>i. from_multihash E (into_multihash E i) = Some i
         \<and> multihash_from_bytes E (into_multihash E i) = Some (into_multihash E i)
         \<and> multibase_decode E (multibase_encode E (into_multihash E i)) = Some (into_multihash E i)
         \<and> is_component (multibase_encode E (into_multihash E i))
         \<and> multibase_encode E (into_multihash E i) \<noteq> ''@''
         \<and> CHR ''%'' \<notin> set (multibase_encode E (into_multihash E i))
         \<and> CHR 0x22 \<notin> set (multibase_encode E (into_multihash E i)))
      \<and> (\<forall>s S. CHR '':'' \<notin> set s \<longrightarrow> CHR '':'' \<notin> set (utf8_percent_encode E s S))
      \<and> (\<forall>s S. list_all (plain S) s \<longrightarrow> utf8_percent_encode E s S = s)
      \<and> (\<forall>s S. CHR ''%'' \<notin> set s \<longrightarrow> percent_decode_utf8 E (utf8_percent_encode E s S) = Some s)
      \<and> (\<forall>s t. CHR ''%'' \<notin> set s \<longrightarrow>
           percent_decode_utf8 E (s @ t) = map_option (append s) (percent_decode_utf8 E t))
      \<and> percent_decode_utf8 E [] = Some []
      \<and> CHR '':'' \<notin> set (protocol E))"

section \<open>Rendering and parsing\<close>

text \<open>\<open>RefLike::percent_encode\<close>: the path percent-encode set.\<close>

definition path_percent_encode_set :: "char \<Rightarrow> bool" where
  "path_percent_encode_set c =
     (is_ascii_control c \<or>
      c \<in> {CHR '' '', CHR 0x22, CHR ''<'', CHR ''>'', CHR 0x60, CHR ''#'', CHR ''?'', CHR 0x7B, CHR 0x7D})"

definition reflike_percent_encode :: "('r, 'b) urn_env \<Rightarrow> string \<Rightarrow> string" where
  "reflike_percent_encode E s = utf8_percent_encode E s path_percent_encode_set"

definition urn_encode_id :: "('r, 'b) urn_env \<Rightarrow> 'r urn \<Rightarrow> string" where
  "urn_encode_id E u = multibase_encode E (into_multihash E (urn_id u))"

datatype decode_id_error = InvalidId_decode | Encoding_decode | Multihash_decode

definition urn_try_from_id :: "('r, 'b) urn_env \<Rightarrow> string \<Rightarrow> decode_id_error + 'r urn" where
  "urn_try_from_id E s =
     and_then (ok_or Encoding_decode (multibase_decode E s)) (\<lambda>bytes.
     and_then (ok_or Multihash_decode (multihash_from_bytes E bytes)) (\<lambda>mhash.
     and_then (ok_or InvalidId_decode (from_multihash E mhash)) (\<lambda>i. Inr (urn_new i))))"

datatype from_reflike_error =
    Missing_ref string
  | Namespaced_ref strip_prefix_error
  | InvalidId_ref decode_id_error
  | Path_ref reflike_error

definition urn_try_from_reflike :: "('r, 'b) urn_env \<Rightarrow> string \<Rightarrow> from_reflike_error + 'r urn" where
  "urn_try_from_reflike E name =
     and_then (map_err Namespaced_ref (reflike_strip_prefix name ''refs/namespaces/'')) (\<lambda>name.
       case split_on slash name of
         [] \<Rightarrow> Inl (Missing_ref ''namespace'')
       | ns # suf \<Rightarrow>
           and_then (map_err InvalidId_ref (urn_try_from_id E ns)) (\<lambda>urn.
             let path = join_with slash suf in
             and_then (if path = [] then Inr None
                       else map_ok Some (map_err Path_ref (reflike_try_from path)))
               (\<lambda>path. Inr (urn_with_path urn path))))"

text \<open>\<open>None\<close> when the \<open>unwrap\<close> of the encoded identifier panics.\<close>

definition reflike_from_urn :: "('r, 'b) urn_env \<Rightarrow> 'r urn \<Rightarrow> string option" where
  "reflike_from_urn E u =
     (case reflike_try_from (urn_encode_id E u) of
        Inl _ \<Rightarrow> None
      | Inr name \<Rightarrow>
          (case urn_path u of
             None \<Rightarrow> Some name
           | Some path \<Rightarrow> Some (reflike_join name (qualified_from_reflike path))))"

definition component_from_urn :: "('r, 'b) urn_env \<Rightarrow> 'r urn \<Rightarrow> string option" where
  "component_from_urn E u =
     (case refstr_try_from (urn_encode_id E u) of
        Inl _ \<Rightarrow> None
      | Inr rs \<Rightarrow> component_from_refstring rs)"

definition urn_display :: "('r, 'b) urn_env \<Rightarrow> 'r urn \<Rightarrow> string" where
  "urn_display E u =
     ''rad:'' @ protocol E @ '':'' @ urn_encode_id E u
       @ (case urn_path u of None \<Rightarrow> [] | Some path \<Rightarrow> ''/'' @ reflike_percent_encode E path)"

datatype from_str_error =
    Missing_str string
  | InvalidNID string
  | InvalidProto string
  | InvalidId_str string decode_id_error
  | Path_str reflike_error
  | Utf8_str

text \<open>\<open>splitn(2, '/')\<close>\<close>

fun splitn2 :: "string \<Rightarrow> string \<times> string option" where
  "splitn2 [] = ([], None)"
| "splitn2 (c # cs) = (if c = slash then ([], Some cs) else apfst (Cons c) (splitn2 cs))"

fun nth_part :: "nat \<Rightarrow> 'a list \<Rightarrow> 'a option" where
  "nth_part n [] = None"
| "nth_part 0 (x # xs) = Some x"
| "nth_part (Suc n) (x # xs) = nth_part n xs"

definition urn_from_str :: "('r, 'b) urn_env \<Rightarrow> string \<Rightarrow> from_str_error + 'r urn" where
  "urn_from_str E s =
     (let components = split_on (CHR '':'') s in
      and_then (ok_or (Missing_str ''namespace'') (nth_part 0 components)) (\<lambda>nid.
      if nid \<noteq> ''rad'' then Inl (InvalidNID nid) else
      and_then (ok_or (Missing_str ''protocol'') (nth_part 1 components)) (\<lambda>proto.
      if proto \<noteq> protocol E then Inl (InvalidProto proto) else
      and_then (ok_or (Missing_str ''id[/path]'') (nth_part 2 components)) (\<lambda>s.
      and_then (ok_or Utf8_str (percent_decode_utf8 E s)) (\<lambda>decoded.
      let (i, p) = splitn2 decoded in
      and_then (map_err (InvalidId_str i) (urn_try_from_id E i)) (\<lambda>urn.
      case p of
        None \<Rightarrow> Inr (urn_with_path urn None)
      | Some p \<Rightarrow>
          map_ok (\<lambda>p. urn_with_path urn (Some p)) (map_err Path_str (reflike_try_from p))))))))"

section \<open>The encoded structure\<close>

datatype some_protocol = Git_protocol

definition some_protocol_try_from :: "string \<Rightarrow> string + some_protocol" where
  "some_protocol_try_from s = (if s = ''git'' then Inr Git_protocol else Inl ''unknown protocol'')"

fun some_protocol_encode :: "some_protocol \<Rightarrow> nat" where
  "some_protocol_encode Git_protocol = 0"

definition some_protocol_decode :: "nat \<Rightarrow> string + some_protocol" where
  "some_protocol_decode n = (if n = 0 then Inr Git_protocol else Inl ''unknown protocol'')"

record 'b as_cbor =
  cbor_id :: 'b
  cbor_proto :: some_protocol
  cbor_path :: "string option"

text \<open>\<open>None\<close> when the \<open>unwrap\<close> of the protocol panics.\<close>

definition urn_encode :: "('r, 'b) urn_env \<Rightarrow> 'r urn \<Rightarrow> 'b as_cbor option" where
  "urn_encode E u =
     (case some_protocol_try_from (protocol E) of
        Inl _ \<Rightarrow> None
      | Inr proto \<Rightarrow>
          Some \<lparr>cbor_id = into_multihash E (urn_id u), cbor_proto = proto, cbor_path = urn_path u\<rparr>)"

definition urn_decode :: "('r, 'b) urn_env \<Rightarrow> 'b as_cbor \<Rightarrow> string + 'r urn" where
  "urn_decode E c =
     and_then (ok_or ''invalid multihash'' (multihash_from_bytes E (cbor_id c))) (\<lambda>mhash.
     and_then (ok_or ''invalid id'' (from_multihash E mhash)) (\<lambda>i.
     case cbor_path c of
       None \<Rightarrow> Inr (Urn i None)
     | Some p \<Rightarrow>
         map_ok (\<lambda>p. Urn i (Some p)) (map_err (\<lambda>_. ''invalid path'') (reflike_try_from p))))"

section \<open>Laws\<close>

lemma urn_envD:
  assumes "urn_env_ok E"
  shows "is_component (urn_encode_id E u)" "urn_encode_id E u \<noteq> ''@''"
    "CHR ''%'' \<notin> set (urn_encode_id E u)"
    "urn_try_from_id E (urn_encode_id E u) = Inr (urn_new (urn_id u))"
  using assms by (auto simp: urn_env_ok_def urn_encode_id_def urn_try_from_id_def)

lemma urn_env_protocol: "urn_env_ok E \<Longrightarrow> CHR '':'' \<notin> set (protocol E)"
  by (simp add: urn_env_ok_def)

lemma urn_env_percent:
  assumes "urn_env_ok E"
  shows "CHR '':'' \<notin> set s \<Longrightarrow> CHR '':'' \<notin> set (reflike_percent_encode E s)"
    "list_all (plain path_percent_encode_set) s \<Longrightarrow> reflike_percent_encode E s = s"
    "CHR ''%'' \<notin> set s \<Longrightarrow> percent_decode_utf8 E (reflike_percent_encode E s) = Some s"
    "CHR ''%'' \<notin> set s \<Longrightarrow>
       percent_decode_utf8 E (s @ t) = map_option (append s) (percent_decode_utf8 E t)"
    "CHR ''%'' \<notin> set s \<Longrightarrow> percent_decode_utf8 E s = Some s"
proof -
  show "CHR '':'' \<notin> set s \<Longrightarrow> CHR '':'' \<notin> set (reflike_percent_encode E s)"
    "list_all (plain path_percent_encode_set) s \<Longrightarrow> reflike_percent_encode E s = s"
    "CHR ''%'' \<notin> set s \<Longrightarrow> percent_decode_utf8 E (reflike_percent_encode E s) = Some s"
    and a: "\<And>t. CHR ''%'' \<notin> set s \<Longrightarrow>
       percent_decode_utf8 E (s @ t) = map_option (append s) (percent_decode_utf8 E t)"
    using assms by (simp_all add: urn_env_ok_def reflike_percent_encode_def)
  then show "CHR ''%'' \<notin> set s \<Longrightarrow> percent_decode_utf8 E s = Some s"
    using a [of "[]"] assms by (simp add: urn_env_ok_def)
qed

lemma component_no_colon: "is_component c \<Longrightarrow> CHR '':'' \<notin> set c"
  by (auto simp: is_component_def component_ok_def forbidden_char_def list_all_iff)

lemma refstr_no_colon: "is_refstr s \<Longrightarrow> CHR '':'' \<notin> set s"
  using set_concat_split [of "CHR '':''" slash s] component_no_colon
  by (auto simp: is_refstr_iff refstr_components_def list_all_iff)

lemma splitn2_notin: "slash \<notin> set a \<Longrightarrow> splitn2 a = (a, None)"
  by (induction a) auto

lemma splitn2_append: "slash \<notin> set a \<Longrightarrow> splitn2 (a @ slash # b) = (a, Some b)"
  by (induction a) auto

lemma component_refstr: "is_component c \<Longrightarrow> c \<noteq> ''@'' \<Longrightarrow> is_refstr c"
  by (simp add: is_refstr_iff)

lemma urn_eqs [simp]: "urn_with_path (urn_new i) p = Urn i p"
  by (simp add: urn_with_path_def urn_new_def urn_map_path_def)

text \<open>A path is a valid name, as its type \<open>RefLike\<close> promises.\<close>

definition urn_ok :: "'r urn \<Rightarrow> bool" where
  "urn_ok u = (\<forall>p. urn_path u = Some p \<longrightarrow> is_refstr p)"

lemma urn_from_str_display:
  assumes E: "urn_env_ok E" and u: "urn_ok u" and p: "\<And>p. urn_path u = Some p \<Longrightarrow> CHR ''%'' \<notin> set p"
  shows "urn_from_str E (urn_display E u) = Inr u"
proof -
  note i = urn_envD [OF E, of u]
  have colon: "CHR '':'' \<notin> set (urn_encode_id E u)" and slash: "slash \<notin> set (urn_encode_id E u)"
    using i(1) component_no_colon by (auto simp: is_component_def)
  define rest where "rest = urn_encode_id E u
    @ (case urn_path u of None \<Rightarrow> [] | Some path \<Rightarrow> ''/'' @ reflike_percent_encode E path)"
  have rc: "CHR '':'' \<notin> set rest"
    using colon u refstr_no_colon urn_env_percent(1) [OF E]
    by (auto simp: rest_def urn_ok_def split: option.splits)
  have d: "urn_display E u = ''rad'' @ CHR '':'' # (protocol E @ CHR '':'' # rest)"
    by (simp add: urn_display_def rest_def)
  have parts: "split_on (CHR '':'') (urn_display E u) = [''rad'', protocol E, rest]"
    using split_on_append [of "CHR '':''" "''rad''" "protocol E @ CHR '':'' # rest"]
      split_on_append [of "CHR '':''" "protocol E" rest] urn_env_protocol [OF E] rc
    unfolding d by (simp add: split_on_notin)
  have dec: "percent_decode_utf8 E rest = Some (urn_encode_id E u
      @ (case urn_path u of None \<Rightarrow> [] | Some path \<Rightarrow> slash # path))"
  proof (cases "urn_path u")
    case None
    then show ?thesis using urn_env_percent(5) [OF E i(3)] by (simp add: rest_def)
  next
    case (Some q)
    have "CHR ''%'' \<notin> set (urn_encode_id E u @ ''/'')" using i(3) by simp
    from urn_env_percent(4) [OF E this, of "reflike_percent_encode E q"] Some show ?thesis
      using urn_env_percent(3) [OF E p [OF Some]] by (simp add: rest_def)
  qed
  show ?thesis
  proof (cases "urn_path u")
    case None
    then have "Urn (urn_id u) None = u" using urn.collapse [of u] by simp
    then show ?thesis using dec i(4) None splitn2_notin [OF slash]
      by (simp add: urn_from_str_def Let_def parts numeral_2_eq_2)
  next
    case (Some q)
    then have "Urn (urn_id u) (Some q) = u" using urn.collapse [of u] by simp
    moreover have "reflike_try_from q = Inr q" using u Some by (simp add: urn_ok_def reflike_try_from_iff)
    ultimately show ?thesis using dec i(4) Some splitn2_append [OF slash, of q]
      by (simp add: urn_from_str_def Let_def parts numeral_2_eq_2)
  qed
qed

lemma urn_reflike_roundtrip:
  assumes E: "urn_env_ok E" and u: "urn_ok u"
  obtains name where "reflike_from_urn E u = Some name" "is_refstr name"
    "urn_try_from_reflike E (''refs/namespaces/'' @ name)
       = Inr (urn_map_path (map_option qualified_from_reflike) u)"
proof -
  note i = urn_envD [OF E, of u]
  have enc: "is_refstr (urn_encode_id E u)" by (rule component_refstr [OF i(1,2)])
  then have t: "reflike_try_from (urn_encode_id E u) = Inr (urn_encode_id E u)"
    by (simp add: reflike_try_from_iff)
  have slash: "slash \<notin> set (urn_encode_id E u)" using i(1) by (simp add: is_component_def)
  have strip: "reflike_strip_prefix (''refs/namespaces/'' @ n) ''refs/namespaces/'' = Inr n" if "n \<noteq> []" for n
    using that by (simp add: reflike_strip_prefix_def strip_suffix_slash_def)
  have ne: "urn_encode_id E u \<noteq> []" using i(1) by (auto simp: is_component_def component_ok_def)
  show thesis
  proof (cases "urn_path u")
    case None
    then have u': "Urn (urn_id u) None = u" using urn.collapse [of u] by simp
    then have "urn_try_from_reflike E (''refs/namespaces/'' @ urn_encode_id E u) = Inr u"
      using strip [OF ne] i(4) slash
      by (simp add: urn_try_from_reflike_def split_on_notin Let_def del: append_Cons)
    then show thesis using None u' enc t that [of "urn_encode_id E u"]
      by (simp add: reflike_from_urn_def urn_map_path_def)
  next
    case (Some p)
    let ?q = "qualified_from_reflike p"
    have q: "is_refstr ?q" using u Some qualified_from_reflike_valid by (simp add: urn_ok_def)
    then have qne: "?q \<noteq> []" by (auto simp: is_refstr_iff refstr_components_def is_component_def component_ok_def)
    let ?n = "reflike_join (urn_encode_id E u) ?q"
    have split: "split_on slash ?n = urn_encode_id E u # split_on slash ?q"
      using split_on_append [of slash "urn_encode_id E u" ?q] slash
      by (simp add: reflike_join_def split_on_notin)
    have "reflike_try_from ?q = Inr ?q" using q by (simp add: reflike_try_from_iff)
    then have "urn_try_from_reflike E (''refs/namespaces/'' @ ?n) = Inr (Urn (urn_id u) (Some ?q))"
      using strip [of ?n] i(4) split qne
      by (simp add: urn_try_from_reflike_def Let_def reflike_join_def del: append_Cons)
    then show thesis using Some t reflike_join_refstr [OF enc q] that [of ?n]
      by (simp add: reflike_from_urn_def urn_map_path_def)
  qed
qed

lemma component_from_urn_total:
  "urn_env_ok E \<Longrightarrow> component_from_urn E u = Some (urn_encode_id E u)"
  using urn_envD(1,2) [of E u] refstr_try_from_iff [of "urn_encode_id E u" "urn_encode_id E u"] component_refstr
  by (auto simp: component_from_urn_def component_from_refstring_def is_component_def)

lemma urn_decode_encode:
  "urn_env_ok E \<Longrightarrow> urn_ok u \<Longrightarrow> urn_encode E u = Some c \<Longrightarrow> urn_decode E c = Inr u"
  by (cases u) (auto simp: urn_encode_def urn_decode_def urn_ok_def urn_env_ok_def reflike_try_from_iff
      split: sum.splits option.splits)

text \<open>
  The percent sign is not in the set of characters that are encoded, so that a path which
  contains what looks like an encoded character is not recovered.
\<close>

lemma urn_percent_lost:
  assumes "urn_env_ok E" "percent_decode_utf8 E ''%41'' = Some ''A''"
  shows "is_refstr ''%41''"
    and "urn_from_str E (urn_display E (Urn i (Some ''%41''))) = Inr (Urn i (Some ''A''))"
proof -
  show r: "is_refstr ''%41''" by code_simp
  have p: "list_all (plain path_percent_encode_set) ''%41''" "list_all (plain path_percent_encode_set) ''A''"
    by code_simp+
  have "urn_display E (Urn i (Some ''%41'')) = ''rad:'' @ protocol E @ '':'' @ urn_encode_id E (Urn i None) @ ''/%41''"
    using urn_env_percent(2) [OF assms(1) p(1)] by (simp add: urn_display_def urn_encode_id_def)
  note i = urn_envD [OF assms(1), of "Urn i None"]
  let ?rest = "urn_encode_id E (Urn i None) @ ''/%41''"
  have c: "CHR '':'' \<notin> set ?rest" using component_no_colon [OF i(1)] by simp
  have parts: "split_on (CHR '':'') (urn_display E (Urn i (Some ''%41''))) = [''rad'', protocol E, ?rest]"
    using split_on_append [of "CHR '':''" "''rad''" "protocol E @ CHR '':'' # ?rest"]
      split_on_append [of "CHR '':''" "protocol E" ?rest] urn_env_protocol [OF assms(1)] c \<open>urn_display E _ = _\<close>
    by (simp add: split_on_notin)
  have "CHR ''%'' \<notin> set (urn_encode_id E (Urn i None) @ ''/'')" using i(3) by simp
  from urn_env_percent(4) [OF assms(1) this, of "''%41''"] assms(2)
  have dec: "percent_decode_utf8 E ?rest = Some (urn_encode_id E (Urn i None) @ slash # ''A'')" by simp
  have "slash \<notin> set (urn_encode_id E (Urn i None))" using i(1) by (simp add: is_component_def)
  moreover have "reflike_try_from ''A'' = Inr ''A''" by code_simp
  ultimately show "urn_from_str E (urn_display E (Urn i (Some ''%41''))) = Inr (Urn i (Some ''A''))"
    using dec i(4) splitn2_append [of "urn_encode_id E (Urn i None)" "''A''"]
    by (simp add: urn_from_str_def Let_def parts numeral_2_eq_2)
qed

section \<open>Properties\<close>

definition example_urn_env :: "(bool, bool) urn_env" where
  "example_urn_env =
     \<lparr>protocol = ''git'', into_multihash = id, from_multihash = Some, multihash_from_bytes = Some,
      multibase_encode = \<lambda>b. if b then ''hyt'' else ''hnr'',
      multibase_decode = \<lambda>s. if s = ''hyt'' then Some True else if s = ''hnr'' then Some False else None,
      utf8_percent_encode = \<lambda>s _. s, percent_decode_utf8 = Some\<rparr>"

lemma example_urn_env_ok [simp]: "urn_env_ok example_urn_env"
proof -
  have "is_component ''hyt''" "is_component ''hnr''" by code_simp+
  then show ?thesis by (simp add: urn_env_ok_def example_urn_env_def all_bool_eq)
qed



end
