(* ===== verification/Peer.thy ===== *)
theory Peer
  imports Ref_Like "HOL-Library.Word" "HOL-Library.List_Lexorder"
begin

text \<open>
  Keys, signatures and peer identifiers (\<open>link-crypto/src/keys.rs\<close>, \<open>link-crypto/src/peer.rs\<close>)
  with their encodings: as text, a version byte followed by the key in z-base-32, and as
  CBOR. A public key is its 32 bytes and a signature its 64 bytes; that is also all that
  \<open>ed25519\<close> checks when it is given bytes. Text encoding is done by another crate and is the
  parameter \<open>multibase\<close>; of CBOR the items that are written and read are modelled.
\<close>

section \<open>Encoding bytes as text\<close>

type_synonym bytes = "8 word list"

record multibase =
  mb_encode :: "bytes \<Rightarrow> string"
  mb_decode :: "string \<Rightarrow> bytes option"

text \<open>The alphabet of z-base-32, and the character that stands for it.\<close>

definition zbase32 :: string where
  "zbase32 = ''ybndrfg8ejkmcpqxot1uwisza345h769''"

text \<open>
  Decoding undoes encoding; the text is the character of the base followed by characters of
  its alphabet, each of which holds five bits.
\<close>

definition multibase_ok :: "multibase \<Rightarrow> bool" where
  "multibase_ok M =
     (\<forall>bs. mb_decode M (mb_encode M bs) = Some bs
         \<and> (\<exists>t. mb_encode M bs = CHR ''h'' # t \<and> set t \<subseteq> set zbase32
               \<and> length t = (length bs * 8 + 4) div 5))"

section \<open>Public keys and signatures\<close>

definition PUBLICKEYBYTES :: nat where "PUBLICKEYBYTES = 32"
definition SIGNATUREBYTES :: nat where "SIGNATUREBYTES = 64"
definition VERSION :: "8 word" where "VERSION = 0"

definition public_key_from_slice :: "bytes \<Rightarrow> bytes option" where
  "public_key_from_slice bs = (if length bs = PUBLICKEYBYTES then Some bs else None)"

definition signature_try_from :: "bytes \<Rightarrow> bytes option" where
  "signature_try_from bs = (if length bs = SIGNATUREBYTES then Some bs else None)"

datatype visit_error =
    Multibase_error
  | Empty_input
  | Unknown_version "8 word"
  | Invalid_data

definition public_key_serialize :: "multibase \<Rightarrow> bytes \<Rightarrow> string" where
  "public_key_serialize M key = mb_encode M (VERSION # key)"

definition public_key_visit_str :: "multibase \<Rightarrow> string \<Rightarrow> visit_error + bytes" where
  "public_key_visit_str M s =
     and_then (ok_or Multibase_error (mb_decode M s)) (\<lambda>bytes.
       case bytes of
         [] \<Rightarrow> Inl Empty_input
       | version # data \<Rightarrow>
           if version \<noteq> VERSION then Inl (Unknown_version version)
           else ok_or Invalid_data (public_key_from_slice data))"

definition signature_serialize :: "multibase \<Rightarrow> bytes \<Rightarrow> string" where
  "signature_serialize M sig = mb_encode M ([VERSION] @ sig)"

definition signature_visit_str :: "multibase \<Rightarrow> string \<Rightarrow> visit_error + bytes" where
  "signature_visit_str M s =
     and_then (ok_or Multibase_error (mb_decode M s)) (\<lambda>bytes.
       case bytes of
         [] \<Rightarrow> Inl Empty_input
       | version # data \<Rightarrow>
           if version \<noteq> VERSION then Inl (Unknown_version version)
           else ok_or Invalid_data (signature_try_from data))"

section \<open>CBOR\<close>

datatype cbor_item = Cbor_array "nat option" | Cbor_u8 "8 word" | Cbor_bytes bytes

datatype cbor_error = Cbor_end | Cbor_type | Cbor_message string

fun cbor_take_array :: "cbor_item list \<Rightarrow> cbor_error + nat option \<times> cbor_item list" where
  "cbor_take_array (Cbor_array n # d) = Inr (n, d)"
| "cbor_take_array (_ # d) = Inl Cbor_type"
| "cbor_take_array [] = Inl Cbor_end"

fun cbor_take_u8 :: "cbor_item list \<Rightarrow> cbor_error + 8 word \<times> cbor_item list" where
  "cbor_take_u8 (Cbor_u8 n # d) = Inr (n, d)"
| "cbor_take_u8 (_ # d) = Inl Cbor_type"
| "cbor_take_u8 [] = Inl Cbor_end"

fun cbor_take_bytes :: "cbor_item list \<Rightarrow> cbor_error + bytes \<times> cbor_item list" where
  "cbor_take_bytes (Cbor_bytes bs # d) = Inr (bs, d)"
| "cbor_take_bytes (_ # d) = Inl Cbor_type"
| "cbor_take_bytes [] = Inl Cbor_end"

definition public_key_encode :: "bytes \<Rightarrow> cbor_item list" where
  "public_key_encode key = [Cbor_array (Some 2), Cbor_u8 VERSION, Cbor_bytes key]"

definition public_key_decode :: "cbor_item list \<Rightarrow> cbor_error + bytes \<times> cbor_item list" where
  "public_key_decode d =
     and_then (cbor_take_array d) (\<lambda>(n, d).
     if n \<noteq> Some 2 then Inl (Cbor_message ''expected 2-element array'') else
     and_then (cbor_take_u8 d) (\<lambda>(v, d).
     if v \<noteq> VERSION then Inl (Cbor_message ''Unknown version'') else
     and_then (cbor_take_bytes d) (\<lambda>(data, d).
     map_ok (\<lambda>k. (k, d))
       (ok_or (Cbor_message ''Invalid length for ed25519 public key'') (public_key_from_slice data)))))"

definition signature_encode :: "bytes \<Rightarrow> cbor_item list" where
  "signature_encode sig = [Cbor_array (Some 2), Cbor_u8 VERSION, Cbor_bytes sig]"

definition signature_decode :: "cbor_item list \<Rightarrow> cbor_error + bytes \<times> cbor_item list" where
  "signature_decode d =
     and_then (cbor_take_array d) (\<lambda>(n, d).
     if n \<noteq> Some 2 then Inl (Cbor_message ''expected 2-element array'') else
     and_then (cbor_take_u8 d) (\<lambda>(v, d).
     if v \<noteq> VERSION then Inl (Cbor_message ''Unknown version'') else
     and_then (cbor_take_bytes d) (\<lambda>(data, d).
     map_ok (\<lambda>k. (k, d))
       (ok_or (Cbor_message ''Invalid length for ed25519 signature'') (signature_try_from data)))))"

section \<open>Peer identifiers\<close>

text \<open>A \<open>PeerId\<close> is its public key.\<close>

definition peer_default_encoding :: "multibase \<Rightarrow> bytes \<Rightarrow> string" where
  "peer_default_encoding M key = mb_encode M (0 # key)"

definition ENCODED_LEN :: nat where
  "ENCODED_LEN = 1 + (((PUBLICKEYBYTES + 1) * 8 + 4) div 5)"

datatype conversion_error =
    UnexpectedInputLength nat
  | UnknownVersion "8 word"
  | InvalidPublicKey
  | DecodeError

text \<open>\<open>None\<close> when the \<open>expect\<close> on the first byte panics.\<close>

definition peer_from_default_encoding :: "multibase \<Rightarrow> string \<Rightarrow> (conversion_error + bytes) option" where
  "peer_from_default_encoding M s =
     (if length s \<noteq> ENCODED_LEN then Some (Inl (UnexpectedInputLength (length s)))
      else case mb_decode M s of
        None \<Rightarrow> Some (Inl DecodeError)
      | Some bytes \<Rightarrow>
          (case bytes of
             [] \<Rightarrow> None
           | version # key \<Rightarrow>
               if version \<noteq> 0 then Some (Inl (UnknownVersion version))
               else Some (ok_or InvalidPublicKey (public_key_from_slice key))))"

definition reflike_from_peer :: "multibase \<Rightarrow> bytes \<Rightarrow> string option" where
  "reflike_from_peer M peer =
     (case reflike_try_from (peer_default_encoding M peer) of Inl _ \<Rightarrow> None | Inr r \<Rightarrow> Some r)"

definition component_from_peer :: "multibase \<Rightarrow> bytes \<Rightarrow> string option" where
  "component_from_peer M peer =
     (case refstr_try_from (peer_default_encoding M peer) of
        Inl _ \<Rightarrow> None
      | Inr r \<Rightarrow> component_from_refstring r)"

record ('k, 'v) originates =
  orig_from :: 'k
  orig_value :: 'v

section \<open>Laws\<close>

definition is_key :: "bytes \<Rightarrow> bool" where
  "is_key k = (length k = PUBLICKEYBYTES)"

lemma multibaseD:
  assumes "multibase_ok M"
  shows "mb_decode M (mb_encode M bs) = Some bs"
    "\<exists>t. mb_encode M bs = CHR ''h'' # t \<and> set t \<subseteq> set zbase32 \<and> length t = (length bs * 8 + 4) div 5"
  using assms by (simp_all add: multibase_ok_def)

text \<open>Text in this alphabet is a valid component of a reference name.\<close>

lemma zbase32_component:
  assumes "s \<noteq> []" "set s \<subseteq> set zbase32"
  shows "is_component s"
proof -
  have dot: "CHR ''.'' \<notin> set zbase32" and at: "CHR ''@'' \<notin> set zbase32"
    and ok: "list_all (\<lambda>c. \<not> forbidden_char c \<and> c \<noteq> slash \<and> c \<noteq> CHR ''*'') zbase32"
    by code_simp+
  have c: "\<not> forbidden_char c" "c \<noteq> slash" "c \<noteq> CHR ''*''" "c \<noteq> CHR ''.''" "c \<noteq> CHR ''@''"
    if "c \<in> set s" for c
    using that assms(2) dot at ok unfolding list_all_iff by blast+
  have "\<not> suffix ''.lock'' s" using set_mono_suffix [of "''.lock''" s] c(4) by fastforce
  moreover have "\<not> sublist ''..'' s" using set_mono_sublist [of "''..''" s] c(4) by fastforce
  moreover have "\<not> sublist [CHR ''@'', CHR 0x7B] s"
    using set_mono_sublist [of "[CHR ''@'', CHR 0x7B]" s] c(5) by fastforce
  moreover have "hd s \<noteq> CHR ''.''" "last s \<noteq> CHR ''.''" "last s \<noteq> CHR ''@''" using assms(1) c(4,5) by auto
  moreover have "list_all (\<lambda>c. \<not> forbidden_char c) s" "slash \<notin> set s" "CHR ''*'' \<notin> set s"
    using c(1-3) by (auto simp: list_all_iff)
  ultimately show ?thesis using assms(1) by (simp add: is_component_def component_ok_def)
qed

lemma encoded_component:
  assumes "multibase_ok M" "is_key k"
  shows "is_component (peer_default_encoding M k)" "length (peer_default_encoding M k) = ENCODED_LEN"
proof -
  obtain t where t: "mb_encode M (0 # k) = CHR ''h'' # t" "set t \<subseteq> set zbase32"
    "length t = (length (0 # k) * 8 + 4) div 5"
    using multibaseD(2) [OF assms(1), of "0 # k"] by blast
  have "CHR ''h'' \<in> set zbase32" by code_simp
  with t show "is_component (peer_default_encoding M k)"
    unfolding peer_default_encoding_def by (intro zbase32_component) auto
  show "length (peer_default_encoding M k) = ENCODED_LEN"
    using t(1,3) assms(2) by (simp add: peer_default_encoding_def ENCODED_LEN_def is_key_def PUBLICKEYBYTES_def)
qed

lemma peer_parse_encode:
  assumes "multibase_ok M" "is_key k"
  shows "peer_from_default_encoding M (peer_default_encoding M k) = Some (Inr k)"
  using encoded_component(2) [OF assms] multibaseD(1) [OF assms(1), of "0 # k"] assms(2)
  by (simp add: peer_from_default_encoding_def)
    (simp add: peer_default_encoding_def public_key_from_slice_def is_key_def)

lemma peer_component:
  assumes "multibase_ok M" "is_key k"
  shows "component_from_peer M k = Some (peer_default_encoding M k)"
    and "reflike_from_peer M k = Some (peer_default_encoding M k)"
proof -
  note e = encoded_component [OF assms]
  have "peer_default_encoding M k \<noteq> ''@''" using e(2) by (auto simp: ENCODED_LEN_def PUBLICKEYBYTES_def)
  then have "is_refstr (peer_default_encoding M k)" using e(1) by (simp add: is_refstr_iff)
  then have "reflike_try_from (peer_default_encoding M k) = Inr (peer_default_encoding M k)"
    "refstr_try_from (peer_default_encoding M k) = Inr (peer_default_encoding M k)"
    using refstr_try_from_iff [of "peer_default_encoding M k" "peer_default_encoding M k"]
    by (simp_all add: reflike_try_from_iff)
  then show "component_from_peer M k = Some (peer_default_encoding M k)"
    "reflike_from_peer M k = Some (peer_default_encoding M k)"
    using e(1) by (simp_all add: component_from_peer_def component_from_refstring_def is_component_def
        reflike_from_peer_def)
qed

section \<open>An encoding\<close>

text \<open>Numbers in positional notation, for an encoding that satisfies \<open>multibase_ok\<close>.\<close>

fun digits :: "nat \<Rightarrow> nat \<Rightarrow> nat \<Rightarrow> nat list" where
  "digits b 0 n = []"
| "digits b (Suc k) n = digits b k (n div b) @ [n mod b]"

definition digits_val :: "nat \<Rightarrow> nat list \<Rightarrow> nat" where
  "digits_val b xs = foldl (\<lambda>n d. n * b + d) 0 xs"

lemma digits_val_simps [simp]:
  "digits_val b [] = 0" "digits_val b (xs @ [d]) = digits_val b xs * b + d"
  by (simp_all add: digits_val_def)

lemma length_digits [simp]: "length (digits b k n) = k"
  by (induction k arbitrary: n) auto

lemma digits_less: "0 < b \<Longrightarrow> d \<in> set (digits b k n) \<Longrightarrow> d < b"
  by (induction k arbitrary: n) auto

lemma digits_of_val: "list_all (\<lambda>d. d < b) xs \<Longrightarrow> digits b (length xs) (digits_val b xs) = xs"
  by (induction xs rule: rev_induct) auto

lemma val_of_digits: "n < b ^ k \<Longrightarrow> digits_val b (digits b k n) = n"
proof (induction k arbitrary: n)
  case (Suc k)
  then have "n div b < b ^ k" by (simp add: less_mult_imp_div_less mult.commute)
  with Suc.IH show ?case by simp
qed simp

lemma digits_val_less: "list_all (\<lambda>d. d < b) xs \<Longrightarrow> digits_val b xs < b ^ length xs"
proof (induction xs rule: rev_induct)
  case (snoc d xs)
  then have "digits_val b xs + 1 \<le> b ^ length xs" "d < b" by auto
  then have "(digits_val b xs + 1) * b \<le> b ^ length xs * b" by (intro mult_right_mono) auto
  with \<open>d < b\<close> show ?case by (simp add: mult.commute)
qed simp

fun index_of :: "'a \<Rightarrow> 'a list \<Rightarrow> nat" where
  "index_of x [] = 0"
| "index_of x (y # ys) = (if x = y then 0 else Suc (index_of x ys))"

lemma index_of_nth: "distinct xs \<Longrightarrow> i < length xs \<Longrightarrow> index_of (xs ! i) xs = i"
  by (induction xs arbitrary: i) (auto simp: nth_Cons split: nat.splits)

definition example_multibase :: multibase where
  "example_multibase =
     \<lparr>mb_encode = \<lambda>bs. CHR ''h'' # map (\<lambda>d. zbase32 ! d)
        (digits 32 ((length bs * 8 + 4) div 5) (digits_val 256 (map unat bs))),
      mb_decode = \<lambda>s. case s of [] \<Rightarrow> None
        | _ # t \<Rightarrow> Some (map of_nat
            (digits 256 (length t * 5 div 8) (digits_val 32 (map (\<lambda>c. index_of c zbase32) t))))\<rparr>"

lemma example_multibase_ok: "multibase_ok example_multibase"
  unfolding multibase_ok_def
proof (intro allI conjI)
  fix bs :: bytes
  let ?k = "(length bs * 8 + 4) div 5" and ?v = "digits_val 256 (map unat bs)"
  have z: "distinct zbase32" "length zbase32 = 32" by code_simp+
  have "unat x < 256" for x :: "8 word" using unsigned_less [of x] by simp
  then have b: "list_all (\<lambda>d. d < 256) (map unat bs)" by (simp add: list_all_iff)
  have "?v < 256 ^ length bs" using digits_val_less [OF b] by simp
  also have "(256::nat) ^ length bs = 2 ^ (8 * length bs)" by (simp add: power_mult)
  also have "\<dots> \<le> 2 ^ (5 * ?k)" by (intro power_increasing) auto
  also have "\<dots> = 32 ^ ?k" by (simp add: power_mult)
  finally have v: "digits_val 32 (digits 32 ?k ?v) = ?v" by (rule val_of_digits)
  have i: "map (\<lambda>d. index_of (zbase32 ! d) zbase32) (digits 32 ?k ?v) = digits 32 ?k ?v"
    using digits_less [of 32 _ ?k ?v] z index_of_nth [OF z(1)] by (intro map_idI) simp
  have l: "?k * 5 div 8 = length bs" by linarith
  show "mb_decode example_multibase (mb_encode example_multibase bs) = Some bs"
    using v i l digits_of_val [OF b] by (simp add: example_multibase_def comp_def map_idI)
  have "set (map (\<lambda>d. zbase32 ! d) (digits 32 ?k ?v)) \<subseteq> set zbase32"
    using digits_less [of 32 _ ?k ?v] z(2) by auto
  then show "\<exists>t. mb_encode example_multibase bs = CHR ''h'' # t \<and> set t \<subseteq> set zbase32
      \<and> length t = (length bs * 8 + 4) div 5"
    by (simp add: example_multibase_def)
qed

section \<open>Properties\<close>

definition example_key :: bytes where "example_key = replicate 32 7"



end
