(* ===== verification/Json.thy ===== *)
theory Json
  imports Ordered "HOL-Library.Word" "HOL-Library.List_Lexorder" "HOL-Library.Char_ord"
begin

text \<open>
  Canonical JSON (\<open>link-canonical\<close>): the values with the maps and arrays they are made of
  (\<open>json.rs\<close>), and their canonical form (\<open>json/ser.rs\<close>). Strings are in Unicode normal form C,
  which another crate computes; the parser is put together from a parser library and is
  not modelled.
\<close>

section \<open>Values\<close>

datatype number = U64 "64 word" | I64 "64 word"

datatype json_value =
    Object "(string \<times> json_value) list"
  | Array "json_value list"
  | String string
  | Number number
  | Bool bool
  | Null

fun ty_name :: "json_value \<Rightarrow> string" where
  "ty_name (Object _) = ''object''"
| "ty_name (Array _) = ''array''"
| "ty_name (String _) = ''string''"
| "ty_name (Number _) = ''number''"
| "ty_name (Bool _) = ''bool''"
| "ty_name Null = ''null''"

text \<open>\<open>Map\<close>, the ordered map of an object.\<close>

type_synonym json_map = "(string, json_value) bmap"

definition json_map_new :: json_map where
  "json_map_new = bmap_empty"

definition json_map_insert :: "json_map \<Rightarrow> string \<Rightarrow> json_value \<Rightarrow> json_value option \<times> json_map" where
  "json_map_insert m key val = (bmap_get m key, bmap_insert key val m)"

definition json_map_get :: "json_map \<Rightarrow> string \<Rightarrow> json_value option" where
  "json_map_get m key = bmap_get m key"

definition json_map_remove :: "json_map \<Rightarrow> string \<Rightarrow> json_value option \<times> json_map" where
  "json_map_remove m key = (bmap_get m key, bmap_remove key m)"

definition json_map_len :: "json_map \<Rightarrow> nat" where
  "json_map_len m = bmap_len m"

definition json_map_from_iter :: "('k \<Rightarrow> string) \<Rightarrow> ('a \<Rightarrow> json_value) \<Rightarrow> ('k \<times> 'a) list \<Rightarrow> json_map" where
  "json_map_from_iter key to_cjson kvs = bmap_from_iter (map (\<lambda>(k, v). (key k, to_cjson v)) kvs)"

definition value_from_iter :: "('k \<Rightarrow> string) \<Rightarrow> ('a \<Rightarrow> json_value) \<Rightarrow> ('k \<times> 'a) list \<Rightarrow> json_value" where
  "value_from_iter key to_cjson kvs = Object (json_map_from_iter key to_cjson kvs)"

definition into_object :: "('k \<Rightarrow> string) \<Rightarrow> ('a \<Rightarrow> json_value) \<Rightarrow> ('k \<times> 'a) list \<Rightarrow> json_value" where
  "into_object key to_cjson kvs = Object (json_map_from_iter key to_cjson kvs)"

definition into_array :: "('a \<Rightarrow> json_value) \<Rightarrow> 'a list \<Rightarrow> json_value" where
  "into_array to_cjson xs = Array (map to_cjson xs)"

definition option_into_cjson :: "('a \<Rightarrow> json_value) \<Rightarrow> 'a option \<Rightarrow> json_value" where
  "option_into_cjson to_cjson x = (case x of None \<Rightarrow> Null | Some t \<Rightarrow> to_cjson t)"

section \<open>The canonical form\<close>

text \<open>Decimal digits, as integers are formatted.\<close>

fun show_nat :: "nat \<Rightarrow> string" where
  "show_nat n = (if n < 10 then [char_of (48 + n)] else show_nat (n div 10) @ [char_of (48 + n mod 10)])"

definition show_int :: "int \<Rightarrow> string" where
  "show_int i = (if i < 0 then ''-'' @ show_nat (nat (- i)) else show_nat (nat i))"

fun number_to_bytes :: "number \<Rightarrow> string" where
  "number_to_bytes (U64 x) = show_nat (unat x)"
| "number_to_bytes (I64 x) = show_int (sint x)"

definition between :: "char \<Rightarrow> char \<Rightarrow> string \<Rightarrow> string" where
  "between before after inner = [before] @ inner @ [after]"

definition string_to_bytes :: "string \<Rightarrow> string" where
  "string_to_bytes s = between (CHR 0x22) (CHR 0x22) s"

text \<open>The loop of \<open>intercalate\<close>: a comma after each element but the one at \<open>length - 1\<close>.\<close>

definition intercalate :: "('a \<Rightarrow> string) \<Rightarrow> 'a list \<Rightarrow> string" where
  "intercalate callback xs =
     concat (map (\<lambda>(i, v). callback v @ (if i + 1 \<noteq> length xs then '','' else [])) (enumerate 0 xs))"

lemma intercalate_cong [fundef_cong]:
  assumes "xs = ys" "\<And>v. v \<in> set ys \<Longrightarrow> f v = g v"
  shows "intercalate f xs = intercalate g ys"
  unfolding intercalate_def assms(1)
  using assms(2) by (auto intro!: arg_cong [where f = concat] simp: in_set_enumerate_eq)

fun to_bytes :: "json_value \<Rightarrow> string" where
  "to_bytes (Object obj) =
     between (CHR 0x7B) (CHR 0x7D)
       (intercalate (\<lambda>(key, val). string_to_bytes key @ '':'' @ to_bytes val) obj)"
| "to_bytes (Array array) = between (CHR 0x5B) (CHR 0x5D) (intercalate (\<lambda>v. to_bytes v) array)"
| "to_bytes (String s) = string_to_bytes s"
| "to_bytes (Number n) = number_to_bytes n"
| "to_bytes (Bool b) = (if b then ''true'' else ''false'')"
| "to_bytes Null = ''null''"

definition canonical_form :: "json_value \<Rightarrow> string" where
  "canonical_form v = to_bytes v"

lemma intercalate_simps [simp]:
  "intercalate f [] = []"
  "intercalate f [v] = f v"
  "intercalate f (v # w # r) = f v @ CHR '','' # intercalate f (w # r)"
proof -
  have "map (\<lambda>(i, v). f v @ (if i + 1 \<noteq> Suc n then '','' else [])) (enumerate (Suc k) xs) =
      map (\<lambda>(i, v). f v @ (if i + 1 \<noteq> n then '','' else [])) (enumerate k xs)" for n k xs
    by (induction xs arbitrary: k) auto
  from this [of "length (w # r)" 0 "w # r"]
  show "intercalate f (v # w # r) = f v @ CHR '','' # intercalate f (w # r)"
    by (simp add: intercalate_def del: enumerate_simps(2)) (simp add: enumerate_simps(2))
qed (simp_all add: intercalate_def)

section \<open>Unique decoding\<close>

definition is_digit :: "char \<Rightarrow> bool" where
  "is_digit c = (48 \<le> (of_char c :: nat) \<and> (of_char c :: nat) < 58)"

text \<open>What may follow a value: nothing that would extend a number.\<close>

definition stops :: "string \<Rightarrow> bool" where
  "stops x = (x = [] \<or> \<not> is_digit (hd x))"

declare show_nat.simps [simp del]

lemma show_nat_digits: "list_all is_digit (show_nat n)"
  by (induction n rule: show_nat.induct) (subst show_nat.simps, auto simp: list_all_iff is_digit_def)

lemma show_nat_ne [simp]: "show_nat n \<noteq> []" "[] \<noteq> show_nat n"
  by (subst show_nat.simps, simp)+

lemma show_nat_inj: "show_nat n = show_nat m \<Longrightarrow> n = m"
proof (induction n arbitrary: m rule: show_nat.induct)
  case (1 n)
  have digit: "a mod 10 = b mod 10" if "char_of (48 + a mod 10) = (char_of (48 + b mod 10) :: char)" for a b :: nat
  proof -
    have "(48 + a mod 10) mod 256 = (48 + b mod 10) mod 256"
      using arg_cong [OF that, of "of_char :: char \<Rightarrow> nat"] by simp
    then show ?thesis by simp
  qed
  show ?case
  proof (cases "n < 10 \<or> m < 10")
    case True
    then show ?thesis using 1(2) digit [of n m]
      by (subst (asm) (1 2) show_nat.simps) (auto split: if_splits)
  next
    case False
    then have "show_nat (n div 10) = show_nat (m div 10)"
      "char_of (48 + n mod 10) = (char_of (48 + m mod 10) :: char)"
      using 1(2) by (subst (asm) (1 2) show_nat.simps, simp)+
    then have "n div 10 = m div 10" "n mod 10 = m mod 10"
      using 1(1) False digit [of n m] by auto
    then show ?thesis by (metis div_mult_mod_eq)
  qed
qed

lemma digits_stop:
  assumes "list_all is_digit a" "list_all is_digit b" "stops x" "stops y" "a @ x = b @ y"
  shows "a = b \<and> x = y"
proof -
  have "takeWhile is_digit (a @ x) = a" "takeWhile is_digit (b @ y) = b"
    using assms(1-4) by (simp_all add: list_all_iff takeWhile_append takeWhile_eq_Nil_iff stops_def)
  then show ?thesis using assms(5) by simp
qed

lemma delimiter_unique:
  assumes "c \<notin> set s" "c \<notin> set t" "s @ c # x = t @ c # y"
  shows "s = t \<and> x = y"
proof -
  have "takeWhile (\<lambda>d. d \<noteq> c) (s @ c # x) = s" "takeWhile (\<lambda>d. d \<noteq> c) (t @ c # y) = t"
    using assms(1,2) by (auto simp: takeWhile_append)
  then show ?thesis using assms(3) by simp
qed

lemma intercalate_unique:
  assumes el: "\<And>v w x y. v \<in> set vs \<Longrightarrow> P w \<Longrightarrow> stops x \<Longrightarrow> stops y \<Longrightarrow> f v @ x = f w @ y \<Longrightarrow> v = w \<and> x = y"
    and hd: "\<And>v. f v \<noteq> [] \<and> hd (f v) \<noteq> c"
    and c: "\<not> is_digit c" "c \<noteq> CHR '',''"
    and ws: "list_all P ws" and eq: "intercalate f vs @ c # x = intercalate f ws @ c # y"
  shows "vs = ws \<and> x = y"
  using el ws eq
proof (induction vs arbitrary: ws)
  case Nil
  show ?case
  proof (cases ws)
    case Nil
    with Nil.prems show ?thesis by simp
  next
    case (Cons w r)
    obtain t where "intercalate f ws = f w @ t" using Cons by (cases r) auto
    then show ?thesis using Nil.prems(3) hd [of w] by (cases "f w") auto
  qed
next
  case (Cons v vs)
  have comma: "\<not> is_digit (CHR '','')" by (simp add: is_digit_def)
  have ne: "ws \<noteq> []" using Cons.prems(3) hd [of v] by (cases vs; cases "f v") auto
  obtain w ws' where ws: "ws = w # ws'" using ne by (cases ws) auto
  have el: "f v @ x = f w @ y \<Longrightarrow> stops x \<Longrightarrow> stops y \<Longrightarrow> v = w \<and> x = y" for x y
    using Cons.prems(1,2) ws by auto
  show ?case
  proof (cases vs)
    case Nil
    note v = Nil
    show ?thesis
    proof (cases ws')
      case Nil
      then show ?thesis using Cons.prems(3) ws v el [of "c # x" "c # y"] c by (simp add: stops_def)
    next
      case (Cons w' r)
      then show ?thesis
        using Cons.prems(3) ws v el [of "c # x" "CHR '','' # intercalate f ws' @ c # y"] c comma
        by (auto simp: stops_def)
    qed
  next
    case (Cons v' r)
    note v = Cons
    show ?thesis
    proof (cases ws')
      case Nil
      then show ?thesis
        using Cons.prems(3) ws v el [of "CHR '','' # intercalate f vs @ c # x" "c # y"] c comma
        by (auto simp: stops_def)
    next
      case (Cons w' r')
      then have "f v @ CHR '','' # intercalate f vs @ c # x = f w @ CHR '','' # intercalate f ws' @ c # y"
        using Cons.prems(3) ws v by simp
      from el [OF this] have "v = w" "intercalate f vs @ c # x = intercalate f ws' @ c # y"
        using comma by (simp_all add: stops_def)
      then show ?thesis using Cons.IH [of ws'] Cons.prems(1,2) ws by auto
    qed
  qed
qed

text \<open>Values whose strings need no escape, and whose signed numbers are negative.\<close>

fun plain_value :: "json_value \<Rightarrow> bool" where
  "plain_value (Object obj) = list_all (\<lambda>(k, v). CHR 0x22 \<notin> set k \<and> plain_value v) obj"
| "plain_value (Array array) = list_all plain_value array"
| "plain_value (String s) = (CHR 0x22 \<notin> set s)"
| "plain_value (Number (I64 x)) = (sint x < 0)"
| "plain_value _ = True"

fun first_char :: "json_value \<Rightarrow> char" where
  "first_char (Object _) = CHR 0x7B"
| "first_char (Array _) = CHR 0x5B"
| "first_char (String _) = CHR 0x22"
| "first_char (Number n) = hd (number_to_bytes n)"
| "first_char (Bool b) = (if b then CHR ''t'' else CHR ''f'')"
| "first_char Null = CHR ''n''"

lemma to_bytes_hd: "to_bytes v \<noteq> [] \<and> hd (to_bytes v) = first_char v"
proof (cases v)
  case (Number n)
  then show ?thesis by (cases n) (auto simp: show_int_def)
qed (simp_all add: between_def string_to_bytes_def)

lemma number_first: "is_digit (hd (number_to_bytes n)) \<or> hd (number_to_bytes n) = CHR ''-''"
proof -
  have "is_digit (hd (show_nat m))" for m
    using show_nat_digits [of m] by (cases "show_nat m") auto
  then show ?thesis by (cases n) (auto simp: show_int_def)
qed

lemma value_first: "first_char v \<notin> {CHR 0x5D, CHR 0x7D, CHR '','', CHR '':''}"
proof (cases v)
  case (Number n)
  then show ?thesis using number_first [of n] by (auto simp: is_digit_def)
qed auto

lemma number_unique:
  assumes "plain_value (Number n)" "plain_value (Number m)" "stops x" "stops y"
    and "number_to_bytes n @ x = number_to_bytes m @ y"
  shows "n = m \<and> x = y"
proof -
  have shown: "a = b \<and> x = y" if "show_nat a @ x = show_nat b @ y" for a b
    using digits_stop [OF show_nat_digits show_nat_digits assms(3,4) that] show_nat_inj by blast
  have minus: "hd (show_nat a) \<noteq> CHR ''-''" for a
    using show_nat_digits [of a] by (cases "show_nat a") (auto simp: is_digit_def)
  have no: "show_nat a @ s \<noteq> CHR ''-'' # t" for a s t
    using minus [of a] show_nat_ne(1) [of a] by (metis hd_append list.sel(1))
  show ?thesis
  proof (cases n; cases m)
    fix a b assume nm: "n = U64 a" "m = U64 b"
    then have "unat a = unat b \<and> x = y" using assms(5) shown [of "unat a" "unat b"] by simp
    then show ?thesis using nm by (auto intro: unsigned_word_eqI)
  next
    fix a b assume nm: "n = I64 a" "m = I64 b"
    then have "nat (- sint a) = nat (- sint b) \<and> x = y"
      using assms(1,2,5) shown [of "nat (- sint a)" "nat (- sint b)"] by (simp add: show_int_def)
    then have "sint a = sint b \<and> x = y" using nm assms(1,2) by (simp add: nat_eq_iff2)
    then show ?thesis using nm by (auto intro: signed_word_eqI)
  next
    fix a b assume "n = U64 a" "m = I64 b"
    then show ?thesis using assms(2,5) no [of "unat a" x] by (simp add: show_int_def)
  next
    fix a b assume "n = I64 a" "m = U64 b"
    then show ?thesis using assms(1,5) no [of "unat b" y] by (simp add: show_int_def) (metis append_Cons)
  qed
qed

lemma first_char_eq: "to_bytes v @ x = to_bytes w @ y \<Longrightarrow> first_char v = first_char w"
  using to_bytes_hd [of v] to_bytes_hd [of w] by (metis hd_append)

lemma number_first_other: "hd (number_to_bytes n) \<notin> {CHR 0x7B, CHR 0x5B, CHR 0x22, CHR ''t'', CHR ''f'', CHR ''n''}"
  using number_first [of n] by (auto simp: is_digit_def)

lemma first_char_ty: "first_char v = first_char w \<Longrightarrow> ty_name v = ty_name w"
proof (cases "(\<exists>n. v = Number n) \<or> (\<exists>n. w = Number n)")
  case True
  moreover assume "first_char v = first_char w"
  ultimately show ?thesis using number_first_other
    by (cases v; cases w; fastforce split: if_splits)
qed (cases v; cases w; simp split: if_splits)

lemma to_bytes_unique:
  "plain_value v \<Longrightarrow> plain_value w \<Longrightarrow> stops x \<Longrightarrow> stops y \<Longrightarrow>
   to_bytes v @ x = to_bytes w @ y \<Longrightarrow> v = w \<and> x = y"
proof (induction v arbitrary: w x y rule: to_bytes.induct)
  case (1 obj)
  let ?f = "\<lambda>(key, val). string_to_bytes key @ '':'' @ to_bytes val"
  from first_char_ty [OF first_char_eq [OF "1.prems"(5)]] obtain ob where w: "w = Object ob"
    by (cases w) auto
  have el: "p = q \<and> a = b"
    if "p \<in> set obj" "case q of (k, v) \<Rightarrow> CHR 0x22 \<notin> set k \<and> plain_value v" "stops a" "stops b"
      "?f p @ a = ?f q @ b" for p q a b
  proof -
    obtain k v l u where pq: "p = (k, v)" "q = (l, u)" by (cases p; cases q) auto
    have k: "CHR 0x22 \<notin> set k" "plain_value v" using that(1) pq "1.prems"(1) by (auto simp: list_all_iff)
    have "k @ CHR 0x22 # CHR '':'' # to_bytes v @ a = l @ CHR 0x22 # CHR '':'' # to_bytes u @ b"
      using that(5) pq by (simp add: string_to_bytes_def between_def)
    from delimiter_unique [OF k(1) _ this] that(2) pq
    have "k = l" "to_bytes v @ a = to_bytes u @ b" by auto
    with "1.IH" [OF that(1) pq(1) [symmetric] k(2) _ that(3,4)] that(2) pq show ?thesis by auto
  qed
  have "obj = ob \<and> x = y"
    by (rule intercalate_unique [where f = ?f, OF el])
      (use "1.prems" w in \<open>auto simp: between_def string_to_bytes_def is_digit_def\<close>)
  with w show ?case by simp
next
  case (2 array)
  from first_char_ty [OF first_char_eq [OF "2.prems"(5)]] obtain ar where w: "w = Array ar"
    by (cases w) auto
  have "array = ar \<and> x = y"
  proof (rule intercalate_unique [where f = to_bytes and P = plain_value])
    show "v = u \<and> a = b" if "v \<in> set array" "plain_value u" "stops a" "stops b"
      "to_bytes v @ a = to_bytes u @ b" for v u a b
      using that "2.IH" [OF that(1) _ that(2-5)] "2.prems"(1) by (auto simp: list_all_iff)
    show "to_bytes v \<noteq> [] \<and> hd (to_bytes v) \<noteq> CHR 0x5D" for v
      using to_bytes_hd [of v] value_first [of v] by auto
  qed (use "2.prems" w in \<open>auto simp: between_def is_digit_def\<close>)
  with w show ?case by simp
next
  case (3 s)
  from first_char_ty [OF first_char_eq [OF "3.prems"(5)]] obtain t where w: "w = String t"
    by (cases w) auto
  then show ?case using "3.prems" delimiter_unique [of "CHR 0x22" s t x y]
    by (simp add: string_to_bytes_def between_def)
next
  case (4 n)
  from first_char_ty [OF first_char_eq [OF "4.prems"(5)]] obtain m where "w = Number m"
    by (cases w) auto
  then show ?case using number_unique [of n m x y] "4.prems" by simp
next
  case (5 b)
  from first_char_eq [OF "5.prems"(5)] first_char_ty [OF first_char_eq [OF "5.prems"(5)]] have "w = Bool b"
    by (cases w) (auto split: if_splits)
  then show ?case using "5.prems"(5) by simp
next
  case 6
  from first_char_ty [OF first_char_eq [OF "6.prems"(5)]] have "w = Null"
    by (cases w) auto
  then show ?case using "6.prems"(5) by simp
qed

text \<open>
  Strings are written without escaping, so that a string with quotes can be mistaken for other
  values; and a signed number that is not negative is written as the unsigned one.
\<close>

lemma unescaped_string_ambiguous:
  "canonical_form (Array [String ''a'', String ''b'']) =
     canonical_form (Array [String (''a'' @ [CHR 0x22] @ '','' @ [CHR 0x22] @ ''b'')])"
  by code_simp

lemma signed_number_ambiguous: "canonical_form (Number (I64 5)) = canonical_form (Number (U64 5))"
  by code_simp

section \<open>Properties\<close>

text \<open>
  C35: the canonical form determines the value. Values whose strings contain no quotation mark and
  whose signed numbers are negative have the same canonical form only if they are equal, and
  no canonical form is a proper prefix of another, unless one number continues another.
\<close>

theorem canonical_form_injective:
  assumes "plain_value v" "plain_value w" "stops x" "stops y"
  shows "canonical_form v @ x = canonical_form w @ y \<longleftrightarrow> v = w \<and> x = y"
  using to_bytes_unique [OF assms] by (auto simp: canonical_form_def)

theorem canonical_form_injective_witness:
  "canonical_form (Object [(''a'', Array [Null, Number (U64 12)])]) \<noteq> canonical_form (Object [(''a'', Array [Null])])"
proof -
  have "plain_value (Object [(''a'', Array [Null, Number (U64 12)])])" "plain_value (Object [(''a'', Array [Null])])"
    "stops []" by (simp_all add: stops_def)
  from canonical_form_injective [OF this this(3)] show ?thesis by simp
qed

end
