(* ===== verification/Canonical_Formatter.thy ===== *)
theory Canonical_Formatter
  imports Json
begin

text \<open>
  The formatter that makes a JSON serialiser write canonical JSON
  (\<open>link-canonical/src/formatter.rs\<close>). The serialiser calls its methods in the order the
  comment on \<open>Object\<close> describes; to have the keys sorted, an object in progress is kept in memory
  on a stack and written when it ends. What the wrapped compact formatter writes for the
  punctuation, and what is written for anything but objects, are parameters.
\<close>

section \<open>The formatter\<close>

record fmt_object =
  obj :: "(string, string) bmap"
  next_key :: string
  next_value :: string
  key_done :: bool

definition fmt_object_default :: fmt_object where
  "fmt_object_default = \<lparr>obj = bmap_empty, next_key = [], next_value = [], key_done = False\<rparr>"

text \<open>The stack, innermost object first, and the bytes written to the underlying writer.\<close>

type_synonym formatter = "fmt_object list \<times> string"

definition formatter_new :: "string \<Rightarrow> formatter" where
  "formatter_new out = ([], out)"

definition write_current :: "fmt_object \<Rightarrow> string \<Rightarrow> fmt_object" where
  "write_current ob bs =
     (if key_done ob then ob\<lparr>next_value := next_value ob @ bs\<rparr>
      else ob\<lparr>next_key := next_key ob @ bs\<rparr>)"

fun formatter_write :: "formatter \<Rightarrow> string \<Rightarrow> formatter" where
  "formatter_write ([], out) bs = ([], out @ bs)"
| "formatter_write (ob # stack, out) bs = (write_current ob bs # stack, out)"

datatype formatter_error = No_begin_object | Float_not_allowed

fun obj_mut :: "formatter \<Rightarrow> (fmt_object \<Rightarrow> fmt_object) \<Rightarrow> formatter_error + formatter" where
  "obj_mut ([], out) f = Inl No_begin_object"
| "obj_mut (ob # stack, out) f = Inr (f ob # stack, out)"

text \<open>The bytes of the compact formatter.\<close>

record compact =
  c_begin_object :: string
  c_end_object :: string
  c_begin_object_key :: "bool \<Rightarrow> string"
  c_end_object_key :: string
  c_begin_object_value :: string
  c_end_object_value :: string
  c_begin_array :: string
  c_end_array :: string
  c_begin_array_value :: "bool \<Rightarrow> string"
  c_end_array_value :: string

text \<open>The wrapped methods write the bytes of the compact formatter.\<close>

definition wrapper :: "string \<Rightarrow> formatter \<Rightarrow> formatter_error + formatter" where
  "wrapper bs st = Inr (formatter_write st bs)"

definition write_f64 :: "formatter \<Rightarrow> formatter_error + formatter" where
  "write_f64 st = Inl Float_not_allowed"

definition write_number_str :: "string \<Rightarrow> formatter \<Rightarrow> formatter_error + formatter" where
  "write_number_str val st =
     (if list_ex (\<lambda>c. c = CHR ''.'' \<or> c = CHR ''e'' \<or> c = CHR ''E'') val then Inl Float_not_allowed
      else Inr (formatter_write st val))"

text \<open>\<open>nfc\<close>, the normalisation of strings, is done by another crate.\<close>

definition write_string_fragment :: "(string \<Rightarrow> string) \<Rightarrow> string \<Rightarrow> formatter \<Rightarrow> formatter_error + formatter" where
  "write_string_fragment nfc fragment st = Inr (fold (\<lambda>ch st. formatter_write st [ch]) (nfc fragment) st)"

definition begin_object :: "compact \<Rightarrow> formatter \<Rightarrow> formatter_error + formatter" where
  "begin_object C st =
     (case formatter_write st (c_begin_object C) of
        (stack, out) \<Rightarrow> Inr (fmt_object_default # stack, out))"

fun entries_bytes :: "compact \<Rightarrow> bool \<Rightarrow> (string \<times> string) list \<Rightarrow> string" where
  "entries_bytes C first [] = []"
| "entries_bytes C first ((key, val) # kvs) =
     c_begin_object_key C first @ key @ c_end_object_key C
       @ c_begin_object_value C @ val @ c_end_object_value C @ entries_bytes C False kvs"

fun end_object :: "compact \<Rightarrow> formatter \<Rightarrow> formatter_error + formatter" where
  "end_object C ([], out) = Inl No_begin_object"
| "end_object C (ob # stack, out) =
     Inr (formatter_write (formatter_write (stack, out) (entries_bytes C True (obj ob))) (c_end_object C))"

definition begin_object_key :: "formatter \<Rightarrow> formatter_error + formatter" where
  "begin_object_key st = obj_mut st (\<lambda>ob. ob\<lparr>key_done := False\<rparr>)"

definition end_object_key :: "formatter \<Rightarrow> formatter_error + formatter" where
  "end_object_key st = obj_mut st (\<lambda>ob. ob\<lparr>key_done := True\<rparr>)"

definition begin_object_value :: "formatter \<Rightarrow> formatter_error + formatter" where
  "begin_object_value st = Inr st"

definition end_object_value :: "formatter \<Rightarrow> formatter_error + formatter" where
  "end_object_value st =
     obj_mut st (\<lambda>ob. ob\<lparr>next_key := [], next_value := [],
       obj := bmap_insert (next_key ob) (next_value ob) (obj ob)\<rparr>)"

section \<open>Serialising a value\<close>

text \<open>
  A value as the serialiser traverses it: anything but arrays and objects is the bytes that
  are written for it, and so is a key.
\<close>

datatype tree = Leaf string | Arr "tree list" | Obj "(string \<times> tree) list"

text \<open>The calls of the serialiser.\<close>

fun serialize :: "compact \<Rightarrow> tree \<Rightarrow> formatter \<Rightarrow> formatter_error + formatter"
  and serialize_elems :: "compact \<Rightarrow> bool \<Rightarrow> tree list \<Rightarrow> formatter \<Rightarrow> formatter_error + formatter"
  and serialize_entries :: "compact \<Rightarrow> (string \<times> tree) list \<Rightarrow> formatter \<Rightarrow> formatter_error + formatter" where
  "serialize C (Leaf bs) st = wrapper bs st"
| "serialize C (Arr ts) st =
     and_then (wrapper (c_begin_array C) st) (\<lambda>st.
     and_then (serialize_elems C True ts st) (wrapper (c_end_array C)))"
| "serialize C (Obj kvs) st =
     and_then (begin_object C st) (\<lambda>st. and_then (serialize_entries C kvs st) (end_object C))"
| "serialize_elems C first [] st = Inr st"
| "serialize_elems C first (t # ts) st =
     and_then (wrapper (c_begin_array_value C first) st) (\<lambda>st.
     and_then (serialize C t st) (\<lambda>st.
     and_then (wrapper (c_end_array_value C) st) (serialize_elems C False ts)))"
| "serialize_entries C [] st = Inr st"
| "serialize_entries C ((k, t) # kvs) st =
     and_then (begin_object_key st) (\<lambda>st.
     and_then (wrapper k st) (\<lambda>st.
     and_then (end_object_key st) (\<lambda>st.
     and_then (begin_object_value st) (\<lambda>st.
     and_then (serialize C t st) (\<lambda>st.
     and_then (end_object_value st) (serialize_entries C kvs))))))"

text \<open>
  The canonical rendering: the entries of an object by increasing key, the last one of equal
  keys.
\<close>

fun render :: "compact \<Rightarrow> tree \<Rightarrow> string"
  and render_elems :: "compact \<Rightarrow> bool \<Rightarrow> tree list \<Rightarrow> string"
  and rendered :: "compact \<Rightarrow> (string \<times> tree) list \<Rightarrow> (string \<times> string) list" where
  "render C (Leaf bs) = bs"
| "render C (Arr ts) = c_begin_array C @ render_elems C True ts @ c_end_array C"
| "render C (Obj kvs) =
     c_begin_object C @ entries_bytes C True (bmap_from_iter (rendered C kvs)) @ c_end_object C"
| "render_elems C first [] = []"
| "render_elems C first (t # ts) =
     c_begin_array_value C first @ render C t @ c_end_array_value C @ render_elems C False ts"
| "rendered C [] = []"
| "rendered C ((k, t) # kvs) = (k, render C t) # rendered C kvs"

section \<open>The output is canonical\<close>

lemma formatter_write_Nil [simp]: "formatter_write st [] = st"
  by (cases "(st, [] :: string)" rule: formatter_write.cases) (auto simp: write_current_def)

lemma formatter_write_append [simp]:
  "formatter_write (formatter_write st a) b = formatter_write st (a @ b)"
  by (cases "(st, a)" rule: formatter_write.cases) (auto simp: write_current_def)

lemma formatter_write_fragment:
  "fold (\<lambda>ch st. formatter_write st [ch]) bs st = formatter_write st bs"
  by (induction bs arbitrary: st) simp_all

text \<open>The state of an object in progress, between two entries.\<close>

definition after_entries :: "fmt_object \<Rightarrow> (string \<times> string) list \<Rightarrow> fmt_object" where
  "after_entries ob kvs =
     ob\<lparr>obj := fold (\<lambda>(k, v). bmap_insert k v) kvs (obj ob), key_done := (kvs \<noteq> [] \<or> key_done ob)\<rparr>"

lemma serialize_writes:
  "serialize C t st = Inr (formatter_write st (render C t))"
  "serialize_elems C first ts st = Inr (formatter_write st (render_elems C first ts))"
  "fst st = ob # stack \<Longrightarrow> next_key ob = [] \<Longrightarrow> next_value ob = [] \<Longrightarrow>
     serialize_entries C kvs st = Inr (after_entries ob (rendered C kvs) # stack, snd st)"
proof (induction C t st and C first ts st and C kvs st arbitrary: and and ob stack
    rule: serialize_serialize_elems_serialize_entries.induct)
  case (3 C kvs st)
  obtain stack out where w: "formatter_write st (c_begin_object C) = (stack, out)" by (rule prod.exhaust)
  have "serialize_entries C kvs (fmt_object_default # stack, out) =
      Inr (after_entries fmt_object_default (rendered C kvs) # stack, out)"
    using 3 w by (simp add: begin_object_def fmt_object_default_def)
  moreover have "formatter_write (stack, out) bs = formatter_write st (c_begin_object C @ bs)" for bs
    by (simp add: w [symmetric])
  ultimately show ?case
    using w by (simp add: begin_object_def after_entries_def fmt_object_default_def bmap_from_iter_def)
next
  case (6 C st)
  then show ?case by (cases st) (simp add: after_entries_def)
next
  case (7 C k t kvs st)
  obtain out m d where st: "st = (ob # stack, out)"
    and ob: "ob = \<lparr>obj = m, next_key = [], next_value = [], key_done = d\<rparr>"
    using 7(3-5) by (cases st; cases ob) auto
  note defs = begin_object_key_def end_object_key_def begin_object_value_def wrapper_def write_current_def
    end_object_value_def
  have i: "serialize C t (\<lparr>obj = m, next_key = k, next_value = [], key_done = True\<rparr> # stack, out) =
      Inr (\<lparr>obj = m, next_key = k, next_value = render C t, key_done = True\<rparr> # stack, out)"
    using 7(1) st ob by (simp add: defs)
  let ?next = "\<lparr>obj = bmap_insert k (render C t) m, next_key = [], next_value = [], key_done = True\<rparr>"
  have "serialize_entries C kvs (?next # stack, out) = Inr (after_entries ?next (rendered C kvs) # stack, out)"
    using 7(2) st ob i by (simp add: defs)
  then show ?case using i st ob by (simp add: defs after_entries_def)
qed (simp_all add: wrapper_def)

lemma rendered_map: "rendered C kvs = map (\<lambda>(k, t). (k, render C t)) kvs"
  by (induction kvs) auto

section \<open>Properties\<close>

definition example_compact :: compact where
  "example_compact =
     \<lparr>c_begin_object = [CHR 0x7B], c_end_object = [CHR 0x7D],
      c_begin_object_key = \<lambda>first. if first then [] else '','', c_end_object_key = [],
      c_begin_object_value = '':'', c_end_object_value = [], c_begin_array = [CHR 0x5B],
      c_end_array = [CHR 0x5D], c_begin_array_value = \<lambda>first. if first then [] else '','',
      c_end_array_value = []\<rparr>"



end
