(* ===== verification/Tracking_Policy.thy ===== *)
theory Tracking_Policy
  imports Prelude
begin

text \<open>
  The policies of tracking operations: the conditions on the previous value of a reference
  (\<open>link-tracking/src/git/refdb/previous_value.rs\<close>) and the policies with their composition,
  by which a batch fuses the actions on one entry (\<open>link-tracking/src/git/tracking/policy.rs\<close>).
  A fused sequence of policies is compared with carrying out the policies one after another.
\<close>

section \<open>Previous values\<close>

datatype 'o previous_value =
    PAny
  | PMustExist
  | PMustNotExist
  | PMustExistAndMatch 'o
  | PIfExistsMustMatch 'o

datatype 'o previous_error =
    DidNotExist
  | DidExist
  | DidNotMatch 'o 'o

text \<open>The callback \<open>on_success\<close> is the result it returns, and runs only when it is consulted.\<close>

definition previous_guard ::
  "'o previous_value \<Rightarrow> 'o option \<Rightarrow> 'e + unit \<Rightarrow> 'e + 'o previous_error option" where
  "previous_guard self previous on_success =
     (let succeed = map_ok (\<lambda>_. None) on_success in
      case self of
        PAny \<Rightarrow> succeed
      | PMustExist \<Rightarrow> (if previous \<noteq> None then succeed else Inr (Some DidNotExist))
      | PMustNotExist \<Rightarrow> (if previous = None then succeed else Inr (Some DidExist))
      | PMustExistAndMatch expected \<Rightarrow>
          (case previous of
             None \<Rightarrow> Inr (Some DidNotExist)
           | Some actual \<Rightarrow>
               if expected = actual then succeed else Inr (Some (DidNotMatch expected actual)))
      | PIfExistsMustMatch expected \<Rightarrow>
          (case previous of
             None \<Rightarrow> succeed
           | Some actual \<Rightarrow>
               if expected = actual then succeed else Inr (Some (DidNotMatch expected actual))))"

text \<open>What a condition demands.\<close>

fun holds_for :: "'o previous_value \<Rightarrow> 'o option \<Rightarrow> bool" where
  "holds_for PAny prev = True"
| "holds_for PMustExist prev = (prev \<noteq> None)"
| "holds_for PMustNotExist prev = (prev = None)"
| "holds_for (PMustExistAndMatch x) prev = (prev = Some x)"
| "holds_for (PIfExistsMustMatch x) prev = (prev = None \<or> prev = Some x)"

lemma previous_guard_ok:
  "holds_for pv prev \<Longrightarrow> previous_guard pv prev r = map_ok (\<lambda>_. None) r"
  by (cases pv; cases prev) (auto simp: previous_guard_def Let_def)

lemma previous_guard_reject:
  assumes "\<not> holds_for pv prev"
  obtains e where "previous_guard pv prev r = Inr (Some e)" "\<And>r'. previous_guard pv prev r' = Inr (Some e)"
  using assms by (cases pv; cases prev) (auto simp: previous_guard_def Let_def split: if_splits)

section \<open>Policies\<close>

datatype track_policy = TAny | TMustNotExist | TMustExist

datatype untrack_policy = UAny | UMustExist

datatype untrack_all_policy = AAny | AMustExistAndMatch

fun track_previous :: "track_policy \<Rightarrow> 'o previous_value" where
  "track_previous TAny = PAny"
| "track_previous TMustNotExist = PMustNotExist"
| "track_previous TMustExist = PMustExist"

fun untrack_previous :: "untrack_policy \<Rightarrow> 'o previous_value" where
  "untrack_previous UAny = PAny"
| "untrack_previous UMustExist = PMustExist"

fun untrack_all_previous :: "untrack_all_policy \<Rightarrow> 'o \<Rightarrow> 'o previous_value" where
  "untrack_all_previous AAny oid = PAny"
| "untrack_all_previous AMustExistAndMatch oid = PMustExistAndMatch oid"

section \<open>Composition\<close>

datatype 't reduction = Simple 't | Stuck 't 't

fun reduction_into_iter :: "'t reduction \<Rightarrow> 't list" where
  "reduction_into_iter (Simple one) = [one]"
| "reduction_into_iter (Stuck first second) = [first, second]"

record 'c with_config =
  wc_policy :: track_policy
  wc_config :: 'c

text \<open>\<open>first.compose(second)\<close>: first, then second. \<open>None\<close> is \<open>unreachable!()\<close>.\<close>

fun reduction_compose ::
  "('t \<Rightarrow> 't \<Rightarrow> 't reduction) \<Rightarrow> 't reduction \<Rightarrow> 't \<Rightarrow> 't reduction option" where
  "reduction_compose compose (Simple s) other = Some (compose s other)"
| "reduction_compose compose (Stuck first second) other =
     (case compose second other of
        Simple new \<Rightarrow> Some (compose first new)
      | Stuck _ _ \<Rightarrow> None)"

definition with_config_compose :: "'c with_config \<Rightarrow> 'c with_config \<Rightarrow> 'c with_config reduction" where
  "with_config_compose self other =
     (case (wc_policy other, wc_policy self) of
        (TAny, _) \<Rightarrow> Simple \<lparr>wc_policy = TAny, wc_config = wc_config other\<rparr>
      | (TMustNotExist, TAny) \<Rightarrow> Simple \<lparr>wc_policy = TAny, wc_config = wc_config self\<rparr>
      | (TMustNotExist, TMustNotExist) \<Rightarrow> Simple \<lparr>wc_policy = TMustNotExist, wc_config = wc_config self\<rparr>
      | (TMustNotExist, TMustExist) \<Rightarrow>
          Stuck \<lparr>wc_policy = TMustExist, wc_config = wc_config self\<rparr>
            \<lparr>wc_policy = TMustNotExist, wc_config = wc_config other\<rparr>
      | (TMustExist, TAny) \<Rightarrow> Simple \<lparr>wc_policy = TAny, wc_config = wc_config self\<rparr>
      | (TMustExist, TMustNotExist) \<Rightarrow> Simple \<lparr>wc_policy = TAny, wc_config = wc_config self\<rparr>
      | (TMustExist, TMustExist) \<Rightarrow> Simple \<lparr>wc_policy = TMustExist, wc_config = wc_config other\<rparr>)"

definition track_untrack_compose :: "track_policy \<Rightarrow> untrack_policy \<Rightarrow> untrack_policy" where
  "track_untrack_compose self other = UAny"

fun untrack_untrack_compose :: "untrack_policy \<Rightarrow> untrack_policy \<Rightarrow> untrack_policy" where
  "untrack_untrack_compose self UAny = UAny"
| "untrack_untrack_compose UAny UMustExist = UAny"
| "untrack_untrack_compose UMustExist UMustExist = UMustExist"

fun untrack_track_compose :: "untrack_policy \<Rightarrow> track_policy \<Rightarrow> track_policy + untrack_policy" where
  "untrack_track_compose self TAny = Inl TAny"
| "untrack_track_compose self TMustNotExist = Inl TAny"
| "untrack_track_compose self TMustExist = Inr self"

type_synonym 'c pair_policy = "'c with_config + untrack_policy"

fun pair_compose :: "'c pair_policy \<Rightarrow> 'c pair_policy \<Rightarrow> 'c pair_policy reduction" where
  "pair_compose (Inl first) (Inl second) =
     (case with_config_compose first second of
        Simple w \<Rightarrow> Simple (Inl w)
      | Stuck first second \<Rightarrow> Stuck (Inl first) (Inl second))"
| "pair_compose (Inr untrack) (Inl w) =
     Simple (case untrack_track_compose untrack (wc_policy w) of
        Inl track \<Rightarrow> Inl \<lparr>wc_policy = track, wc_config = wc_config w\<rparr>
      | Inr untrack \<Rightarrow> Inr untrack)"
| "pair_compose (Inl w) (Inr untrack) = Simple (Inr (track_untrack_compose (wc_policy w) untrack))"
| "pair_compose (Inr untrackr) (Inr untrackl) = Simple (Inr (untrack_untrack_compose untrackr untrackl))"

section \<open>Carrying out a policy\<close>

text \<open>
  The effect of a policy on one entry, which holds a configuration or does not exist: it is
  carried out when its condition holds, and otherwise rejected without effect.
\<close>

fun policy_effect :: "'c pair_policy \<Rightarrow> 'c option \<Rightarrow> 'c option" where
  "policy_effect (Inl w) s = (if holds_for (track_previous (wc_policy w)) s then Some (wc_config w) else s)"
| "policy_effect (Inr u) s = (if holds_for (untrack_previous u) s then None else s)"

definition effects :: "'c pair_policy list \<Rightarrow> 'c option \<Rightarrow> 'c option" where
  "effects ps s = fold policy_effect ps s"

lemma effects_simps [simp]: "effects [] s = s" "effects (p # ps) s = effects ps (policy_effect p s)"
  by (simp_all add: effects_def)

lemma effects_append [simp]: "effects (ps @ qs) s = effects qs (effects ps s)"
  by (simp add: effects_def)

text \<open>A policy that overwrites what an earlier track policy wrote.\<close>

fun overwrites :: "'c pair_policy \<Rightarrow> 'c pair_policy \<Rightarrow> bool" where
  "overwrites (Inl first) (Inl second) = (wc_policy second = TMustExist \<and> wc_policy first \<noteq> TMustExist)"
| "overwrites _ _ = False"

lemma pair_compose_presence:
  "effects (reduction_into_iter (pair_compose p q)) s = None \<longleftrightarrow> effects [p, q] s = None"
proof (cases p)
  case (Inl w)
  then show ?thesis
    by (cases q; cases "wc_policy w"; cases "wc_policy (projl q)"; cases "projr q"; cases s)
      (simp_all add: with_config_compose_def track_untrack_compose_def)
next
  case (Inr u)
  then show ?thesis
    by (cases q; cases u; cases "wc_policy (projl q)"; cases "projr q"; cases s) simp_all
qed

lemma pair_compose_effect:
  assumes "\<not> overwrites p q"
  shows "effects (reduction_into_iter (pair_compose p q)) s = effects [p, q] s"
proof (cases p)
  case (Inl w)
  then show ?thesis using assms
    by (cases q; cases "wc_policy w"; cases "wc_policy (projl q)"; cases "projr q"; cases s)
      (simp_all add: with_config_compose_def track_untrack_compose_def)
next
  case (Inr u)
  then show ?thesis using assms
    by (cases q; cases u; cases "wc_policy (projl q)"; cases "projr q"; cases s) simp_all
qed

text \<open>
  The comments on \<open>with_config_compose\<close> say that \<open>track MustExist c'\<close> after \<open>track Any c\<close> or
  after \<open>track MustNotExist c\<close> is \<open>track Any c'\<close>; the code keeps \<open>c\<close>.
\<close>

lemma must_exist_loses_config:
  assumes "p \<noteq> TMustExist"
  shows "with_config_compose \<lparr>wc_policy = p, wc_config = c\<rparr> \<lparr>wc_policy = TMustExist, wc_config = c'\<rparr> =
      Simple \<lparr>wc_policy = TAny, wc_config = c\<rparr>"
    and "effects [Inl \<lparr>wc_policy = p, wc_config = c\<rparr>, Inl \<lparr>wc_policy = TMustExist, wc_config = c'\<rparr>] s = Some c'"
  using assms by (cases p; cases s; simp add: with_config_compose_def)+

section \<open>Fusing a sequence\<close>

text \<open>As \<open>fuse\<close> does with the actions on one entry, in order.\<close>

fun reduce_from :: "('t \<Rightarrow> 't \<Rightarrow> 't reduction) \<Rightarrow> 't reduction option \<Rightarrow> 't list \<Rightarrow> 't reduction option" where
  "reduce_from compose r [] = r"
| "reduce_from compose r (p # ps) =
     reduce_from compose (Option.bind r (\<lambda>r. reduction_compose compose r p)) ps"

text \<open>A reduction that got stuck is \<open>MustExist\<close> followed by \<open>MustNotExist\<close>.\<close>

fun stuck_ok :: "'c pair_policy reduction \<Rightarrow> bool" where
  "stuck_ok (Simple p) = True"
| "stuck_ok (Stuck p q) =
     ((\<exists>c. p = Inl \<lparr>wc_policy = TMustExist, wc_config = c\<rparr>)
      \<and> (\<exists>c. q = Inl \<lparr>wc_policy = TMustNotExist, wc_config = c\<rparr>))"

lemma pair_compose_stuck_ok: "stuck_ok (pair_compose p q)"
  by (cases p; cases q; cases "wc_policy (projl p)"; cases "wc_policy (projl q)")
    (simp_all add: with_config_compose_def)

lemma stuck_composes:
  assumes "stuck_ok (Stuck p q)"
  obtains n where "pair_compose q x = Simple n"
  using assms by (cases x; cases "wc_policy (projl x)") (auto simp: with_config_compose_def)

lemma reduction_compose_ok:
  assumes "stuck_ok r"
  obtains r' where "reduction_compose pair_compose r p = Some r'" "stuck_ok r'"
proof (cases r)
  case (Simple x)
  then show ?thesis using that pair_compose_stuck_ok [of x p] by simp
next
  case (Stuck x y)
  with assms obtain n where "pair_compose y p = Simple n" using stuck_composes by blast
  with Stuck that pair_compose_stuck_ok [of x n] show ?thesis by simp
qed

lemma reduce_total:
  "stuck_ok r \<Longrightarrow> \<exists>r'. reduce_from pair_compose (Some r) ps = Some r' \<and> stuck_ok r'"
proof (induction ps arbitrary: r)
  case (Cons p ps)
  obtain r' where "reduction_compose pair_compose r p = Some r'" "stuck_ok r'"
    using reduction_compose_ok [OF Cons.prems] .
  with Cons.IH show ?case by simp
qed simp

text \<open>Whether an entry exists is preserved by fusion, whatever the policies.\<close>

lemma policy_effect_presence:
  "(s = None \<longleftrightarrow> t = None) \<Longrightarrow> (policy_effect p s = None \<longleftrightarrow> policy_effect p t = None)"
  by (cases p; cases "wc_policy (projl p)"; cases "projr p") auto

lemma effects_presence:
  "(s = None \<longleftrightarrow> t = None) \<Longrightarrow> (effects ps s = None \<longleftrightarrow> effects ps t = None)"
proof (induction ps arbitrary: s t)
  case (Cons p ps)
  from Cons.IH [OF policy_effect_presence [OF Cons.prems, of p]] show ?case by simp
qed simp

lemma reduction_compose_presence:
  assumes "stuck_ok r" "reduction_compose pair_compose r p = Some r'"
  shows "effects (reduction_into_iter r') s = None \<longleftrightarrow> effects (reduction_into_iter r @ [p]) s = None"
proof (cases r)
  case (Simple x)
  then show ?thesis using assms(2) pair_compose_presence [of x p s] by simp
next
  case (Stuck x y)
  obtain n where n: "pair_compose y p = Simple n" using stuck_composes assms(1) Stuck by blast
  have "effects [n] (policy_effect x s) = None \<longleftrightarrow> effects [y, p] (policy_effect x s) = None"
    using pair_compose_presence [of y p "policy_effect x s"] n by simp
  then show ?thesis using assms(2) Stuck n pair_compose_presence [of x n s] by simp
qed

lemma reduce_presence:
  assumes "stuck_ok r" "reduce_from pair_compose (Some r) ps = Some r'"
  shows "effects (reduction_into_iter r') s = None \<longleftrightarrow> effects (reduction_into_iter r @ ps) s = None"
  using assms
proof (induction ps arbitrary: r)
  case (Cons p ps)
  obtain q where q: "reduction_compose pair_compose r p = Some q" "stuck_ok q"
    using reduction_compose_ok [OF Cons.prems(1)] .
  then have "effects (reduction_into_iter r') s = None \<longleftrightarrow> effects (reduction_into_iter q @ ps) s = None"
    using Cons.IH [OF q(2)] Cons.prems(2) by simp
  also have "\<dots> \<longleftrightarrow> effects ps (effects (reduction_into_iter r @ [p]) s) = None"
    using effects_presence [OF reduction_compose_presence [OF Cons.prems(1) q(1)]] by simp
  finally show ?case by simp
qed simp

text \<open>
  The configuration is preserved too, unless \<open>MustExist\<close> follows another track policy without
  an untrack in between.
\<close>

fun fusable :: "bool \<Rightarrow> 'c pair_policy list \<Rightarrow> bool" where
  "fusable written [] = True"
| "fusable written (Inr u # ps) = fusable False ps"
| "fusable written (Inl w # ps) =
     (if wc_policy w = TMustExist then \<not> written \<and> fusable written ps else fusable True ps)"

fun wrote :: "'c pair_policy reduction \<Rightarrow> bool" where
  "wrote (Simple (Inl w)) = (wc_policy w \<noteq> TMustExist)"
| "wrote (Simple (Inr u)) = False"
| "wrote (Stuck p q) = True"

lemma fusable_weaken: "fusable w ps \<Longrightarrow> (w' \<longrightarrow> w) \<Longrightarrow> fusable w' ps"
  by (induction w ps arbitrary: w' rule: fusable.induct) (auto split: if_splits)

lemma reduction_compose_effect:
  assumes "stuck_ok r" "reduction_compose pair_compose r p = Some r'" "fusable (wrote r) (p # ps)"
  shows "effects (reduction_into_iter r') s = effects (reduction_into_iter r @ [p]) s"
    and "fusable (wrote r') ps"
proof -
  have 1: "\<not> overwrites x p" if "r = Simple x" for x
    using that assms(3) by (cases x; cases p) (auto split: if_splits)
  have 2: "\<not> overwrites y p" "\<not> overwrites x n" if "r = Stuck x y" for x y n
    using that assms(1,3) by (cases p; cases n; auto split: if_splits)+
  show "effects (reduction_into_iter r') s = effects (reduction_into_iter r @ [p]) s"
  proof (cases r)
    case (Simple x)
    then show ?thesis using assms(2) pair_compose_effect [OF 1 [OF Simple], of s] by simp
  next
    case (Stuck x y)
    obtain n where n: "pair_compose y p = Simple n" using stuck_composes assms(1) Stuck by blast
    have "effects [n] (policy_effect x s) = effects [y, p] (policy_effect x s)"
      using pair_compose_effect [OF 2(1) [OF Stuck], of "policy_effect x s"] n by simp
    then show ?thesis using assms(2) Stuck n pair_compose_effect [OF 2(2) [OF Stuck], of n s] by simp
  qed
  have "(case p of Inr u \<Rightarrow> \<not> wrote r' | Inl w \<Rightarrow> wc_policy w = TMustExist \<and> \<not> wrote r \<longrightarrow> \<not> wrote r')"
  proof (cases r)
    case (Simple x)
    then show ?thesis using assms(2)
      by (cases x; cases p; cases "wc_policy (projl x)")
        (auto simp: with_config_compose_def split: track_policy.splits)
  next
    case (Stuck x y)
    then show ?thesis using assms(1,2) by (cases p) (auto simp: with_config_compose_def)
  qed
  then show "fusable (wrote r') ps"
    using assms(3) by (cases p) (auto split: if_splits intro: fusable_weaken)
qed

lemma reduce_effect:
  assumes "stuck_ok r" "reduce_from pair_compose (Some r) ps = Some r'" "fusable (wrote r) ps"
  shows "effects (reduction_into_iter r') s = effects (reduction_into_iter r @ ps) s"
  using assms
proof (induction ps arbitrary: r)
  case (Cons p ps)
  obtain q where q: "reduction_compose pair_compose r p = Some q" "stuck_ok q"
    using reduction_compose_ok [OF Cons.prems(1)] .
  note e = reduction_compose_effect [OF Cons.prems(1) q(1) Cons.prems(3)]
  then show ?case using Cons.IH [OF q(2) _ e(2)] Cons.prems(2) q(1) by simp
qed simp

text \<open>A whole sequence, starting with its first policy.\<close>

fun reduce :: "'c pair_policy list \<Rightarrow> 'c pair_policy reduction option" where
  "reduce [] = None"
| "reduce (p # ps) = reduce_from pair_compose (Some (Simple p)) ps"

lemma reduce_fuses:
  assumes "ps \<noteq> []"
  obtains r where "reduce ps = Some r"
    "\<And>s. effects (reduction_into_iter r) s = None \<longleftrightarrow> effects ps s = None"
    "\<And>s. fusable False ps \<Longrightarrow> effects (reduction_into_iter r) s = effects ps s"
proof -
  obtain p qs where ps: "ps = p # qs" using assms by (cases ps) auto
  obtain r where r: "reduce_from pair_compose (Some (Simple p)) qs = Some r"
    using reduce_total [of "Simple p" qs] by auto
  have "fusable (wrote (Simple p)) qs" if "fusable False (p # qs)"
    using that by (cases p) (auto split: if_splits)
  with reduce_presence [OF _ r] reduce_effect [OF _ r] r ps that show thesis by simp
qed

end
