(* ===== verification/Tracking_Config.thy ===== *)
theory Tracking_Config
  imports Json Urn
begin

text \<open>
  The configuration of a tracking entry: which references of a tracked peer are fetched
  (\<open>link-tracking/src/config.rs\<close>, \<open>config/cobs.rs\<close>, \<open>git/config.rs\<close>), and its form as JSON
  (\<open>config/cobs/cjson.rs\<close>). Type names and object identifiers of collaborative objects are
  those of \<open>cob/src/lib.rs\<close>; they are ASCII, so that Unicode normalisation leaves them alone.
\<close>

section \<open>Type names and object identifiers\<close>

definition is_alnum :: "char \<Rightarrow> bool" where
  "is_alnum c =
     ((let n = of_char c :: nat in 48 \<le> n \<and> n \<le> 57 \<or> 65 \<le> n \<and> n \<le> 90 \<or> 97 \<le> n \<and> n \<le> 122))"

text \<open>The regular expression \<open>^([a-zA-Z0-9])+(\.[a-zA-Z0-9]+)*$\<close>.\<close>

definition typename_regex :: "string \<Rightarrow> bool" where
  "typename_regex s = list_all (\<lambda>p. p \<noteq> [] \<and> list_all is_alnum p) (split_on (CHR ''.'') s)"

datatype typename_error = TypeNameParse

definition typename_from_str :: "string \<Rightarrow> typename_error + string" where
  "typename_from_str s = (if typename_regex s then Inr s else Inl TypeNameParse)"

text \<open>\<open>None\<close> when one of the assertions panics.\<close>

definition component_from_typename :: "string \<Rightarrow> string option" where
  "component_from_typename ty =
     (case refstr_try_from ty of Inl _ \<Rightarrow> None | Inr rs \<Rightarrow> component_from_refstring rs)"

definition object_id_from_str :: "('o, 'b) urn_env \<Rightarrow> string \<Rightarrow> decode_id_error + 'o" where
  "object_id_from_str E s =
     and_then (ok_or Encoding_decode (multibase_decode E s)) (\<lambda>bytes.
     and_then (ok_or Multihash_decode (multihash_from_bytes E bytes)) (\<lambda>mh.
     ok_or InvalidId_decode (from_multihash E mh)))"

definition object_id_display :: "('o, 'b) urn_env \<Rightarrow> 'o \<Rightarrow> string" where
  "object_id_display E oid = multibase_encode E (into_multihash E oid)"

section \<open>Filters for collaborative objects\<close>

datatype type_name = Wildcard_type | Type_name string

text \<open>The derived order.\<close>

instantiation type_name :: linorder
begin

fun less_eq_type_name :: "type_name \<Rightarrow> type_name \<Rightarrow> bool" where
  "less_eq_type_name Wildcard_type _ = True"
| "less_eq_type_name (Type_name _) Wildcard_type = False"
| "less_eq_type_name (Type_name s) (Type_name t) = (s \<le> t)"

definition less_type_name :: "type_name \<Rightarrow> type_name \<Rightarrow> bool" where
  "less_type_name a b = (a \<le> b \<and> \<not> b \<le> a)"

instance
proof
  fix x y z :: type_name
  show "x < y \<longleftrightarrow> x \<le> y \<and> \<not> y \<le> x" by (simp add: less_type_name_def)
  show "x \<le> x" by (cases x) auto
  show "x \<le> y \<Longrightarrow> y \<le> z \<Longrightarrow> x \<le> z" by (cases x; cases y; cases z) auto
  show "x \<le> y \<Longrightarrow> y \<le> x \<Longrightarrow> x = y" by (cases x; cases y) auto
  show "x \<le> y \<or> y \<le> x" by (cases x; cases y) auto
qed

end

datatype policy = Allow | Deny

fun policy_inverse :: "policy \<Rightarrow> policy" where
  "policy_inverse Allow = Deny"
| "policy_inverse Deny = Allow"

datatype 'i cob_pattern = Wildcard_pattern | Objects "'i bset"

fun pattern_matches :: "'i cob_pattern \<Rightarrow> 'i \<Rightarrow> bool" where
  "pattern_matches Wildcard_pattern oid = True"
| "pattern_matches (Objects objs) oid = (oid \<in> set objs)"

record 'i cob_filter =
  f_policy :: policy
  f_pattern :: "'i cob_pattern"

type_synonym 'i cobs = "(type_name, 'i cob_filter) bmap"

definition cobs_from_iter :: "(type_name \<times> 'i cob_filter) list \<Rightarrow> 'i cobs" where
  "cobs_from_iter kvs = bmap_from_iter kvs"

definition cobs_allow_all :: "'i cobs" where
  "cobs_allow_all = cobs_from_iter [(Wildcard_type, \<lparr>f_policy = Allow, f_pattern = Wildcard_pattern\<rparr>)]"

definition cobs_deny_all :: "'i cobs" where
  "cobs_deny_all = cobs_from_iter [(Wildcard_type, \<lparr>f_policy = Deny, f_pattern = Wildcard_pattern\<rparr>)]"

definition cobs_empty :: "'i cobs" where
  "cobs_empty = bmap_empty"

definition cobs_get :: "'i cobs \<Rightarrow> string \<Rightarrow> 'i cob_filter option" where
  "cobs_get m ty = bmap_get m (Type_name ty)"

definition cobs_wildcard :: "'i cobs \<Rightarrow> 'i cob_filter option" where
  "cobs_wildcard m = bmap_get m Wildcard_type"

definition cobs_insert :: "'i cobs \<Rightarrow> type_name \<Rightarrow> 'i cob_filter \<Rightarrow> 'i cob_filter option \<times> 'i cobs" where
  "cobs_insert m typename filt = (bmap_get m typename, bmap_insert typename filt m)"

definition cobs_remove :: "'i cobs \<Rightarrow> type_name \<Rightarrow> 'i cobs" where
  "cobs_remove m typename = bmap_remove typename m"

text \<open>The operations on an entry, each returning the whole map.\<close>

definition entry_and_modify :: "('i cob_filter \<Rightarrow> 'i cob_filter) \<Rightarrow> type_name \<Rightarrow> 'i cobs \<Rightarrow> 'i cobs" where
  "entry_and_modify f typename m =
     (case bmap_get m typename of None \<Rightarrow> m | Some filt \<Rightarrow> bmap_insert typename (f filt) m)"

definition entry_or_insert :: "'i cob_filter \<Rightarrow> type_name \<Rightarrow> 'i cobs \<Rightarrow> 'i cobs" where
  "entry_or_insert dflt typename m =
     (case bmap_get m typename of None \<Rightarrow> bmap_insert typename dflt m | Some _ \<Rightarrow> m)"

definition entry_set_policy :: "policy \<Rightarrow> type_name \<Rightarrow> 'i cobs \<Rightarrow> 'i cobs" where
  "entry_set_policy p = entry_and_modify (\<lambda>filt. filt\<lparr>f_policy := p\<rparr>)"

definition entry_set_pattern :: "'i cob_pattern \<Rightarrow> type_name \<Rightarrow> 'i cobs \<Rightarrow> 'i cobs" where
  "entry_set_pattern p = entry_and_modify (\<lambda>filt. filt\<lparr>f_pattern := p\<rparr>)"

definition entry_insert_objects :: "'i::linorder list \<Rightarrow> type_name \<Rightarrow> 'i cobs \<Rightarrow> 'i cobs" where
  "entry_insert_objects ids = entry_and_modify (\<lambda>filt.
     case f_pattern filt of
       Wildcard_pattern \<Rightarrow> filt
     | Objects objs \<Rightarrow> filt\<lparr>f_pattern := Objects (fold (\<lambda>i s. snd (bset_insert i s)) ids objs)\<rparr>)"

definition entry_remove_objects :: "'i list \<Rightarrow> type_name \<Rightarrow> 'i cobs \<Rightarrow> 'i cobs" where
  "entry_remove_objects ids = entry_and_modify (\<lambda>filt.
     case f_pattern filt of
       Wildcard_pattern \<Rightarrow> filt
     | Objects objs \<Rightarrow> filt\<lparr>f_pattern := Objects (fold (\<lambda>i. filter (\<lambda>x. x \<noteq> i)) ids objs)\<rparr>)"

section \<open>The configuration\<close>

record 'i config =
  cfg_data :: bool
  cfg_cobs :: "'i cobs"

definition config_default :: "'i config" where
  "config_default = \<lparr>cfg_data = True, cfg_cobs = cobs_allow_all\<rparr>"

definition DATA_REFS :: "string list" where
  "DATA_REFS = [HEADS, TAGS, NOTES]"

text \<open>\<open>None\<close> when the name is not qualified, on which \<open>non_empty_components\<close> panics.\<close>

definition policy_for :: "('o, 'b) urn_env \<Rightarrow> 'o config \<Rightarrow> string \<Rightarrow> policy option" where
  "policy_for E c refname =
     (case qualified_non_empty_components refname of
        None \<Rightarrow> None
      | Some (refs, cat, ty, tail) \<Rightarrow>
          Some (if COBS = cat then
            let ty = (case typename_from_str ty of Inl _ \<Rightarrow> None | Inr t \<Rightarrow> Some t);
                i = (case tail of
                       [] \<Rightarrow> None
                     | x # _ \<Rightarrow> (case object_id_from_str E x of Inl _ \<Rightarrow> None | Inr i \<Rightarrow> Some i)) in
            if 1 < length tail then Deny
            else case (ty, i) of
              (Some ty, Some i) \<Rightarrow>
                (case cobs_get (cfg_cobs c) ty of
                   None \<Rightarrow>
                     (case cobs_wildcard (cfg_cobs c) of
                        None \<Rightarrow> Allow
                      | Some filt \<Rightarrow> f_policy filt)
                 | Some filt \<Rightarrow>
                     if pattern_matches (f_pattern filt) i then f_policy filt
                     else policy_inverse (f_policy filt))
            | _ \<Rightarrow> Deny
          else if cfg_data c \<and> list_ex (\<lambda>allowed. allowed = cat) DATA_REFS then Allow
          else Deny))"

section \<open>As JSON\<close>

fun policy_into_cjson :: "policy \<Rightarrow> json_value" where
  "policy_into_cjson Allow = String ''allow''"
| "policy_into_cjson Deny = String ''deny''"

fun cstring_from_typename :: "type_name \<Rightarrow> string" where
  "cstring_from_typename Wildcard_type = ''*''"
| "cstring_from_typename (Type_name ty) = ty"

definition object_id_into_cjson :: "('o, 'b) urn_env \<Rightarrow> 'o \<Rightarrow> json_value" where
  "object_id_into_cjson E i = String (object_id_display E i)"

fun pattern_into_cjson :: "('o, 'b) urn_env \<Rightarrow> 'o cob_pattern \<Rightarrow> json_value" where
  "pattern_into_cjson E Wildcard_pattern = String ''*''"
| "pattern_into_cjson E (Objects objs) = into_array (object_id_into_cjson E) objs"

definition filter_into_cjson :: "('o, 'b) urn_env \<Rightarrow> 'o cob_filter \<Rightarrow> json_value" where
  "filter_into_cjson E filt =
     value_from_iter id id
       [(''policy'', policy_into_cjson (f_policy filt)), (''pattern'', pattern_into_cjson E (f_pattern filt))]"

definition cobs_into_cjson :: "('o, 'b) urn_env \<Rightarrow> 'o cobs \<Rightarrow> json_value" where
  "cobs_into_cjson E m = into_object cstring_from_typename (filter_into_cjson E) m"

definition config_into_cjson :: "('o, 'b) urn_env \<Rightarrow> 'o config \<Rightarrow> json_value" where
  "config_into_cjson E c =
     value_from_iter id id [(''data'', Bool (cfg_data c)), (''cobs'', cobs_into_cjson E (cfg_cobs c))]"

datatype cjson_error =
    MismatchedTy string string
  | Missing_key string
  | Unexpected_policy string
  | ExpectedWildcard
  | Identifier_error decode_id_error
  | TypeName_error typename_error

definition policy_try_from :: "json_value \<Rightarrow> cjson_error + policy" where
  "policy_try_from v =
     (case v of
        String p \<Rightarrow>
          if p = ''allow'' then Inr Allow
          else if p = ''deny'' then Inr Deny
          else Inl (Unexpected_policy p)
      | _ \<Rightarrow> Inl (MismatchedTy ''expected string allow or deny'' (ty_name v)))"

definition object_try_from :: "('o, 'b) urn_env \<Rightarrow> json_value \<Rightarrow> cjson_error + 'o" where
  "object_try_from E v =
     (case v of
        String s \<Rightarrow> map_err Identifier_error (object_id_from_str E s)
      | _ \<Rightarrow> Inl (MismatchedTy ''<object id>'' (ty_name v)))"

text \<open>\<open>collect\<close> into a \<open>Result\<close>: the first error, or everything.\<close>

fun collect_results :: "('a \<Rightarrow> 'e + 'b) \<Rightarrow> 'a list \<Rightarrow> 'e + 'b list" where
  "collect_results f [] = Inr []"
| "collect_results f (x # xs) = and_then (f x) (\<lambda>y. map_ok (Cons y) (collect_results f xs))"

definition cob_pattern_try_from :: "('o::linorder, 'b) urn_env \<Rightarrow> json_value \<Rightarrow> cjson_error + 'o cob_pattern" where
  "cob_pattern_try_from E v =
     (case v of
        Array objs \<Rightarrow> map_ok (\<lambda>os. Objects (bset_from_iter os)) (collect_results (object_try_from E) objs)
      | String s \<Rightarrow> if s = ''*'' then Inr Wildcard_pattern else Inl ExpectedWildcard
      | _ \<Rightarrow> Inl (MismatchedTy ''string of wildcard or list of object ids'' (ty_name v)))"

definition filter_try_from :: "('o::linorder, 'b) urn_env \<Rightarrow> json_value \<Rightarrow> cjson_error + 'o cob_filter" where
  "filter_try_from E v =
     (case v of
        Object m \<Rightarrow>
          and_then (ok_or (Missing_key ''policy'') (fst (json_map_remove m ''policy''))) (\<lambda>p.
          let m = snd (json_map_remove m ''policy'') in
          and_then (ok_or (Missing_key ''pattern'') (fst (json_map_remove m ''pattern''))) (\<lambda>q.
          and_then (policy_try_from p) (\<lambda>p.
          and_then (cob_pattern_try_from E q) (\<lambda>q. Inr \<lparr>f_policy = p, f_pattern = q\<rparr>))))
      | _ \<Rightarrow> Inl (MismatchedTy ''expected string allow or deny'' (ty_name v)))"

definition try_typename :: "string \<Rightarrow> cjson_error + type_name" where
  "try_typename s =
     (if s = ''*'' then Inr Wildcard_type
      else map_ok Type_name (map_err TypeName_error (typename_from_str s)))"

definition cobs_try_from :: "('o::linorder, 'b) urn_env \<Rightarrow> json_value \<Rightarrow> cjson_error + 'o cobs" where
  "cobs_try_from E v =
     (case v of
        Object m \<Rightarrow>
          map_ok cobs_from_iter (collect_results (\<lambda>(typename, filt).
            and_then (try_typename typename) (\<lambda>ty. map_ok (Pair ty) (filter_try_from E filt))) m)
      | _ \<Rightarrow> Inl (MismatchedTy ''object of type names'' (ty_name v)))"

definition config_try_from :: "('o::linorder, 'b) urn_env \<Rightarrow> json_value \<Rightarrow> cjson_error + 'o config" where
  "config_try_from E v =
     (case v of
        Object m \<Rightarrow>
          and_then (ok_or (Missing_key ''cobs'') (fst (json_map_remove m ''cobs''))) (\<lambda>cobs.
          let m = snd (json_map_remove m ''cobs'') in
          and_then (ok_or (Missing_key ''data'') (fst (json_map_remove m ''data''))) (\<lambda>data.
          and_then (case data of Bool d \<Rightarrow> Inr d | val \<Rightarrow> Inl (MismatchedTy ''bool'' (ty_name val))) (\<lambda>data.
          and_then (cobs_try_from E cobs) (\<lambda>cobs. Inr \<lparr>cfg_data = data, cfg_cobs = cobs\<rparr>))))
      | _ \<Rightarrow> Inl (MismatchedTy ''object with keys cobs and data'' (ty_name v)))"

text \<open>From bytes, given the parser of JSON.\<close>

datatype config_parse_error = Bytes_error string | Cjson_error cjson_error

definition config_try_from_bytes ::
  "('o::linorder, 'b) urn_env \<Rightarrow> (string \<Rightarrow> string + json_value) \<Rightarrow> string \<Rightarrow> config_parse_error + 'o config" where
  "config_try_from_bytes E parse bytes =
     and_then (map_err Bytes_error (parse bytes)) (\<lambda>val. map_err Cjson_error (config_try_from E val))"

definition config_canonical_form :: "('o, 'b) urn_env \<Rightarrow> 'o config \<Rightarrow> string" where
  "config_canonical_form E c = canonical_form (config_into_cjson E c)"

section \<open>Laws\<close>

definition filter_ok :: "'i::linorder cob_filter \<Rightarrow> bool" where
  "filter_ok filt = (case f_pattern filt of Wildcard_pattern \<Rightarrow> True | Objects objs \<Rightarrow> bset_ok objs)"

fun type_name_ok :: "type_name \<Rightarrow> bool" where
  "type_name_ok Wildcard_type = True"
| "type_name_ok (Type_name s) = typename_regex s"

definition config_ok :: "'i::linorder config \<Rightarrow> bool" where
  "config_ok c =
     (bmap_ok (cfg_cobs c)
      \<and> list_all (\<lambda>(ty, filt). filter_ok filt \<and> type_name_ok ty) (cfg_cobs c))"

lemma collect_results_map:
  "(\<And>x. x \<in> set xs \<Longrightarrow> f (g x) = Inr (h x)) \<Longrightarrow> collect_results f (map g xs) = Inr (map h xs)"
  by (induction xs) auto

lemma object_id_roundtrip: "urn_env_ok E \<Longrightarrow> object_id_from_str E (object_id_display E i) = Inr i"
  by (simp add: urn_env_ok_def object_id_from_str_def object_id_display_def)

lemma bset_from_iter_id: "bset_ok xs \<Longrightarrow> bset_from_iter xs = xs"
  by (rule bset_ext) (auto simp: bset_from_iter_def bset_fold_insert)

lemma pattern_roundtrip:
  "urn_env_ok E \<Longrightarrow> filter_ok filt \<Longrightarrow>
   cob_pattern_try_from E (pattern_into_cjson E (f_pattern filt)) = Inr (f_pattern filt)"
  by (cases "f_pattern filt")
    (auto simp: cob_pattern_try_from_def into_array_def object_id_into_cjson_def object_try_from_def
      object_id_roundtrip filter_ok_def bset_from_iter_id collect_results_map [where h = id, simplified])

lemma filter_roundtrip:
  assumes "urn_env_ok E" "filter_ok filt"
  shows "filter_try_from E (filter_into_cjson E filt) = Inr filt"
proof -
  have "policy_try_from (policy_into_cjson p) = Inr p" for p
    by (cases p) (simp_all add: policy_try_from_def)
  moreover have "filter_into_cjson E filt =
      Object [(''pattern'', pattern_into_cjson E (f_pattern filt)), (''policy'', policy_into_cjson (f_policy filt))]"
    by (simp add: filter_into_cjson_def value_from_iter_def json_map_from_iter_def bmap_from_iter_def bmap_empty_def
        less_char_def)
  ultimately show ?thesis
    using pattern_roundtrip [OF assms]
    by (simp add: filter_try_from_def json_map_remove_def bmap_get_def bmap_remove_def)
qed

lemma bmap_from_iter_id:
  assumes "bmap_ok m"
  shows "bmap_from_iter m = m"
proof (rule bmap_ext [OF _ assms])
  show "bmap_ok (bmap_from_iter m)" by (simp add: bmap_from_iter_def bmap.ok_fold_insert)
  have "map_of (rev m) = map_of m"
    using bmap_ok_distinct [OF assms] map_of_inject_set [of "rev m" m] by (simp add: rev_map [symmetric])
  then show "bmap_get (bmap_from_iter m) = bmap_get m"
    by (simp add: bmap_from_iter_def bmap.lookup_fold_insert bmap.lookup_empty fun_eq_iff map_add_def
        bmap_get_def bmap_empty_def split: option.splits)
qed

lemma typename_first:
  assumes "typename_regex s"
  shows "s \<noteq> []" "is_alnum (hd s)"
proof -
  obtain p ps where p: "split_on (CHR ''.'') s = p # ps" by (cases "split_on (CHR ''.'') s") auto
  then have "p \<noteq> []" "list_all is_alnum p" using assms by (simp_all add: typename_regex_def)
  moreover have "s = join_with (CHR ''.'') (p # ps)" using join_split [of "CHR ''.''" s] p by simp
  ultimately show "s \<noteq> []" "is_alnum (hd s)" by (cases ps; cases p; simp)+
qed

lemma typename_not_star: "typename_regex s \<Longrightarrow> s \<noteq> ''*''"
  using typename_first(2) [of s] by (auto simp: is_alnum_def)

lemma typename_mono:
  assumes "a < b" "\<And>s. a = Type_name s \<Longrightarrow> typename_regex s" "\<And>s. b = Type_name s \<Longrightarrow> typename_regex s"
  shows "cstring_from_typename a < cstring_from_typename b"
proof (cases b)
  case (Type_name t)
  show ?thesis
  proof (cases a)
    case Wildcard_type
    have "t \<noteq> []" "is_alnum (hd t)" using typename_first assms(3) Type_name by simp_all
    then show ?thesis using Wildcard_type Type_name
      by (cases t) (auto simp: is_alnum_def less_char_def Let_def)
  next
    case (Type_name s)
    then show ?thesis using assms(1) \<open>b = Type_name t\<close> by (auto simp: less_type_name_def)
  qed
qed (use assms(1) in \<open>cases a, auto simp: less_type_name_def\<close>)

lemma cobs_roundtrip:
  assumes E: "urn_env_ok E" and c: "config_ok c"
  shows "cobs_try_from E (cobs_into_cjson E (cfg_cobs c)) = Inr (cfg_cobs c)"
proof -
  let ?m = "cfg_cobs c" and ?g = "\<lambda>(ty, filt). (cstring_from_typename ty, filter_into_cjson E filt)"
  have ok: "bmap_ok ?m" and el: "\<And>ty filt. (ty, filt) \<in> set ?m \<Longrightarrow>
      filter_ok filt \<and> type_name_ok ty"
    using c by (auto simp: config_ok_def list_all_iff)
  have "sorted_wrt (\<lambda>p q. fst p < fst q) ?m" using ok by (simp add: bmap_ok_def sorted_wrt_map)
  then have "sorted_wrt (\<lambda>p q. fst (?g p) < fst (?g q)) ?m"
    by (rule sorted_wrt_mono_rel [rotated]) (use el typename_mono in \<open>fastforce\<close>)
  then have "bmap_ok (map ?g ?m)" by (simp add: bmap_ok_def sorted_wrt_map case_prod_beta comp_def)
  then have j: "cobs_into_cjson E ?m = Object (map ?g ?m)"
    by (simp add: cobs_into_cjson_def into_object_def json_map_from_iter_def bmap_from_iter_id)
  have ty: "try_typename (cstring_from_typename t) = Inr t" if "type_name_ok t" for t
    using that typename_not_star by (cases t) (auto simp: try_typename_def typename_from_str_def)
  have "collect_results (\<lambda>(typename, filt).
      and_then (try_typename typename) (\<lambda>ty. map_ok (Pair ty) (filter_try_from E filt))) (map ?g ?m) = Inr (map id ?m)"
  proof (rule collect_results_map)
    fix x assume x: "x \<in> set ?m"
    obtain t filt where xt: "x = (t, filt)" by (rule prod.exhaust)
    show "(case ?g x of (typename, filt) \<Rightarrow>
        and_then (try_typename typename) (\<lambda>ty. map_ok (Pair ty) (filter_try_from E filt))) = Inr (id x)"
      using el [of t filt] ty [of t] filter_roundtrip [OF E, of filt] x xt by simp
  qed
  then show ?thesis using j ok by (simp add: cobs_try_from_def cobs_from_iter_def bmap_from_iter_id)
qed

lemma config_roundtrip:
  assumes "urn_env_ok E" "config_ok c"
  shows "config_try_from E (config_into_cjson E c) = Inr c"
proof -
  have "config_into_cjson E c = Object [(''cobs'', cobs_into_cjson E (cfg_cobs c)), (''data'', Bool (cfg_data c))]"
    by (simp add: config_into_cjson_def value_from_iter_def json_map_from_iter_def bmap_from_iter_def
        bmap_empty_def less_char_def)
  then show ?thesis
    using cobs_roundtrip [OF assms]
    by (simp add: config_try_from_def json_map_remove_def bmap_get_def bmap_remove_def)
qed

lemma typename_chars: "typename_regex s \<Longrightarrow> c \<in> set s \<Longrightarrow> is_alnum c \<or> c = CHR ''.''"
  using set_concat_split [of c "CHR ''.''" s] by (auto simp: typename_regex_def list_all_iff)

lemma config_plain:
  assumes E: "urn_env_ok E" and c: "config_ok c"
  shows "plain_value (config_into_cjson E c)"
proof -
  have i: "CHR 0x22 \<notin> set (object_id_display E i)" for i
    using E by (simp add: urn_env_ok_def object_id_display_def)
  have t: "CHR 0x22 \<notin> set s" if "typename_regex s" for s
    using typename_chars [OF that, of "CHR 0x22"] by (auto simp: is_alnum_def)
  have pat: "plain_value (pattern_into_cjson E p)" for p
    using i by (cases p) (auto simp: into_array_def object_id_into_cjson_def list_all_iff)
  have "plain_value (policy_into_cjson p)" for p by (cases p) simp_all
  then have f: "plain_value (filter_into_cjson E filt)" for filt
    using pat by (simp add: filter_into_cjson_def value_from_iter_def json_map_from_iter_def
        bmap_from_iter_def bmap_empty_def less_char_def)
  have fold: "list_all P (fold (\<lambda>(k, v). bmap_insert k v) kvs m)"
    if "list_all P m" "list_all P kvs" for P kvs and m :: "(string, json_value) bmap"
  proof -
    have ins: "list_all P (bmap_insert k v m)" if "list_all P m" "P (k, v)" for k v and m :: "(string, json_value) bmap"
      using that by (induction k v m rule: bmap_insert.induct) auto
    show ?thesis using that by (induction kvs arbitrary: m) (auto intro: ins)
  qed
  have "plain_value (cobs_into_cjson E (cfg_cobs c))"
    unfolding cobs_into_cjson_def into_object_def json_map_from_iter_def bmap_from_iter_def plain_value.simps
  proof (rule fold)
    have "CHR 0x22 \<notin> set (cstring_from_typename k)" if "(k, v) \<in> set (cfg_cobs c)" for k v
      using that c t by (cases k) (fastforce simp: config_ok_def list_all_iff)+
    then show "list_all (\<lambda>(k, v). CHR 0x22 \<notin> set k \<and> plain_value v)
        (map (\<lambda>(k, v). (cstring_from_typename k, filter_into_cjson E v)) (cfg_cobs c))"
      using f by (auto simp: list_all_iff)
  qed (simp add: bmap_empty_def)
  then show ?thesis
    by (simp add: config_into_cjson_def value_from_iter_def json_map_from_iter_def bmap_from_iter_def
        bmap_empty_def less_char_def)
qed

text \<open>
  A type name may end in \<open>.lock\<close>, which no component of a reference name may: the conversion
  of such a type name panics.
\<close>

lemma typename_lock_panics: "typename_from_str ''a.lock'' = Inr ''a.lock'' \<and> component_from_typename ''a.lock'' = None"
  by code_simp

section \<open>Properties\<close>

definition example_config :: "bool config" where
  "example_config =
     \<lparr>cfg_data = True,
      cfg_cobs = snd (cobs_insert cobs_deny_all (Type_name ''xyz.issue'')
        \<lparr>f_policy = Allow, f_pattern = Objects [False]\<rparr>)\<rparr>"

lemma example_config_ok: "config_ok example_config"
  by code_simp



text \<open>
  The decision for a reference below \<open>refs/cobs\<close>, as a rule on the filters.
\<close>

definition cob_rule :: "'i cobs \<Rightarrow> string \<Rightarrow> 'i \<Rightarrow> policy" where
  "cob_rule m ty i =
     (case cobs_get m ty of
        Some filt \<Rightarrow> if pattern_matches (f_pattern filt) i \<longleftrightarrow> f_policy filt = Allow then Allow else Deny
      | None \<Rightarrow> case cobs_wildcard m of Some filt \<Rightarrow> f_policy filt | None \<Rightarrow> Allow)"

lemma policy_for_total: "is_qualified q \<Longrightarrow> policy_for E c q \<noteq> None"
  by (auto simp: is_qualified_iff policy_for_def qualified_non_empty_components_def)

lemma policy_for_data:
  assumes "list_all is_component (cat # x # xs)" "cat \<noteq> COBS"
  shows "policy_for E c (join_with slash (REFS # cat # x # xs)) =
    Some (if cfg_data c \<and> cat \<in> {HEADS, TAGS, NOTES} then Allow else Deny)"
  using components_join [of "REFS # cat # x # xs"] assms
  by (auto simp: policy_for_def qualified_non_empty_components_def DATA_REFS_def)

lemma policy_for_cob:
  assumes E: "urn_env_ok E" and ty: "typename_regex ty" "is_component ty"
  shows "policy_for E c (join_with slash [REFS, COBS, ty, object_id_display E i]) = Some (cob_rule (cfg_cobs c) ty i)"
proof -
  have inv: "policy_inverse p = (if p = Allow then Deny else Allow)" "p \<noteq> Deny \<longleftrightarrow> p = Allow" for p
    by (cases p; simp)+
  show ?thesis
    using components_join [of "[REFS, COBS, ty, object_id_display E i]"] assms object_id_roundtrip [OF E, of i]
      urn_envD(1) [OF E, of "Urn i None"] inv
    by (auto simp: policy_for_def qualified_non_empty_components_def typename_from_str_def object_id_display_def
        urn_encode_id_def cob_rule_def split: option.splits)
qed

lemma policy_for_malformed_cob:
  assumes "list_all is_component (x # xs)" "length xs \<noteq> 1 \<or> \<not> typename_regex x"
  shows "policy_for E c (join_with slash (REFS # COBS # x # xs)) = Some Deny"
  using components_join [of "REFS # COBS # x # xs"] assms
  by (auto simp: policy_for_def qualified_non_empty_components_def typename_from_str_def
      split: option.splits list.splits)



end
