(* ===== verification/Tracking_Ref.thy ===== *)
theory Tracking_Ref
  imports Urn Peer
begin

text \<open>
  The names of tracking references, \<open>refs/rad/remotes/<urn>/(default | <peer>)\<close>
  (\<open>link-tracking/src/git/tracking/reference.rs\<close>): their construction, rendering and parsing.
\<close>

section \<open>Remotes\<close>

datatype remote = Default_remote | Peer_remote bytes

text \<open>The derived order.\<close>

instantiation remote :: linorder
begin

fun less_eq_remote :: "remote \<Rightarrow> remote \<Rightarrow> bool" where
  "less_eq_remote Default_remote _ = True"
| "less_eq_remote (Peer_remote _) Default_remote = False"
| "less_eq_remote (Peer_remote a) (Peer_remote b) = (a \<le> b)"

definition less_remote :: "remote \<Rightarrow> remote \<Rightarrow> bool" where
  "less_remote a b = (a \<le> b \<and> \<not> b \<le> a)"

instance
proof
  fix x y z :: remote
  show "x < y \<longleftrightarrow> x \<le> y \<and> \<not> y \<le> x" by (simp add: less_remote_def)
  show "x \<le> x" by (cases x) auto
  show "x \<le> y \<Longrightarrow> y \<le> z \<Longrightarrow> x \<le> z" by (cases x; cases y; cases z) auto
  show "x \<le> y \<Longrightarrow> y \<le> x \<Longrightarrow> x = y" by (cases x; cases y) auto
  show "x \<le> y \<or> y \<le> x" by (cases x; cases y) auto
qed

end

fun peer_from_remote :: "remote \<Rightarrow> bytes option" where
  "peer_from_remote Default_remote = None"
| "peer_from_remote (Peer_remote peer) = Some peer"

definition remote_from_peer :: "bytes option \<Rightarrow> remote" where
  "remote_from_peer peer = (case peer of None \<Rightarrow> Default_remote | Some p \<Rightarrow> Peer_remote p)"

lemma remote_peer_inverse [simp]:
  "remote_from_peer (peer_from_remote r) = r" "peer_from_remote (remote_from_peer p) = p"
  by (cases r; cases p; simp add: remote_from_peer_def)+

fun remote_display :: "multibase \<Rightarrow> remote \<Rightarrow> string" where
  "remote_display M Default_remote = ''default''"
| "remote_display M (Peer_remote peer) = peer_default_encoding M peer"

text \<open>\<open>None\<close> when parsing the peer identifier panics.\<close>

definition remote_from_str :: "multibase \<Rightarrow> string \<Rightarrow> (conversion_error + remote) option" where
  "remote_from_str M s =
     (if s = ''default'' then Some (Inr Default_remote)
      else map_option (map_ok Peer_remote) (peer_from_default_encoding M s))"

text \<open>\<open>None\<close> when the conversion of the peer identifier panics.\<close>

fun refstring_from_remote :: "multibase \<Rightarrow> remote \<Rightarrow> string option" where
  "refstring_from_remote M Default_remote = Some ''default''"
| "refstring_from_remote M (Peer_remote peer) = component_from_peer M peer"

section \<open>Reference names\<close>

definition tracking_base :: string where
  "tracking_base = ''refs/rad/remotes''"

record 'o ref_name =
  rn_remote :: remote
  rn_urn :: "'o urn"

definition ref_name_new :: "'o urn \<Rightarrow> bytes option \<Rightarrow> 'o ref_name" where
  "ref_name_new u peer =
     \<lparr>rn_remote = (case peer of Some p \<Rightarrow> Peer_remote p | None \<Rightarrow> Default_remote),
      rn_urn = (if urn_path u \<noteq> None then urn_with_path u None else u)\<rparr>"

definition refstring_from_ref_name :: "('o, 'b) urn_env \<Rightarrow> multibase \<Rightarrow> 'o ref_name \<Rightarrow> string option" where
  "refstring_from_ref_name E M r =
     Option.bind (component_from_urn E (rn_urn r)) (\<lambda>namespace.
     Option.bind (refstring_from_remote M (rn_remote r)) (\<lambda>remote.
     Some (refstring_and (refstring_and tracking_base namespace) remote)))"

datatype ref_name_error =
    WrongPrefix
  | Extra
  | MissingComponent string
  | Peer_parse conversion_error
  | Urn_parse decode_id_error
  | NotARef check_error

text \<open>\<open>None\<close> when parsing the peer identifier panics.\<close>

definition ref_name_from_str ::
  "('o, 'b) urn_env \<Rightarrow> multibase \<Rightarrow> string \<Rightarrow> (ref_name_error + 'o ref_name) option" where
  "ref_name_from_str E M s =
     (case refstr_try_from s of
        Inl e \<Rightarrow> Some (Inl (NotARef e))
      | Inr rs \<Rightarrow>
          (case qualified_from_refstr rs of
             None \<Rightarrow> Some (Inl WrongPrefix)
           | Some q \<Rightarrow>
               (case qualified_non_empty_components q of
                  None \<Rightarrow> None
                | Some (refs, rad, remotes, tail) \<Rightarrow>
                    if RAD \<noteq> rad \<or> REMOTES \<noteq> remotes then Some (Inl WrongPrefix)
                    else case tail of
                      [] \<Rightarrow> Some (Inl (MissingComponent ''<urn>''))
                    | i # tail \<Rightarrow>
                        (case urn_try_from_id E i of
                           Inl e \<Rightarrow> Some (Inl (Urn_parse e))
                         | Inr u \<Rightarrow>
                             (case tail of
                                [] \<Rightarrow> Some (Inl (MissingComponent ''(default | <peer>)''))
                              | x # tail \<Rightarrow>
                                  (case remote_from_str M x of
                                     None \<Rightarrow> None
                                   | Some (Inl e) \<Rightarrow> Some (Inl (Peer_parse e))
                                   | Some (Inr remote) \<Rightarrow>
                                       if tail \<noteq> [] then Some (Inl Extra)
                                       else Some (Inr \<lparr>rn_remote = remote, rn_urn = u\<rparr>)))))))"

section \<open>Laws\<close>

text \<open>A name of a valid peer, without a path, as \<open>RefName::new\<close> makes it.\<close>

definition ref_name_ok :: "'o ref_name \<Rightarrow> bool" where
  "ref_name_ok r =
     (urn_path (rn_urn r) = None
      \<and> (case rn_remote r of Default_remote \<Rightarrow> True | Peer_remote k \<Rightarrow> is_key k))"

definition peer_ok :: "bytes option \<Rightarrow> bool" where
  "peer_ok peer = (case peer of None \<Rightarrow> True | Some k \<Rightarrow> is_key k)"

lemma peer_ok_simps [simp]: "peer_ok None" "peer_ok (Some k) \<longleftrightarrow> is_key k"
  by (simp_all add: peer_ok_def)

lemma ref_name_new_ok [simp]: "ref_name_ok (ref_name_new u peer) \<longleftrightarrow> peer_ok peer"
  by (cases peer) (auto simp: ref_name_ok_def ref_name_new_def urn_with_path_def urn_map_path_def)

lemma ref_name_new_eq: "ref_name_new u peer = \<lparr>rn_remote = remote_from_peer peer, rn_urn = Urn (urn_id u) None\<rparr>"
  by (cases u; cases peer) (auto simp: ref_name_new_def remote_from_peer_def urn_with_path_def urn_map_path_def)

lemma ref_name_new_sel [simp]:
  "rn_urn (ref_name_new u peer) = Urn (urn_id u) None" "rn_remote (ref_name_new u peer) = remote_from_peer peer"
  by (simp_all add: ref_name_new_eq)

lemma remote_component:
  assumes "multibase_ok M" "ref_name_ok r"
  shows "refstring_from_remote M (rn_remote r) = Some (remote_display M (rn_remote r))"
    and "is_component (remote_display M (rn_remote r))"
    and "remote_from_str M (remote_display M (rn_remote r)) = Some (Inr (rn_remote r))"
proof -
  have d: "is_component ''default''" by code_simp

  have n: "ENCODED_LEN \<noteq> length ''default''" by code_simp
  have e: "peer_default_encoding M k \<noteq> ''default''" if "is_key k" for k
    using encoded_component(2) [OF assms(1) that] n by force
  show "refstring_from_remote M (rn_remote r) = Some (remote_display M (rn_remote r))"
    using assms peer_component(1) by (cases "rn_remote r") (auto simp: ref_name_ok_def)
  show "is_component (remote_display M (rn_remote r))"
    using assms d encoded_component(1) by (cases "rn_remote r") (auto simp: ref_name_ok_def)
  show "remote_from_str M (remote_display M (rn_remote r)) = Some (Inr (rn_remote r))"
    using assms e peer_parse_encode by (cases "rn_remote r") (auto simp: remote_from_str_def ref_name_ok_def)
qed

text \<open>The rendering, component by component.\<close>

definition tracking_refname :: "('o, 'b) urn_env \<Rightarrow> multibase \<Rightarrow> 'o ref_name \<Rightarrow> string" where
  "tracking_refname E M r =
     join_with slash [REFS, RAD, REMOTES, urn_encode_id E (rn_urn r), remote_display M (rn_remote r)]"

lemma refstring_from_ref_name_total:
  assumes "urn_env_ok E" "multibase_ok M" "ref_name_ok r"
  shows "refstring_from_ref_name E M r = Some (tracking_refname E M r)"
  using component_from_urn_total [OF assms(1), of "rn_urn r"] remote_component(1) [OF assms(2,3)]
  by (simp add: refstring_from_ref_name_def tracking_refname_def refstring_and_def refstring_push_def
      tracking_base_def literal_defs)

lemma tracking_refname_components:
  assumes "urn_env_ok E" "multibase_ok M" "ref_name_ok r"
  shows "refstr_components (tracking_refname E M r) =
      [REFS, RAD, REMOTES, urn_encode_id E (rn_urn r), remote_display M (rn_remote r)]"
    and "is_qualified (tracking_refname E M r)"
proof -
  have c: "list_all is_component [REFS, RAD, REMOTES, urn_encode_id E (rn_urn r), remote_display M (rn_remote r)]"
    using urn_envD(1) [OF assms(1), of "rn_urn r"] remote_component(2) [OF assms(2,3)] by simp
  then show 1: "refstr_components (tracking_refname E M r) =
      [REFS, RAD, REMOTES, urn_encode_id E (rn_urn r), remote_display M (rn_remote r)]"
    unfolding tracking_refname_def by (intro components_join) simp_all
  then show "is_qualified (tracking_refname E M r)" using c by (simp add: is_qualified_iff)
qed

lemma ref_name_parse:
  assumes "urn_env_ok E" "multibase_ok M" "ref_name_ok r"
  shows "ref_name_from_str E M (tracking_refname E M r) = Some (Inr r)"
proof -
  let ?s = "tracking_refname E M r"
  note c = tracking_refname_components [OF assms]
  have t: "refstr_try_from ?s = Inr ?s" "qualified_from_refstr ?s = Some ?s"
    using c(2) by (simp_all add: is_qualified_def refstr_try_from_iff)
  have u: "urn_try_from_id E (urn_encode_id E (rn_urn r)) = Inr (rn_urn r)"
    using assms(1,3) by (cases "rn_urn r")
      (simp add: urn_env_ok_def urn_try_from_id_def urn_encode_id_def urn_new_def ref_name_ok_def)
  show ?thesis
    using t c(1) u remote_component(3) [OF assms(2,3)]
    by (simp add: ref_name_from_str_def qualified_non_empty_components_def)
qed

lemma tracking_refname_inj:
  assumes "urn_env_ok E" "multibase_ok M" "ref_name_ok r" "ref_name_ok r'"
  shows "tracking_refname E M r = tracking_refname E M r' \<longleftrightarrow> r = r'"
proof
  assume "tracking_refname E M r = tracking_refname E M r'"
  then have "Some (Inr r) = (Some (Inr r') :: (ref_name_error + 'a ref_name) option)"
    using ref_name_parse [OF assms(1,2,3)] ref_name_parse [OF assms(1,2,4)] by (metis (no_types))
  then show "r = r'" by simp
qed simp

lemma ref_name_new_inj [simp]: "ref_name_new u peer = ref_name_new v p \<longleftrightarrow> urn_id u = urn_id v \<and> peer = p"
  by (cases peer; cases p) (auto simp: ref_name_new_eq remote_from_peer_def)

section \<open>Property\<close>

text \<open>
  C23: the name of a tracking entry. For every URN and peer the rendering succeeds, is a
  qualified reference name, parses back to the name, and is the name of no other identity or
  peer.
\<close>

theorem ref_name_roundtrip:
  assumes "urn_env_ok E" "multibase_ok M" "peer_ok peer" "peer_ok peer'"
  shows "\<exists>s. refstring_from_ref_name E M (ref_name_new u peer) = Some s
    \<and> is_qualified s
    \<and> ref_name_from_str E M s = Some (Inr (ref_name_new u peer))
    \<and> (refstring_from_ref_name E M (ref_name_new u' peer') = Some s \<longleftrightarrow> urn_id u' = urn_id u \<and> peer' = peer)"
proof -
  have ok: "ref_name_ok (ref_name_new u peer)" "ref_name_ok (ref_name_new u' peer')" using assms(3,4) by simp_all
  show ?thesis
    using refstring_from_ref_name_total [OF assms(1,2) ok(1)] refstring_from_ref_name_total [OF assms(1,2) ok(2)]
      tracking_refname_components(2) [OF assms(1,2) ok(1)] ref_name_parse [OF assms(1,2) ok(1)]
      tracking_refname_inj [OF assms(1,2) ok(2) ok(1)]
    by simp
qed

theorem ref_name_roundtrip_witness:
  "\<exists>s. refstring_from_ref_name example_urn_env example_multibase (ref_name_new (Urn True (Some ''rad/id'')) (Some example_key)) = Some s
    \<and> is_qualified s
    \<and> ref_name_from_str example_urn_env example_multibase s = Some (Inr \<lparr>rn_remote = Peer_remote example_key, rn_urn = Urn True None\<rparr>)
    \<and> refstring_from_ref_name example_urn_env example_multibase (ref_name_new (Urn True None) None) \<noteq> Some s"
proof -
  have k: "peer_ok (Some example_key)" by code_simp
  obtain s where s: "refstring_from_ref_name example_urn_env example_multibase (ref_name_new (Urn True (Some ''rad/id'')) (Some example_key)) = Some s
    \<and> is_qualified s
    \<and> ref_name_from_str example_urn_env example_multibase s = Some (Inr (ref_name_new (Urn True (Some ''rad/id'')) (Some example_key)))
    \<and> (refstring_from_ref_name example_urn_env example_multibase (ref_name_new (Urn True None) None) = Some s
        \<longleftrightarrow> urn_id (Urn True None) = urn_id (Urn True (Some ''rad/id'')) \<and> None = Some example_key)"
    using ref_name_roundtrip [OF example_urn_env_ok example_multibase_ok k peer_ok_simps(1),
      of "Urn True (Some ''rad/id'')" "Urn True None"] by blast
  then show ?thesis by (intro exI [of _ s]) (simp add: ref_name_new_eq remote_from_peer_def)
qed

end
