(* ===== verification/Tracking_Batch.thy ===== *)
theory Tracking_Batch
  imports Tracking_Policy Tracking_Ref Tracking_Config "HOL-Library.Product_Lexorder"
begin

text \<open>
  Fusion of batched tracking actions (\<open>fuse\<close> of \<open>link-tracking/src/git/tracking/batch.rs\<close>): the
  actions on one entry are composed into one or two, and the lemmas show that carrying these
  out has the effect of carrying out the actions one after the other.
\<close>

section \<open>Actions\<close>

datatype 'o action =
    Track_action "'o urn" "bytes option" "'o config" track_policy
  | Untrack_action "'o urn" bytes untrack_policy

fun action_urn :: "'o action \<Rightarrow> 'o urn" where
  "action_urn (Track_action u peer c p) = u"
| "action_urn (Untrack_action u peer p) = u"

fun action_peer :: "'o action \<Rightarrow> bytes option" where
  "action_peer (Track_action u peer c p) = peer"
| "action_peer (Untrack_action u peer p) = Some peer"

section \<open>Fusion\<close>

text \<open>
  The entry of a map is composed with, or created. \<open>None\<close> when composing panics.
\<close>

definition fuse_entry ::
  "('t \<Rightarrow> 't \<Rightarrow> 't reduction) \<Rightarrow> 'k::linorder \<Rightarrow> 't \<Rightarrow> ('k, 't reduction) bmap \<Rightarrow> ('k, 't reduction) bmap option" where
  "fuse_entry compose k p m =
     (case bmap_get m k of
        None \<Rightarrow> Some (bmap_insert k (Simple p) m)
      | Some r \<Rightarrow> map_option (\<lambda>r. bmap_insert k r m) (reduction_compose compose r p))"

type_synonym 'o fuse_pairs = "('o urn \<times> bytes, 'o config pair_policy reduction) bmap"
type_synonym 'o fuse_defaults = "('o urn, 'o config with_config reduction) bmap"

fun fuse_step :: "'o::linorder action \<Rightarrow> 'o fuse_pairs \<times> 'o fuse_defaults \<Rightarrow> ('o fuse_pairs \<times> 'o fuse_defaults) option" where
  "fuse_step (Track_action u None c p) (pairs, defaults) =
     map_option (Pair pairs) (fuse_entry with_config_compose u \<lparr>wc_policy = p, wc_config = c\<rparr> defaults)"
| "fuse_step (Track_action u (Some peer) c p) (pairs, defaults) =
     map_option (\<lambda>pairs. (pairs, defaults))
       (fuse_entry pair_compose (u, peer) (Inl \<lparr>wc_policy = p, wc_config = c\<rparr>) pairs)"
| "fuse_step (Untrack_action u peer p) (pairs, defaults) =
     map_option (\<lambda>pairs. (pairs, defaults)) (fuse_entry pair_compose (u, peer) (Inr p) pairs)"

fun fuse_loop :: "'o::linorder action list \<Rightarrow> 'o fuse_pairs \<times> 'o fuse_defaults \<Rightarrow> ('o fuse_pairs \<times> 'o fuse_defaults) option" where
  "fuse_loop [] st = Some st"
| "fuse_loop (a # as) st = Option.bind (fuse_step a st) (fuse_loop as)"

fun pair_action :: "'o urn \<times> bytes \<Rightarrow> 'o config pair_policy \<Rightarrow> 'o action" where
  "pair_action (u, peer) (Inl w) = Track_action u (Some peer) (wc_config w) (wc_policy w)"
| "pair_action (u, peer) (Inr p) = Untrack_action u peer p"

definition default_action :: "'o urn \<Rightarrow> 'o config with_config \<Rightarrow> 'o action" where
  "default_action u w = Track_action u None (wc_config w) (wc_policy w)"

definition fuse :: "'o::linorder action list \<Rightarrow> 'o action list option" where
  "fuse actions =
     map_option (\<lambda>(pairs, defaults).
         concat (map (\<lambda>(k, simple). map (pair_action k) (reduction_into_iter simple)) pairs)
         @ concat (map (\<lambda>(u, simple). map (default_action u) (reduction_into_iter simple)) defaults))
       (fuse_loop actions (bmap_empty, bmap_empty))"

section \<open>Fusion entry by entry\<close>

text \<open>The policies of the actions on one entry, in order.\<close>

fun action_policy :: "'o action \<Rightarrow> 'o config pair_policy" where
  "action_policy (Track_action u peer c p) = Inl \<lparr>wc_policy = p, wc_config = c\<rparr>"
| "action_policy (Untrack_action u peer p) = Inr p"

definition action_key :: "'o action \<Rightarrow> 'o urn \<times> bytes option" where
  "action_key a = (action_urn a, action_peer a)"

definition policies_at :: "'o urn \<times> bytes option \<Rightarrow> 'o action list \<Rightarrow> 'o config pair_policy list" where
  "policies_at k actions = map action_policy (filter (\<lambda>a. action_key a = k) actions)"

lemma policies_at_simps [simp]:
  "policies_at k [] = []"
  "policies_at k (a # as) = (if action_key a = k then action_policy a # policies_at k as else policies_at k as)"
  "policies_at k (as @ bs) = policies_at k as @ policies_at k bs"
  by (simp_all add: policies_at_def)

lemma reduce_from_snoc:
  "reduce_from compose r (ps @ [p]) = Option.bind (reduce_from compose r ps) (\<lambda>r. reduction_compose compose r p)"
  by (induction ps arbitrary: r) auto

lemma reduce_snoc:
  "reduce (ps @ [p]) = (case reduce ps of None \<Rightarrow> if ps = [] then Some (Simple p) else None
     | Some r \<Rightarrow> reduction_compose pair_compose r p)"
  by (cases ps) (auto simp: reduce_from_snoc split: option.splits)

lemma reduce_None [simp]: "reduce ps = None \<longleftrightarrow> ps = []"
proof (cases ps)
  case (Cons p qs)
  then show ?thesis using reduce_total [of "Simple p" qs] by auto
qed simp

text \<open>On defaults, which are only ever tracked, composition is that of pairs.\<close>

lemma with_config_compose_pair:
  "reduction_compose pair_compose (map_reduction Inl r) (Inl w) =
     map_option (map_reduction Inl) (reduction_compose with_config_compose r w)"
proof -
  have 1: "pair_compose (Inl a) (Inl b) = map_reduction Inl (with_config_compose a b)" for a b :: "'a with_config"
    by (simp split: reduction.splits)
  show ?thesis by (cases r) (auto simp: 1 simp del: pair_compose.simps split: reduction.splits)
qed

text \<open>The maps hold the reductions of the policies seen so far.\<close>

definition fused :: "'o::linorder action list \<Rightarrow> 'o fuse_pairs \<times> 'o fuse_defaults \<Rightarrow> bool" where
  "fused as st =
     (bmap_ok (fst st) \<and> bmap_ok (snd st)
      \<and> (\<forall>u peer. bmap_get (fst st) (u, peer) = reduce (policies_at (u, Some peer) as))
      \<and> (\<forall>u. map_option (map_reduction Inl) (bmap_get (snd st) u) = reduce (policies_at (u, None) as)))"

lemma fuse_entry_pair:
  assumes "bmap_ok m" "bmap_get m k = reduce ps"
  obtains m' where "fuse_entry pair_compose k p m = Some m'" "bmap_ok m'"
    "bmap_get m' = (bmap_get m)(k := reduce (ps @ [p]))"
proof (cases "reduce ps")
  case None
  with assms that [of "bmap_insert k (Simple p) m"] show thesis
    by (simp add: fuse_entry_def bmap.lookup_insert)
next
  case (Some r)
  have "reduce (ps @ [p]) \<noteq> None" by simp
  then obtain r' where r': "reduction_compose pair_compose r p = Some r'"
    using Some by (auto simp add: reduce_snoc simp del: reduce_None)
  with Some assms that [of "bmap_insert k r' m"] show thesis
    by (simp add: fuse_entry_def bmap.lookup_insert reduce_snoc)
qed

lemma fuse_entry_default:
  assumes "bmap_ok m" "map_option (map_reduction Inl) (bmap_get m k) = reduce ps"
  obtains m' r where "fuse_entry with_config_compose k w m = Some m'" "bmap_ok m'"
    "bmap_get m' = (bmap_get m)(k \<mapsto> r)" "Some (map_reduction Inl r) = reduce (ps @ [Inl w])"
proof (cases "bmap_get m k")
  case None
  with assms(2) have "ps = []" using reduce_None [of ps] by (simp del: reduce_None)
  with None assms(1) that [of "bmap_insert k (Simple w) m" "Simple w"] show thesis
    by (simp add: fuse_entry_def bmap.lookup_insert)
next
  case (Some r)
  then have r: "reduce ps = Some (map_reduction Inl r)" using assms(2) by simp
  have "reduce (ps @ [Inl w]) \<noteq> None" by simp
  then obtain r' where r': "reduction_compose with_config_compose r w = Some r'"
    using r by (auto simp add: reduce_snoc with_config_compose_pair simp del: reduce_None)
  with Some r assms(1) that [of "bmap_insert k r' m" r'] show thesis
    by (simp add: fuse_entry_def bmap.lookup_insert reduce_snoc with_config_compose_pair)
qed

lemma fuse_step_fused:
  assumes "fused as st"
  obtains st' where "fuse_step a st = Some st'" "fused (as @ [a]) st'"
proof -
  obtain ps ds where st: "st = (ps, ds)" by (rule prod.exhaust)
  have ok: "bmap_ok ps" "bmap_ok ds"
    and p: "\<And>u peer. bmap_get ps (u, peer) = reduce (policies_at (u, Some peer) as)"
    and d: "\<And>u. map_option (map_reduction Inl) (bmap_get ds u) = reduce (policies_at (u, None) as)"
    using assms by (simp_all add: fused_def st)
  show thesis
  proof (cases "action_peer a")
    case None
    then obtain u c q where a: "a = Track_action u None c q" by (cases a) auto
    obtain m r where m: "fuse_entry with_config_compose u \<lparr>wc_policy = q, wc_config = c\<rparr> ds = Some m" "bmap_ok m"
      "bmap_get m = (bmap_get ds)(u \<mapsto> r)"
      "Some (map_reduction Inl r) = reduce (policies_at (u, None) as @ [Inl \<lparr>wc_policy = q, wc_config = c\<rparr>])"
      using fuse_entry_default [OF ok(2) d] .
    have "fused (as @ [a]) (ps, m)"
      using ok(1) p d m(2,3) m(4) [symmetric] by (auto simp: fused_def a action_key_def)
    then show thesis using that a st m(1) by simp
  next
    case (Some peer)
    have a: "fuse_step a st = map_option (\<lambda>pairs. (pairs, ds)) (fuse_entry pair_compose (action_urn a, peer) (action_policy a) ps)"
      using Some by (cases a) (auto simp: st)
    obtain m where m: "fuse_entry pair_compose (action_urn a, peer) (action_policy a) ps = Some m" "bmap_ok m"
      "bmap_get m = (bmap_get ps)((action_urn a, peer) := reduce (policies_at (action_urn a, Some peer) as @ [action_policy a]))"
      using fuse_entry_pair [OF ok(1) p] .
    have "fused (as @ [a]) (m, ds)"
      using ok(2) p d m(2,3) Some by (auto simp: fused_def action_key_def)
    then show thesis using that a m(1) by simp
  qed
qed

lemma fuse_loop_fused:
  "fused as st \<Longrightarrow> \<exists>st'. fuse_loop bs st = Some st' \<and> fused (as @ bs) st'"
proof (induction bs arbitrary: as st)
  case (Cons b bs)
  obtain st' where s: "fuse_step b st = Some st'" "fused (as @ [b]) st'" using fuse_step_fused [OF Cons.prems] .
  from Cons.IH [OF s(2)] s(1) show ?case by simp
qed simp

text \<open>The actions of a map of reductions, where \<open>key\<close> is the entry of a key of the map.\<close>

lemma policies_at_concat:
  assumes "distinct (map fst m)" "inj key"
    and "\<And>kk t. action_key (g kk t) = key kk" "\<And>kk t. action_policy (g kk t) = f t"
  shows "policies_at (key k) (concat (map (\<lambda>(kk, r). map (g kk) (reduction_into_iter r)) m)) =
    (case map_of m k of None \<Rightarrow> [] | Some r \<Rightarrow> map f (reduction_into_iter r))"
  using assms(1)
proof (induction m)
  case (Cons kr m)
  obtain kk r where kr: "kr = (kk, r)" by (rule prod.exhaust)
  have at: "policies_at (key k) (map (g kk) ts) = (if kk = k then map f ts else [])" for ts
    using assms(2-) by (induction ts) (auto simp: inj_eq)
  have "map_of m k = None" if "kk = k" using Cons.prems that kr by (auto simp: map_of_eq_None_iff)
  then show ?case using Cons kr at by auto
qed simp

lemma policies_at_concat_other:
  assumes "\<And>kk t. action_key (g kk t) \<noteq> k"
  shows "policies_at k (concat (map (\<lambda>(kk, r). map (g kk) (reduction_into_iter r)) m)) = []"
  using assms by (auto simp: policies_at_def filter_empty_conv)

lemma fuse_policies:
  obtains out where "fuse actions = Some out"
    "\<And>k. policies_at k out = (case reduce (policies_at k actions) of None \<Rightarrow> [] | Some r \<Rightarrow> reduction_into_iter r)"
proof -
  have "fused [] (bmap_empty, bmap_empty)" by (simp add: fused_def bmap.lookup_empty)
  from fuse_loop_fused [OF this, of actions] obtain ps ds
    where l: "fuse_loop actions (bmap_empty, bmap_empty) = Some (ps, ds)" and f: "fused actions (ps, ds)"
    by auto
  let ?p = "concat (map (\<lambda>(k, simple). map (pair_action k) (reduction_into_iter simple)) ps)"
  let ?d = "concat (map (\<lambda>(u, simple). map (default_action u) (reduction_into_iter simple)) ds)"
  have out: "fuse actions = Some (?p @ ?d)" by (simp add: fuse_def l)
  have ok: "distinct (map fst ps)" "distinct (map fst ds)" using f by (simp_all add: fused_def bmap_ok_distinct)
  have pk: "action_key (pair_action kk t) = (fst kk, Some (snd kk))" "action_policy (pair_action kk t) = t"
    for kk and t :: "'a config pair_policy"
    by (cases kk; cases t; simp add: action_key_def)+
  have dk: "action_key (default_action u w) = (u, None)" "action_policy (default_action u w) = Inl w" for u w
    by (simp_all add: action_key_def default_action_def)
  have 1: "policies_at (u, None) (?p @ ?d) =
      (case reduce (policies_at (u, None) actions) of None \<Rightarrow> [] | Some r \<Rightarrow> reduction_into_iter r)" for u
  proof -
    have "policies_at (u, None) ?p = []" by (rule policies_at_concat_other) (simp add: pk)
    moreover have "policies_at (u, None) ?d =
        (case map_of ds u of None \<Rightarrow> [] | Some r \<Rightarrow> map Inl (reduction_into_iter r))"
      by (rule policies_at_concat [where key = "\<lambda>u. (u, None)"]) (simp_all add: ok dk inj_def)
    moreover have "map Inl (reduction_into_iter r) = reduction_into_iter (map_reduction Inl r)"
      for r :: "'a config with_config reduction"
      by (cases r) auto
    moreover have "map_option (map_reduction Inl) (map_of ds u) = reduce (policies_at (u, None) actions)"
      using f by (simp add: fused_def bmap_get_def)
    ultimately show ?thesis by (cases "map_of ds u") (auto split: option.splits)
  qed
  have 2: "policies_at (u, Some peer) (?p @ ?d) =
      (case reduce (policies_at (u, Some peer) actions) of None \<Rightarrow> [] | Some r \<Rightarrow> reduction_into_iter r)" for u peer
  proof -
    have "policies_at (u, Some peer) ?d = []" by (rule policies_at_concat_other) (simp add: dk)
    moreover have "policies_at (u, Some peer) ?p =
        (case map_of ps (u, peer) of None \<Rightarrow> [] | Some r \<Rightarrow> map id (reduction_into_iter r))"
      using policies_at_concat [OF ok(1), of "\<lambda>kk. (fst kk, Some (snd kk))" pair_action id "(u, peer)"] pk
      by (simp add: inj_def prod_eq_iff)
    moreover have "map_of ps (u, peer) = reduce (policies_at (u, Some peer) actions)"
      using f by (simp add: fused_def bmap_get_def)
    ultimately show ?thesis by (simp split: option.splits)
  qed
  have "policies_at k (?p @ ?d) = (case reduce (policies_at k actions) of None \<Rightarrow> [] | Some r \<Rightarrow> reduction_into_iter r)" for k
  proof -
    obtain u po where "k = (u, po)" by (rule prod.exhaust)
    then show ?thesis using 1 2 by (cases po) (simp_all only:)
  qed
  with out that show thesis by blast
qed

text \<open>Fusion makes up neither peers nor configurations.\<close>

fun policy_ok :: "('c \<Rightarrow> bool) \<Rightarrow> 'c pair_policy \<Rightarrow> bool" where
  "policy_ok P (Inl w) = P (wc_config w)"
| "policy_ok P (Inr u) = True"

lemma pair_compose_ok:
  "policy_ok P p \<Longrightarrow> policy_ok P q \<Longrightarrow> list_all (policy_ok P) (reduction_into_iter (pair_compose p q))"
  by (cases p; cases q; cases "wc_policy (projl p)"; cases "wc_policy (projl q)"; cases "projr p")
    (simp_all add: with_config_compose_def)

lemma reduction_compose_policies:
  assumes "list_all (policy_ok P) (reduction_into_iter r)" "policy_ok P p" "reduction_compose pair_compose r p = Some r'"
  shows "list_all (policy_ok P) (reduction_into_iter r')"
proof (cases r)
  case (Simple x)
  then show ?thesis using assms pair_compose_ok [of P x p] by simp
next
  case (Stuck x y)
  then obtain n where n: "pair_compose y p = Simple n" "r' = pair_compose x n"
    using assms(3) by (auto split: reduction.splits)
  then have "policy_ok P n" using assms(1,2) Stuck pair_compose_ok [of P y p] by simp
  then show ?thesis using assms(1) Stuck n(2) pair_compose_ok [of P x n] by simp
qed

lemma reduce_policies:
  "list_all (policy_ok P) ps \<Longrightarrow> reduce ps = Some r \<Longrightarrow> list_all (policy_ok P) (reduction_into_iter r)"
proof (induction ps arbitrary: r rule: rev_induct)
  case (snoc p ps)
  then show ?case
    by (cases "reduce ps") (auto simp: reduce_snoc split: if_splits intro: reduction_compose_policies)
qed simp

definition action_ok :: "('o config \<Rightarrow> bool) \<Rightarrow> 'o action \<Rightarrow> bool" where
  "action_ok valid a = (peer_ok (action_peer a) \<and> policy_ok valid (action_policy a))"

lemma policies_at_in: "a \<in> set actions \<Longrightarrow> action_policy a \<in> set (policies_at (action_key a) actions)"
  by (auto simp: policies_at_def)

lemma policies_atD: "p \<in> set (policies_at k actions) \<Longrightarrow> \<exists>a \<in> set actions. action_key a = k \<and> action_policy a = p"
  by (auto simp: policies_at_def)

lemma fuse_action_ok:
  assumes "list_all (action_ok valid) acts" "fuse acts = Some out"
  shows "list_all (action_ok valid) out"
proof -
  have at: "policies_at k out = (case reduce (policies_at k acts) of None \<Rightarrow> [] | Some r \<Rightarrow> reduction_into_iter r)" for k
    using fuse_policies [of acts] assms(2) by (metis option.inject)
  have "action_ok valid a" if a: "a \<in> set out" for a
  proof -
    let ?ps = "policies_at (action_key a) acts"
    obtain r where r: "reduce ?ps = Some r" "action_policy a \<in> set (reduction_into_iter r)"
      using policies_at_in [OF a] at [of "action_key a"] by (auto split: option.splits)
    then have "?ps \<noteq> []" using reduce_None [of ?ps] by auto
    then obtain b where "b \<in> set acts" "action_key b = action_key a" using policies_atD by (metis list.set_sel(1))
    then have "peer_ok (action_peer a)" using assms(1) by (auto simp: list_all_iff action_ok_def action_key_def)
    moreover have "list_all (policy_ok valid) ?ps"
      using assms(1) by (auto simp: list_all_iff action_ok_def policies_at_def)
    ultimately show ?thesis using reduce_policies [OF _ r(1)] r(2) by (auto simp: action_ok_def list_all_iff)
  qed
  then show ?thesis by (simp add: list_all_iff)
qed

section \<open>The effect of actions\<close>

text \<open>
  The tracking entries by the name of their reference. Carrying out an action changes its entry
  if the condition of its policy holds.
\<close>

definition action_name :: "'o action \<Rightarrow> 'o ref_name" where
  "action_name a = ref_name_new (action_urn a) (action_peer a)"

definition run_action :: "'o action \<Rightarrow> ('o ref_name \<Rightarrow> 'o config option) \<Rightarrow> 'o ref_name \<Rightarrow> 'o config option" where
  "run_action a s = s(action_name a := policy_effect (action_policy a) (s (action_name a)))"

definition run_actions :: "'o action list \<Rightarrow> ('o ref_name \<Rightarrow> 'o config option) \<Rightarrow> 'o ref_name \<Rightarrow> 'o config option" where
  "run_actions actions s = fold run_action actions s"

definition policies_on :: "'o ref_name \<Rightarrow> 'o action list \<Rightarrow> 'o config pair_policy list" where
  "policies_on r actions = map action_policy (filter (\<lambda>a. action_name a = r) actions)"

lemma run_actions_at: "run_actions actions s r = effects (policies_on r actions) (s r)"
  by (induction actions arbitrary: s) (auto simp: run_actions_def run_action_def policies_on_def)

text \<open>Without paths, the entry of an action is determined by the key it is fused under.\<close>

definition pathless :: "'o action list \<Rightarrow> bool" where
  "pathless = list_all (\<lambda>a. urn_path (action_urn a) = None)"

lemma policies_on_at:
  assumes "pathless actions"
  shows "policies_on r actions =
    (if urn_path (rn_urn r) = None then policies_at (rn_urn r, peer_from_remote (rn_remote r)) actions else [])"
proof -
  have name: "action_name a = r \<longleftrightarrow> urn_path (rn_urn r) = None \<and> action_key a = (rn_urn r, peer_from_remote (rn_remote r))"
    if "urn_path (action_urn a) = None" for a
  proof -
    have "Urn (urn_id (action_urn a)) None = action_urn a" using that by (cases "action_urn a") simp
    then show ?thesis using that by (cases r) (auto simp: action_name_def ref_name_new_eq action_key_def)
  qed
  have "filter (\<lambda>a. action_name a = r) actions =
      (if urn_path (rn_urn r) = None
       then filter (\<lambda>a. action_key a = (rn_urn r, peer_from_remote (rn_remote r))) actions else [])"
    using assms name by (auto simp: pathless_def list_all_iff filter_empty_conv cong: filter_cong)
  then show ?thesis by (simp add: policies_on_def policies_at_def)
qed

lemma fuse_on:
  assumes "pathless actions"
  obtains out where "fuse actions = Some out" "pathless out"
    "\<And>r. policies_on r out = (case reduce (policies_on r actions) of None \<Rightarrow> [] | Some q \<Rightarrow> reduction_into_iter q)"
proof -
  obtain out where out: "fuse actions = Some out"
    "\<And>k. policies_at k out = (case reduce (policies_at k actions) of None \<Rightarrow> [] | Some r \<Rightarrow> reduction_into_iter r)"
    using fuse_policies [of actions] by blast
  have "urn_path (action_urn a) = None" if "a \<in> set out" for a
  proof -
    have "policies_at (action_key a) actions \<noteq> []"
      using policies_at_in [OF that] out(2) [of "action_key a"] by (auto split: option.splits)
    then obtain b where "b \<in> set actions" "action_key b = action_key a"
      by (auto simp: policies_at_def filter_empty_conv)
    then show ?thesis using assms by (auto simp: pathless_def list_all_iff action_key_def)
  qed
  then have p: "pathless out" by (simp add: pathless_def list_all_iff)
  show thesis
    using that [OF out(1) p] out(2) policies_on_at [OF assms] policies_on_at [OF p] by simp
qed

lemma fuse_effects:
  assumes "pathless actions"
  obtains out where "fuse actions = Some out" "\<And>r. length (policies_on r out) \<le> 2"
    "\<And>s r. run_actions out s r = None \<longleftrightarrow> run_actions actions s r = None"
    "\<And>s r. fusable False (policies_on r actions) \<Longrightarrow> run_actions out s r = run_actions actions s r"
proof -
  obtain out where out: "fuse actions = Some out"
    and on: "\<And>r. policies_on r out = (case reduce (policies_on r actions) of None \<Rightarrow> [] | Some q \<Rightarrow> reduction_into_iter q)"
    using fuse_on [OF assms] by blast
  have "length (reduction_into_iter q) \<le> 2" for q :: "'a config pair_policy reduction" by (cases q) simp_all
  then have len: "length (policies_on r out) \<le> 2" for r by (simp add: on split: option.splits)
  have eff: "(effects (policies_on r out) c = None \<longleftrightarrow> effects (policies_on r actions) c = None)
      \<and> (fusable False (policies_on r actions) \<longrightarrow> effects (policies_on r out) c = effects (policies_on r actions) c)" for r c
  proof (cases "policies_on r actions = []")
    case False
    show ?thesis by (rule reduce_fuses [OF False]) (simp add: on)
  qed (simp add: on)
  show thesis using that [OF out len] eff by (simp add: run_actions_at)
qed

section \<open>Property\<close>


definition example_actions :: "bool action list" where
  "example_actions =
     [Track_action (Urn True None) (Some example_key) config_default TMustExist,
      Track_action (Urn True None) None config_default TAny,
      Untrack_action (Urn True None) example_key UAny,
      Track_action (Urn True None) (Some example_key) \<lparr>cfg_data = False, cfg_cobs = cobs_empty\<rparr> TMustNotExist]"

definition example_name :: "bool ref_name" where
  "example_name = ref_name_new (Urn True None) (Some example_key)"


text \<open>
  The keys of fusion include the path of a URN, which the name of the reference does not. Actions
  on one reference are then not composed, and are carried out in the order of the keys: here an
  untrack that comes after a track is moved before it.
\<close>

lemma fuse_reorders_paths:
  "fuse [Track_action (Urn True (Some ''rad/id'')) (Some example_key) config_default TAny,
         Untrack_action (Urn True None) example_key UAny] =
     Some [Untrack_action (Urn True None) example_key UAny,
           Track_action (Urn True (Some ''rad/id'')) (Some example_key) config_default TAny]"
  by (simp add: fuse_def fuse_entry_def bmap_get_def bmap_empty_def less_urn_def)

end
