(* ===== verification/Tracking.thy ===== *)
theory Tracking
  imports Tracking_Batch "HOL-Library.Monad_Syntax"
begin

text \<open>
  The operations on tracking entries (\<open>link-tracking/src/git/tracking.rs\<close> and \<open>batch\<close> of
  \<open>tracking/batch.rs\<close>). They are generic in the database: the traits of \<open>git/refdb.rs\<close> and
  \<open>git/odb.rs\<close> are the record \<open>db\<close>, whose operations return the new state of the database.
  In every operation \<open>None\<close> is a panic and \<open>Inl\<close> an error. What the operations rely on is the
  locale \<open>tracking_store\<close>, in which their effect on the entries is proved.
\<close>

section \<open>The traits of the database\<close>

record 'o db_ref =
  dr_name :: "'o ref_name"
  dr_target :: 'o

datatype 'o update =
    Write_update "'o ref_name" 'o "'o previous_value"
  | Delete_update "'o ref_name" "'o previous_value"

datatype 'o updated =
    Written "'o ref_name" 'o
  | Deleted "'o ref_name" 'o

record 'o applied =
  ap_updates :: "'o updated list"
  ap_rejections :: "'o previous_error list"

datatype 'o pruned_ref = Pruned_direct string 'o | Pruned_symbolic string

record ('s, 'o, 'e) db =
  db_find_reference :: "'s \<Rightarrow> 'o ref_name \<Rightarrow> ('e + 'o db_ref option) option"
  db_references :: "'s \<Rightarrow> string \<Rightarrow> ('e + ('e + 'o db_ref) list) option"
  db_update :: "'s \<Rightarrow> 'o update list \<Rightarrow> (('e + 'o applied) \<times> 's) option"
  db_prune :: "'s \<Rightarrow> 'o urn \<Rightarrow> bytes option \<Rightarrow> (('e + 'o pruned_ref list) \<times> 's) option"
  db_find_config :: "'s \<Rightarrow> 'o \<Rightarrow> ('e + 'o config option) option"
  db_write_config :: "'s \<Rightarrow> 'o config \<Rightarrow> (('e + 'o) \<times> 's) option"
  db_modify_config :: "'s \<Rightarrow> 'o \<Rightarrow> ('o config \<Rightarrow> 'o config) \<Rightarrow> (('e + 'o) \<times> 's) option"

section \<open>Writing entries\<close>

datatype ('o, 'e) track_error = Track_Create "'o ref_name" 'e | Track_WriteObj "'o ref_name" 'e

text \<open>
  The outcome of an update that writes one reference, from what was applied; \<open>None\<close> is one of the
  panics, including the assertions of a debug build.
\<close>

definition first_written :: "'o applied \<Rightarrow> ('o previous_error + 'o db_ref) option" where
  "first_written applied =
     (case ap_updates applied of
        updated # _ \<Rightarrow>
          if ap_rejections applied \<noteq> [] then None
          else (case updated of
            Written name target \<Rightarrow> Some (Inr \<lparr>dr_name = name, dr_target = target\<rparr>)
          | Deleted _ _ \<Rightarrow> None)
      | [] \<Rightarrow>
          (case ap_rejections applied of
             [] \<Rightarrow> None
           | rejection # _ \<Rightarrow> Some (Inl rejection)))"

definition track ::
  "('s, 'o, 'e) db \<Rightarrow> 's \<Rightarrow> 'o urn \<Rightarrow> bytes option \<Rightarrow> 'o config \<Rightarrow> track_policy \<Rightarrow>
   ((('o, 'e) track_error + ('o previous_error + 'o db_ref)) \<times> 's) option" where
  "track D s u peer config policy =
     (let reference = ref_name_new u peer in
      do {
        (target, s) \<leftarrow> db_write_config D s config;
        case target of
          Inl e \<Rightarrow> Some (Inl (Track_WriteObj reference e), s)
        | Inr target \<Rightarrow> do {
            (applied, s) \<leftarrow> db_update D s [Write_update reference target (track_previous policy)];
            case applied of
              Inl e \<Rightarrow> Some (Inl (Track_Create reference e), s)
            | Inr applied \<Rightarrow> map_option (\<lambda>r. (Inr r, s)) (first_written applied)
          }
      })"

datatype ('o, 'e) modify_error =
    Modify_DidNotExist "'o ref_name"
  | Modify_FindRef "'o ref_name" 'e
  | Modify_ModifyObj "'o ref_name" 'o 'e
  | Modify_WriteRef 'o "'o ref_name" 'e

definition modify ::
  "('s, 'o, 'e) db \<Rightarrow> 's \<Rightarrow> 'o urn \<Rightarrow> bytes option \<Rightarrow> ('o config \<Rightarrow> 'o config) \<Rightarrow>
   ((('o, 'e) modify_error + ('o previous_error + 'o db_ref)) \<times> 's) option" where
  "modify D s u peer f =
     (let name = ref_name_new u peer in
      do {
        found \<leftarrow> db_find_reference D s name;
        case found of
          Inl e \<Rightarrow> Some (Inl (Modify_FindRef name e), s)
        | Inr None \<Rightarrow> Some (Inl (Modify_DidNotExist name), s)
        | Inr (Some reference) \<Rightarrow> do {
            (new, s) \<leftarrow> db_modify_config D s (dr_target reference) f;
            case new of
              Inl e \<Rightarrow> Some (Inl (Modify_ModifyObj name (dr_target reference) e), s)
            | Inr new \<Rightarrow> do {
                (applied, s) \<leftarrow> db_update D s [Write_update name new (PMustExistAndMatch (dr_target reference))];
                case applied of
                  Inl e \<Rightarrow> Some (Inl (Modify_WriteRef new name e), s)
                | Inr applied \<Rightarrow> map_option (\<lambda>r. (Inr r, s)) (first_written applied)
              }
          }
      })"

section \<open>Removing entries\<close>

record 'o untracked =
  un_previous :: "'o option"
  un_pruned :: "'o pruned_ref list option"

record untrack_args =
  ua_policy :: untrack_policy
  ua_prune :: bool

definition untrack_args_default :: untrack_args where
  "untrack_args_default = \<lparr>ua_policy = UMustExist, ua_prune = False\<rparr>"

definition untrack_args_new :: "untrack_policy \<Rightarrow> untrack_args" where
  "untrack_args_new policy = \<lparr>ua_policy = policy, ua_prune = False\<rparr>"

definition untrack_args_prune :: "untrack_policy \<Rightarrow> untrack_args" where
  "untrack_args_prune policy = \<lparr>ua_policy = policy, ua_prune = True\<rparr>"

datatype ('o, 'e) untrack_error = Untrack_Delete "'o ref_name" 'e | Untrack_Prune "'o ref_name" 'e

text \<open>The outcome of an update that deletes one reference; \<open>None\<close> is the panic.\<close>

definition first_deleted :: "'o applied \<Rightarrow> ('o previous_error + 'o option) option" where
  "first_deleted applied =
     (case ap_updates applied of
        updated # _ \<Rightarrow>
          (case updated of Deleted _ previous \<Rightarrow> Some (Inr (Some previous)) | Written _ _ \<Rightarrow> None)
      | [] \<Rightarrow>
          (case ap_rejections applied of
             rejection # _ \<Rightarrow> Some (Inl rejection)
           | [] \<Rightarrow> Some (Inr None)))"

definition untrack ::
  "('s, 'o, 'e) db \<Rightarrow> 's \<Rightarrow> 'o urn \<Rightarrow> bytes \<Rightarrow> untrack_args \<Rightarrow>
   ((('o, 'e) untrack_error + ('o previous_error + 'o untracked)) \<times> 's) option" where
  "untrack D s u peer args =
     (let reference = ref_name_new u (Some peer) in
      do {
        (applied, s) \<leftarrow> db_update D s [Delete_update reference (untrack_previous (ua_policy args))];
        case applied of
          Inl e \<Rightarrow> Some (Inl (Untrack_Delete reference e), s)
        | Inr applied \<Rightarrow> do {
            previous \<leftarrow> first_deleted applied;
            if ua_prune args then do {
              (pruned, s) \<leftarrow> db_prune D s u (Some peer);
              case pruned of
                Inl e \<Rightarrow> Some (Inl (Untrack_Prune reference e), s)
              | Inr pruned \<Rightarrow>
                  Some (Inr (map_ok (\<lambda>p. \<lparr>un_previous = p, un_pruned = Some pruned\<rparr>) previous), s)
            } else Some (Inr (map_ok (\<lambda>p. \<lparr>un_previous = p, un_pruned = None\<rparr>) previous), s)
          }
      })"

record untrack_all_args =
  uaa_policy :: untrack_all_policy
  uaa_prune :: bool

definition untrack_all_args_default :: untrack_all_args where
  "untrack_all_args_default = \<lparr>uaa_policy = AMustExistAndMatch, uaa_prune = False\<rparr>"

definition untrack_all_args_new :: "untrack_all_policy \<Rightarrow> untrack_all_args" where
  "untrack_all_args_new policy = \<lparr>uaa_policy = policy, uaa_prune = False\<rparr>"

definition untrack_all_args_prune :: "untrack_all_policy \<Rightarrow> untrack_all_args" where
  "untrack_all_args_prune policy = \<lparr>uaa_policy = policy, uaa_prune = True\<rparr>"

datatype 'e untrack_all_error =
    UntrackAll_References string 'e
  | UntrackAll_Iter string 'e
  | UntrackAll_Delete string 'e
  | UntrackAll_Prune string 'e

record 'o untracked_all =
  una_untracked :: "('o previous_error + 'o ref_name) list"
  una_pruned :: "'o pruned_ref list option"

text \<open>The names of deleted references, with a panic for a written one.\<close>

fun deleted_names :: "'o updated list \<Rightarrow> 'o ref_name list option" where
  "deleted_names [] = Some []"
| "deleted_names (Written _ _ # us) = None"
| "deleted_names (Deleted name _ # us) = map_option (Cons name) (deleted_names us)"

definition remotes_refspec :: "('o, 'b) urn_env \<Rightarrow> 'o urn option \<Rightarrow> string option" where
  "remotes_refspec E filter_by =
     (case filter_by of
        Some u \<Rightarrow>
          map_option (\<lambda>namespace. refstring_and tracking_base namespace @ ''/*'') (component_from_urn E u)
      | None \<Rightarrow> Some (tracking_base @ ''/*''))"

definition untrack_all ::
  "('o, 'b) urn_env \<Rightarrow> ('s, 'o, 'e) db \<Rightarrow> 's \<Rightarrow> 'o urn \<Rightarrow> untrack_all_args \<Rightarrow>
   (('e untrack_all_error + 'o untracked_all) \<times> 's) option" where
  "untrack_all E D s u args =
     do {
       spec \<leftarrow> remotes_refspec E (Some u);
       refs \<leftarrow> db_references D s spec;
       case refs of
         Inl e \<Rightarrow> Some (Inl (UntrackAll_References spec e), s)
       | Inr refs \<Rightarrow>
           (case collect_results (map_ok (\<lambda>r.
                Delete_update (dr_name r) (untrack_all_previous (uaa_policy args) (dr_target r)))) refs of
              Inl e \<Rightarrow> Some (Inl (UntrackAll_Iter spec e), s)
            | Inr updates \<Rightarrow> do {
                (applied, s) \<leftarrow> db_update D s updates;
                case applied of
                  Inl e \<Rightarrow> Some (Inl (UntrackAll_Delete spec e), s)
                | Inr applied \<Rightarrow> do {
                    names \<leftarrow> deleted_names (ap_updates applied);
                    let untracked = map Inr names @ map Inl (ap_rejections applied);
                    if uaa_prune args then do {
                      (pruned, s) \<leftarrow> db_prune D s u None;
                      case pruned of
                        Inl e \<Rightarrow> Some (Inl (UntrackAll_Prune spec e), s)
                      | Inr pruned \<Rightarrow>
                          Some (Inr \<lparr>una_untracked = untracked, una_pruned = Some pruned\<rparr>, s)
                    } else Some (Inr \<lparr>una_untracked = untracked, una_pruned = None\<rparr>, s)
                  }
              })
     }"

section \<open>Reading entries\<close>

datatype 'o tracked_entry =
    Tracked_default "'o urn" "'o config"
  | Tracked_peer "'o urn" bytes "'o config"

definition from_reference :: "'o ref_name \<Rightarrow> 'o config \<Rightarrow> 'o tracked_entry" where
  "from_reference name config =
     (case rn_remote name of
        Default_remote \<Rightarrow> Tracked_default (rn_urn name) config
      | Peer_remote peer \<Rightarrow> Tracked_peer (rn_urn name) peer config)"

datatype ('o, 'e) tracked_error =
    Tracked_FindObj "'o ref_name" 'o 'e
  | Tracked_Iter string 'e
  | Tracked_References string 'e

record ('o, 'e) tracked_entries =
  te_spec :: string
  te_seen :: "('o, 'o config) bmap"
  te_iter :: "('e + 'o db_ref) list"

definition tracked_resolve ::
  "('s, 'o::linorder, 'e) db \<Rightarrow> 's \<Rightarrow> ('o, 'e) tracked_entries \<Rightarrow> 'o db_ref \<Rightarrow>
   ((('o, 'e) tracked_error + 'o tracked_entry option) \<times> ('o, 'e) tracked_entries) option" where
  "tracked_resolve D s it reference =
     (case bmap_get (te_seen it) (dr_target reference) of
        Some config \<Rightarrow> Some (Inr (Some (from_reference (dr_name reference) config)), it)
      | None \<Rightarrow> do {
          found \<leftarrow> db_find_config D s (dr_target reference);
          case found of
            Inl e \<Rightarrow> Some (Inl (Tracked_FindObj (dr_name reference) (dr_target reference) e), it)
          | Inr None \<Rightarrow> Some (Inr None, it)
          | Inr (Some config) \<Rightarrow>
              Some (Inr (Some (from_reference (dr_name reference) config)),
                    it\<lparr>te_seen := bmap_insert (dr_target reference) config (te_seen it)\<rparr>)
        })"

text \<open>\<open>next\<close>: the item, or \<open>None\<close> at the end of the iteration, with the iterator.\<close>

definition tracked_next ::
  "('s, 'o::linorder, 'e) db \<Rightarrow> 's \<Rightarrow> ('o, 'e) tracked_entries \<Rightarrow>
   ((('o, 'e) tracked_error + 'o tracked_entry) option \<times> ('o, 'e) tracked_entries) option" where
  "tracked_next D s it =
     (case te_iter it of
        [] \<Rightarrow> Some (None, it)
      | r # rest \<Rightarrow>
          (let it = it\<lparr>te_iter := rest\<rparr> in
           case r of
             Inl e \<Rightarrow> Some (Some (Inl (Tracked_Iter (te_spec it) e)), it)
           | Inr reference \<Rightarrow> do {
               (resolved, it) \<leftarrow> tracked_resolve D s it reference;
               Some (case resolved of
                   Inl e \<Rightarrow> Some (Inl e)
                 | Inr None \<Rightarrow> None
                 | Inr (Some entry) \<Rightarrow> Some (Inr entry), it)
             }))"

lemma tracked_next_shorter:
  "tracked_next D s it = Some (Some item, it') \<Longrightarrow> length (te_iter it') < length (te_iter it)"
  by (auto simp: tracked_next_def tracked_resolve_def Let_def
      split: list.splits sum.splits option.splits Option.bind_splits)

text \<open>Consuming the iterator: every item, until \<open>next\<close> returns nothing.\<close>

function tracked_collect ::
  "('s, 'o::linorder, 'e) db \<Rightarrow> 's \<Rightarrow> ('o, 'e) tracked_entries \<Rightarrow>
   (('o, 'e) tracked_error + 'o tracked_entry) list option" where
  "tracked_collect D s it =
     (case tracked_next D s it of
        None \<Rightarrow> None
      | Some (None, _) \<Rightarrow> Some []
      | Some (Some item, it') \<Rightarrow> map_option (Cons item) (tracked_collect D s it'))"
  by pat_completeness auto

termination
  by (relation "measure (\<lambda>(D, s, it). length (te_iter it))") (auto intro: tracked_next_shorter)

declare tracked_collect.simps [simp del]

definition tracked ::
  "('o, 'b) urn_env \<Rightarrow> ('s, 'o::linorder, 'e) db \<Rightarrow> 's \<Rightarrow> 'o urn option \<Rightarrow>
   (('o, 'e) tracked_error + ('o, 'e) tracked_entries) option" where
  "tracked E D s filter_by =
     do {
       spec \<leftarrow> remotes_refspec E filter_by;
       iter \<leftarrow> db_references D s spec;
       Some (case iter of
           Inl e \<Rightarrow> Inl (Tracked_References spec e)
         | Inr iter \<Rightarrow> Inr \<lparr>te_spec = spec, te_seen = bmap_empty, te_iter = iter\<rparr>)
     }"

datatype 'e tracked_peers_error = Peers_Iter string 'e | Peers_References string 'e

text \<open>All items of \<open>TrackedPeers\<close>, which skips default entries.\<close>

fun tracked_peers_items :: "string \<Rightarrow> ('e + 'o db_ref) list \<Rightarrow> ('e tracked_peers_error + bytes) list" where
  "tracked_peers_items spec [] = []"
| "tracked_peers_items spec (Inl e # rs) = Inl (Peers_Iter spec e) # tracked_peers_items spec rs"
| "tracked_peers_items spec (Inr r # rs) =
     (case peer_from_remote (rn_remote (dr_name r)) of
        None \<Rightarrow> tracked_peers_items spec rs
      | Some peer \<Rightarrow> Inr peer # tracked_peers_items spec rs)"

definition tracked_peers ::
  "('o, 'b) urn_env \<Rightarrow> ('s, 'o, 'e) db \<Rightarrow> 's \<Rightarrow> 'o urn option \<Rightarrow>
   ('e tracked_peers_error + ('e tracked_peers_error + bytes) list) option" where
  "tracked_peers E D s filter_by =
     do {
       spec \<leftarrow> remotes_refspec E filter_by;
       iter \<leftarrow> db_references D s spec;
       Some (case iter of
           Inl e \<Rightarrow> Inl (Peers_References spec e)
         | Inr iter \<Rightarrow> Inr (tracked_peers_items spec iter))
     }"

datatype ('o, 'e) get_error = Get_FindObj "'o ref_name" 'o 'e | Get_FindRef "'o ref_name" 'e

definition get ::
  "('s, 'o, 'e) db \<Rightarrow> 's \<Rightarrow> 'o urn \<Rightarrow> bytes option \<Rightarrow> (('o, 'e) get_error + 'o tracked_entry option) option" where
  "get D s u peer =
     (let name = ref_name_new u peer in
      do {
        found \<leftarrow> db_find_reference D s name;
        case found of
          Inl e \<Rightarrow> Some (Inl (Get_FindRef name e))
        | Inr None \<Rightarrow> Some (Inr None)
        | Inr (Some reference) \<Rightarrow> do {
            config \<leftarrow> db_find_config D s (dr_target reference);
            case config of
              Inl e \<Rightarrow> Some (Inl (Get_FindObj (dr_name reference) (dr_target reference) e))
            | Inr config \<Rightarrow> Some (Inr (map_option (from_reference name) config))
          }
      })"

datatype ('o, 'e) is_tracked_error = IsTracked_FindRef "'o ref_name" 'e

definition is_tracked ::
  "('s, 'o, 'e) db \<Rightarrow> 's \<Rightarrow> 'o urn \<Rightarrow> bytes option \<Rightarrow> (('o, 'e) is_tracked_error + bool) option" where
  "is_tracked D s u peer =
     (let name = ref_name_new u peer in
      map_option (\<lambda>found. map_ok (\<lambda>r. r \<noteq> None) (map_err (IsTracked_FindRef name) found))
        (db_find_reference D s name))"

datatype 'e default_only_error = DefaultOnly_Iter string 'e | DefaultOnly_References string 'e

fun default_only_loop :: "string \<Rightarrow> bool \<Rightarrow> ('e + 'o db_ref) list \<Rightarrow> 'e default_only_error + bool" where
  "default_only_loop spec seen_default [] = Inr seen_default"
| "default_only_loop spec seen_default (Inl e # rs) = Inl (DefaultOnly_Iter spec e)"
| "default_only_loop spec seen_default (Inr r # rs) =
     (case rn_remote (dr_name r) of
        Default_remote \<Rightarrow> default_only_loop spec True rs
      | Peer_remote _ \<Rightarrow> Inr False)"

definition default_only ::
  "('o, 'b) urn_env \<Rightarrow> ('s, 'o, 'e) db \<Rightarrow> 's \<Rightarrow> 'o urn \<Rightarrow> ('e default_only_error + bool) option" where
  "default_only E D s u =
     do {
       spec \<leftarrow> remotes_refspec E (Some u);
       refs \<leftarrow> db_references D s spec;
       Some (case refs of
           Inl e \<Rightarrow> Inl (DefaultOnly_References spec e)
         | Inr refs \<Rightarrow> default_only_loop spec False refs)
     }"

section \<open>Batches\<close>

datatype ('o, 'e) batch_error =
    Batch_FindRef "'o ref_name" 'e
  | Batch_MissingRef "'o ref_name"
  | Batch_WriteObj "'o ref_name" 'e
  | Batch_Txn 'e

text \<open>The identifier of a written configuration, with the cache of those written already.\<close>

definition batch_target ::
  "('s, 'o, 'e) db \<Rightarrow> 's \<Rightarrow> ('o config \<times> 'o) list \<Rightarrow> 'o ref_name \<Rightarrow> 'o config \<Rightarrow>
   ((('o, 'e) batch_error + 'o) \<times> ('o config \<times> 'o) list \<times> 's) option" where
  "batch_target D s cache name config =
     (case map_of cache config of
        None \<Rightarrow> do {
          (target, s) \<leftarrow> db_write_config D s config;
          Some (case target of
              Inl e \<Rightarrow> (Inl (Batch_WriteObj name e), cache, s)
            | Inr target \<Rightarrow> (Inr target, (config, target) # cache, s))
        }
      | Some target \<Rightarrow> Some (Inr target, cache, s))"

text \<open>The reference that a policy \<open>MustExist\<close> is to find.\<close>

definition batch_existing ::
  "('s, 'o, 'e) db \<Rightarrow> 's \<Rightarrow> 'o ref_name \<Rightarrow> (('o, 'e) batch_error + 'o db_ref) option" where
  "batch_existing D s name =
     map_option (\<lambda>found. and_then (map_err (Batch_FindRef name) found) (ok_or (Batch_MissingRef name)))
       (db_find_reference D s name)"

definition batch_write ::
  "('s, 'o, 'e) db \<Rightarrow> 's \<Rightarrow> ('o config \<times> 'o) list \<Rightarrow> 'o ref_name \<Rightarrow> 'o config \<Rightarrow> 'o previous_value \<Rightarrow>
   ((('o, 'e) batch_error + 'o update) \<times> ('o config \<times> 'o) list \<times> 's) option" where
  "batch_write D s cache name config previous =
     map_option (\<lambda>(target, cache, s). (map_ok (\<lambda>target. Write_update name target previous) target, cache, s))
       (batch_target D s cache name config)"

fun into_update ::
  "('s, 'o, 'e) db \<Rightarrow> 's \<Rightarrow> ('o config \<times> 'o) list \<Rightarrow> 'o action \<Rightarrow>
   ((('o, 'e) batch_error + 'o update) \<times> ('o config \<times> 'o) list \<times> 's) option" where
  "into_update D s cache (Track_action u peer config policy) =
     (let name = ref_name_new u peer in
      case policy of
        TAny \<Rightarrow> batch_write D s cache name config PAny
      | TMustExist \<Rightarrow> do {
          r \<leftarrow> batch_existing D s name;
          case r of
            Inl e \<Rightarrow> Some (Inl e, cache, s)
          | Inr r \<Rightarrow> batch_write D s cache name config (PMustExistAndMatch (dr_target r))
        }
      | TMustNotExist \<Rightarrow> batch_write D s cache name config PMustNotExist)"
| "into_update D s cache (Untrack_action u peer policy) =
     (let name = ref_name_new u (Some peer) in
      case policy of
        UAny \<Rightarrow> Some (Inr (Delete_update name (untrack_previous policy)), cache, s)
      | UMustExist \<Rightarrow> do {
          r \<leftarrow> batch_existing D s name;
          Some (map_ok (\<lambda>r. Delete_update name (PMustExistAndMatch (dr_target r))) r, cache, s)
        })"

text \<open>All updates, collected up to the first error.\<close>

fun into_updates ::
  "('s, 'o, 'e) db \<Rightarrow> 's \<Rightarrow> ('o config \<times> 'o) list \<Rightarrow> 'o action list \<Rightarrow>
   ((('o, 'e) batch_error + 'o update list) \<times> 's) option" where
  "into_updates D s cache [] = Some (Inr [], s)"
| "into_updates D s cache (a # as) =
     do {
       (r, cache, s) \<leftarrow> into_update D s cache a;
       case r of
         Inl e \<Rightarrow> Some (Inl e, s)
       | Inr up \<Rightarrow> map_option (\<lambda>(ups, s). (map_ok (Cons up) ups, s)) (into_updates D s cache as)
     }"

datatype 'o batch_updated = Batch_tracked "'o db_ref" | Batch_untracked "'o db_ref"

fun batch_updated_from :: "'o updated \<Rightarrow> 'o batch_updated" where
  "batch_updated_from (Written name target) = Batch_tracked \<lparr>dr_name = name, dr_target = target\<rparr>"
| "batch_updated_from (Deleted name previous) = Batch_untracked \<lparr>dr_name = name, dr_target = previous\<rparr>"

definition batch ::
  "('s, 'o::linorder, 'e) db \<Rightarrow> 's \<Rightarrow> 'o action list \<Rightarrow>
   ((('o, 'e) batch_error + 'o batch_updated list \<times> 'o previous_error list) \<times> 's) option" where
  "batch D s actions =
     do {
       actions \<leftarrow> fuse actions;
       (updates, s) \<leftarrow> into_updates D s [] actions;
       case updates of
         Inl e \<Rightarrow> Some (Inl e, s)
       | Inr updates \<Rightarrow> do {
           (applied, s) \<leftarrow> db_update D s updates;
           Some (case applied of
               Inl e \<Rightarrow> Inl (Batch_Txn e)
             | Inr applied \<Rightarrow> Inr (map batch_updated_from (ap_updates applied), ap_rejections applied), s)
         }
     }"

section \<open>What a store promises\<close>

text \<open>
  The effect of a transaction of updates: every condition is checked against the references
  at its beginning, and the updates whose condition holds are carried out in order. Deleting
  what does not exist at the beginning is no update.
\<close>

fun up_name :: "'o update \<Rightarrow> 'o ref_name" where
  "up_name (Write_update n t p) = n"
| "up_name (Delete_update n p) = n"

fun up_previous :: "'o update \<Rightarrow> 'o previous_value" where
  "up_previous (Write_update n t p) = p"
| "up_previous (Delete_update n p) = p"

fun up_value :: "'o update \<Rightarrow> 'o option" where
  "up_value (Write_update n t p) = Some t"
| "up_value (Delete_update n p) = None"

definition up_holds :: "('o ref_name \<Rightarrow> 'o option) \<Rightarrow> 'o update \<Rightarrow> bool" where
  "up_holds before up = holds_for (up_previous up) (before (up_name up))"

definition up_effect ::
  "('o ref_name \<Rightarrow> 'o option) \<Rightarrow> 'o update \<Rightarrow> ('o ref_name \<Rightarrow> 'o option) \<Rightarrow> 'o ref_name \<Rightarrow> 'o option" where
  "up_effect before up refs =
     (if up_holds before up \<and> (up_value up = None \<longrightarrow> before (up_name up) \<noteq> None)
      then refs(up_name up := up_value up) else refs)"

fun up_updated :: "('o ref_name \<Rightarrow> 'o option) \<Rightarrow> 'o update \<Rightarrow> 'o updated list" where
  "up_updated before (Write_update n t p) = (if holds_for p (before n) then [Written n t] else [])"
| "up_updated before (Delete_update n p) =
     (case before n of Some t \<Rightarrow> if holds_for p (Some t) then [Deleted n t] else [] | None \<Rightarrow> [])"

definition up_rejected :: "('o ref_name \<Rightarrow> 'o option) \<Rightarrow> 'o update \<Rightarrow> 'o previous_error list" where
  "up_rejected before up =
     (case previous_guard (up_previous up) (before (up_name up)) (Inr () :: unit + unit) of
        Inr (Some e) \<Rightarrow> [e] | _ \<Rightarrow> [])"

lemma up_rejected_empty: "up_rejected before up = [] \<longleftrightarrow> up_holds before up"
proof (cases "up_holds before up")
  case True
  then show ?thesis by (simp add: up_holds_def up_rejected_def previous_guard_ok)
next
  case False
  then show ?thesis unfolding up_holds_def
    by (rule previous_guard_reject [where r = "Inr () :: unit + unit"]) (use False in \<open>simp add: up_rejected_def up_holds_def\<close>)
qed

lemma up_effect_at: "up_name up \<noteq> n \<Longrightarrow> up_effect before up refs n = refs n"
  by (simp add: up_effect_def)

text \<open>
  The store: its references and configurations are maps, every reference points to a
  configuration, and the operations act on them as their documentation says. An error for which
  \<open>partial\<close> holds may leave any state.
\<close>

locale tracking_store =
  fixes D :: "('s, 'o::linorder, 'e) db"
    and inv :: "'s \<Rightarrow> bool"
    and refs :: "'s \<Rightarrow> 'o ref_name \<Rightarrow> 'o option"
    and configs :: "'s \<Rightarrow> 'o \<Rightarrow> 'o config option"
    and valid :: "'o config \<Rightarrow> bool"
    and partial :: "'e \<Rightarrow> bool"
    and names :: "string \<Rightarrow> 'o ref_name \<Rightarrow> bool"
    and E :: "('o, 'b) urn_env"
  assumes refspec_total: "inv s \<Longrightarrow> remotes_refspec E fb \<noteq> None"
    and refspec_all: "inv s \<Longrightarrow> remotes_refspec E None = Some spec \<Longrightarrow> ref_name_ok n \<Longrightarrow> names spec n"
    and refspec_urn: "inv s \<Longrightarrow> remotes_refspec E (Some u) = Some spec \<Longrightarrow> ref_name_ok n \<Longrightarrow>
      names spec n \<longleftrightarrow> urn_id (rn_urn n) = urn_id u"
    and find_reference_total: "inv s \<Longrightarrow> ref_name_ok n \<Longrightarrow> db_find_reference D s n \<noteq> None"
    and find_reference: "inv s \<Longrightarrow> ref_name_ok n \<Longrightarrow> db_find_reference D s n = Some (Inr found) \<Longrightarrow>
      found = map_option (\<lambda>t. \<lparr>dr_name = n, dr_target = t\<rparr>) (refs s n)"
    and references_total: "inv s \<Longrightarrow> remotes_refspec E fb = Some spec \<Longrightarrow> db_references D s spec \<noteq> None"
    and references: "inv s \<Longrightarrow> db_references D s spec = Some (Inr rs) \<Longrightarrow> Inr r \<in> set rs \<Longrightarrow>
      ref_name_ok (dr_name r) \<and> names spec (dr_name r) \<and> refs s (dr_name r) = Some (dr_target r)"
    and references_complete: "inv s \<Longrightarrow> db_references D s spec = Some (Inr rs) \<Longrightarrow> Inl ` UNIV \<inter> set rs = {} \<Longrightarrow>
      ref_name_ok n \<Longrightarrow> names spec n \<Longrightarrow> refs s n = Some t \<Longrightarrow> Inr \<lparr>dr_name = n, dr_target = t\<rparr> \<in> set rs"
    and find_config_total: "inv s \<Longrightarrow> db_find_config D s t \<noteq> None"
    and find_config: "inv s \<Longrightarrow> db_find_config D s t = Some (Inr oc) \<Longrightarrow> oc = configs s t"
    and write_config_total: "inv s \<Longrightarrow> db_write_config D s c \<noteq> None"
    and write_config: "inv s \<Longrightarrow> valid c \<Longrightarrow> db_write_config D s c = Some (w, s') \<Longrightarrow>
      inv s' \<and> refs s' = refs s \<and> configs s \<subseteq>\<^sub>m configs s' \<and> (\<forall>t. w = Inr t \<longrightarrow> configs s' t = Some c)"
    and modify_config_total: "inv s \<Longrightarrow> db_modify_config D s t f \<noteq> None"
    and modify_config: "inv s \<Longrightarrow> configs s t = Some c \<Longrightarrow> valid (f c) \<Longrightarrow> db_modify_config D s t f = Some (w, s') \<Longrightarrow>
      inv s' \<and> refs s' = refs s \<and> configs s \<subseteq>\<^sub>m configs s' \<and> (\<forall>t'. w = Inr t' \<longrightarrow> configs s' t' = Some (f c))"
    and update_total: "inv s \<Longrightarrow> \<forall>up \<in> set ups. ref_name_ok (up_name up) \<Longrightarrow> db_update D s ups \<noteq> None"
    and update: "inv s \<Longrightarrow> \<forall>up \<in> set ups. ref_name_ok (up_name up)
        \<and> (\<forall>t. up_value up = Some t \<longrightarrow> (\<exists>c. configs s t = Some c \<and> valid c)) \<Longrightarrow>
      db_update D s ups = Some (Inr a, s') \<Longrightarrow>
      inv s' \<and> configs s' = configs s \<and> refs s' = fold (up_effect (refs s)) ups (refs s)
      \<and> ap_updates a = concat (map (up_updated (refs s)) ups) \<and> ap_rejections a = concat (map (up_rejected (refs s)) ups)"
    and update_error: "inv s \<Longrightarrow> db_update D s ups = Some (Inl e, s') \<Longrightarrow> \<not> partial e \<Longrightarrow> s' = s"
    and prune_total: "inv s \<Longrightarrow> peer_ok peer \<Longrightarrow> urn_path u = None \<Longrightarrow> db_prune D s u peer \<noteq> None"
    and prune: "inv s \<Longrightarrow> peer_ok peer \<Longrightarrow> urn_path u = None \<Longrightarrow> db_prune D s u peer = Some (pr, s') \<Longrightarrow>
      (\<And>e. pr = Inl e \<Longrightarrow> \<not> partial e) \<Longrightarrow> inv s' \<and> refs s' = refs s \<and> configs s' = configs s"
    and configured: "inv s \<Longrightarrow> refs s n = Some t \<Longrightarrow> \<exists>c. configs s t = Some c \<and> valid c"
begin

text \<open>The tracking entries.\<close>

definition entries :: "'s \<Rightarrow> 'o ref_name \<Rightarrow> 'o config option" where
  "entries s n = Option.bind (refs s n) (configs s)"

lemma entries_None [simp]: "inv s \<Longrightarrow> entries s n = None \<longleftrightarrow> refs s n = None"
  using configured [of s n] by (cases "refs s n") (auto simp: entries_def)

lemma entries_mono:
  assumes "inv s" "refs s' = refs s" "configs s \<subseteq>\<^sub>m configs s'"
  shows "entries s' = entries s"
proof
  fix n
  show "entries s' n = entries s n"
  proof (cases "refs s n")
    case (Some t)
    then obtain c where "configs s t = Some c" using configured [OF assms(1)] by blast
    with assms(3) have "configs s' t = Some c" by (auto simp: map_le_def dom_def)
    then show ?thesis using Some assms(2) \<open>configs s t = Some c\<close> by (simp add: entries_def)
  qed (simp add: entries_def assms(2))
qed

lemma refs_holds:
  assumes "inv s"
  shows "holds_for (track_previous p) (refs s n) \<longleftrightarrow> holds_for (track_previous p) (entries s n)"
    "holds_for (untrack_previous q) (refs s n) \<longleftrightarrow> holds_for (untrack_previous q) (entries s n)"
  using entries_None [OF assms, of n] by (cases p; cases q; auto)+

lemma update_one:
  assumes "inv s" "ref_name_ok (up_name up)" "\<And>t. up_value up = Some t \<Longrightarrow> \<exists>c. configs s t = Some c \<and> valid c"
    and "db_update D s [up] = Some (Inr a, s')"
  shows "inv s'" "configs s' = configs s" "refs s' = up_effect (refs s) up (refs s)"
    "ap_updates a = up_updated (refs s) up" "ap_rejections a = up_rejected (refs s) up"
  using update [OF assms(1) _ assms(4)] assms(2,3) by auto

text \<open>A write of one reference, and what the operations make of what was applied.\<close>

lemma write_one:
  assumes "inv s" "ref_name_ok n" "configs s t = Some c \<and> valid c"
    and "db_update D s [Write_update n t p] = Some (Inr a, s')"
  shows "inv s'" "entries s' = (if holds_for p (refs s n) then (entries s)(n \<mapsto> c) else entries s)"
    "\<exists>x. first_written a = Some x \<and> (is_ok x \<longleftrightarrow> holds_for p (refs s n))
      \<and> (\<forall>ref. x = Inr ref \<longrightarrow> ref = \<lparr>dr_name = n, dr_target = t\<rparr>)"
proof -

  have o: "inv s'" "configs s' = configs s" "refs s' = up_effect (refs s) (Write_update n t p) (refs s)"
    "ap_updates a = up_updated (refs s) (Write_update n t p)"
    "ap_rejections a = up_rejected (refs s) (Write_update n t p)"
    using update_one [OF assms(1) _ _ assms(4)] assms(2,3) by simp_all
  then show "inv s'" by simp
  show "entries s' = (if holds_for p (refs s n) then (entries s)(n \<mapsto> c) else entries s)"
    using o(2,3) assms(3) by (auto simp: entries_def up_effect_def up_holds_def)
  show "\<exists>x. first_written a = Some x \<and> (is_ok x \<longleftrightarrow> holds_for p (refs s n))
      \<and> (\<forall>ref. x = Inr ref \<longrightarrow> ref = \<lparr>dr_name = n, dr_target = t\<rparr>)"
  proof (cases "holds_for p (refs s n)")
    case True
    then have "ap_rejections a = []" using o(5) up_rejected_empty [of "refs s" "Write_update n t p"] by (simp add: up_holds_def)
    then show ?thesis using True o(4) by (simp add: first_written_def)
  next
    case False
    then have "ap_rejections a \<noteq> []" using o(5) up_rejected_empty [of "refs s" "Write_update n t p"] by (simp add: up_holds_def)
    then show ?thesis using False o(4) by (cases "ap_rejections a") (simp_all add: first_written_def)
  qed
qed

text \<open>Tracking.\<close>

lemma track_total:
  assumes "inv s" "peer_ok peer" "valid c"
  shows "track D s u peer c p \<noteq> None"
proof -
  let ?n = "ref_name_new u peer"
  obtain w s1 where w: "db_write_config D s c = Some (w, s1)" using write_config_total [OF assms(1)] by fastforce
  note w1 = write_config [OF assms(1,3) w]
  show ?thesis
  proof (cases w)
    case (Inr t)
    then have t: "configs s1 t = Some c \<and> valid c" and i: "inv s1" using w1 assms(3) by auto
    obtain a s2 where a: "db_update D s1 [Write_update ?n t (track_previous p)] = Some (a, s2)"
      using update_total [OF i, of "[Write_update ?n t (track_previous p)]"] assms(2) by fastforce
    show ?thesis
    proof (cases a)
      case (Inr b)
      have n: "ref_name_ok ?n" using assms(2) by simp
      obtain x where "first_written b = Some x" using write_one(3) [OF i n t a [unfolded Inr]] by blast
      then show ?thesis using a w Inr \<open>w = Inr t\<close> by (simp add: track_def)
    qed (use a w Inr in \<open>simp add: track_def\<close>)
  qed (use w in \<open>simp add: track_def\<close>)
qed

lemma track_spec:
  assumes "inv s" "peer_ok peer" "valid c" "track D s u peer c p = Some (r, s')"
  shows "r = Inr x \<Longrightarrow> inv s' \<and> entries s' = run_action (Track_action u peer c p) (entries s)
      \<and> (is_ok x \<longleftrightarrow> holds_for (track_previous p) (entries s (ref_name_new u peer)))"
    and "r = Inl e \<Longrightarrow> (\<And>n d. e = Track_Create n d \<Longrightarrow> \<not> partial d) \<Longrightarrow> inv s' \<and> entries s' = entries s"
proof -
  let ?n = "ref_name_new u peer"
  have n: "ref_name_ok ?n" using assms(2) by simp
  obtain w s1 where w: "db_write_config D s c = Some (w, s1)" using write_config_total [OF assms(1)] by fastforce
  note w1 = write_config [OF assms(1,3) w]
  have i: "inv s1" and e1: "entries s1 = entries s"
    using w1 entries_mono [OF assms(1), of s1] by simp_all
  show "inv s' \<and> entries s' = run_action (Track_action u peer c p) (entries s)
      \<and> (is_ok x \<longleftrightarrow> holds_for (track_previous p) (entries s ?n))" if r: "r = Inr x"
  proof -
    obtain t a where t: "w = Inr t" and a: "db_update D s1 [Write_update ?n t (track_previous p)] = Some (Inr a, s')"
      and x: "first_written a = Some x"
      using assms(4) w r by (auto simp: track_def Let_def split: Option.bind_splits sum.splits)
    have "configs s1 t = Some c \<and> valid c" using w1 t assms(3) by blast
    note one = write_one [OF i n this a]
    show ?thesis
      using one x refs_holds(1) [OF i, of p ?n] e1 by (auto simp: run_action_def action_name_def)
  qed
  show "inv s' \<and> entries s' = entries s" if r: "r = Inl e" "\<And>n d. e = Track_Create n d \<Longrightarrow> \<not> partial d"
  proof (cases w)
    case (Inl d)
    then show ?thesis using assms(4) w i e1 by (simp add: track_def)
  next
    case (Inr t)
    then obtain d where "db_update D s1 [Write_update ?n t (track_previous p)] = Some (Inl d, s')" "e = Track_Create ?n d"
      using assms(4) w r(1) by (auto simp: track_def Let_def split: Option.bind_splits sum.splits)
    with update_error [OF i] r(2) i e1 show ?thesis by blast
  qed
qed

end

context tracking_store
begin

text \<open>Modifying: with no other writer in between, an existing entry is always modified.\<close>

lemma modify_spec:
  assumes "inv s" "peer_ok peer" "\<And>c. valid c \<Longrightarrow> valid (f c)" "modify D s u peer f = Some (r, s')"
  shows "r = Inr x \<Longrightarrow> inv s' \<and> is_ok x
      \<and> (\<exists>c. entries s (ref_name_new u peer) = Some c \<and> entries s' = (entries s)(ref_name_new u peer \<mapsto> f c))"
    and "r = Inl e \<Longrightarrow> (\<And>o' n d. e = Modify_WriteRef o' n d \<Longrightarrow> \<not> partial d) \<Longrightarrow> inv s' \<and> entries s' = entries s"
    and "r = Inl (Modify_DidNotExist n) \<Longrightarrow> entries s (ref_name_new u peer) = None"
proof -
  let ?n = "ref_name_new u peer"
  have n: "ref_name_ok ?n" using assms(2) by simp
  obtain found where f0: "db_find_reference D s ?n = Some found" using find_reference_total [OF assms(1) n] by fastforce
  have fr: "found = Inr o' \<Longrightarrow> o' = map_option (\<lambda>t. \<lparr>dr_name = ?n, dr_target = t\<rparr>) (refs s ?n)" for o'
    using find_reference [OF assms(1) n] f0 by simp
  have mod: "inv s1 \<and> entries s1 = entries s \<and> refs s1 = refs s \<and> (\<forall>t'. w = Inr t' \<longrightarrow> configs s1 t' = Some (f c))"
    if "refs s ?n = Some t" "configs s t = Some c" "db_modify_config D s t f = Some (w, s1)" for t c w s1
  proof -
    have "valid (f c)" using configured [OF assms(1) that(1)] that(2) assms(3) by auto
    note m = modify_config [OF assms(1) that(2) this that(3)]
    then show ?thesis using entries_mono [OF assms(1), of s1] by simp
  qed
  show "inv s' \<and> is_ok x \<and> (\<exists>c. entries s ?n = Some c \<and> entries s' = (entries s)(?n \<mapsto> f c))" if r: "r = Inr x"
  proof -
    obtain t s1 new a where t: "refs s ?n = Some t" and m: "db_modify_config D s t f = Some (Inr new, s1)"
      and a: "db_update D s1 [Write_update ?n new (PMustExistAndMatch t)] = Some (Inr a, s')" "first_written a = Some x"
      using assms(4) f0 fr r by (auto simp: modify_def Let_def split: Option.bind_splits sum.splits option.splits)
    obtain c where c: "configs s t = Some c" using configured [OF assms(1) t] by blast
    note m1 = mod [OF t c m]
    have "configs s1 new = Some (f c) \<and> valid (f c)" "inv s1" using m1 configured [OF assms(1) t] c assms(3) by auto
    note one = write_one [OF this(2) n this(1) a(1)]
    show ?thesis using one a(2) m1 t c by (auto simp: entries_def)
  qed
  show "inv s' \<and> entries s' = entries s" if r: "r = Inl e" "\<And>o' n d. e = Modify_WriteRef o' n d \<Longrightarrow> \<not> partial d"
  proof (cases "(\<exists>d. found = Inl d) \<or> found = Inr None")
    case True
    then show ?thesis using assms(1,4) f0 r(1) by (auto simp: modify_def Let_def)
  next
    case False
    then obtain ref where ref: "found = Inr (Some ref)" by (metis not_None_eq sum.exhaust)
    from fr [OF ref] obtain t where t: "refs s ?n = Some t" and fo: "found = Inr (Some \<lparr>dr_name = ?n, dr_target = t\<rparr>)"
      using ref by (cases "refs s ?n") auto
    obtain c where c: "configs s t = Some c" using configured [OF assms(1) t] by blast
    obtain w s1 where w: "db_modify_config D s t f = Some (w, s1)" using modify_config_total [OF assms(1)] by fastforce
    note m1 = mod [OF t c w]
    show ?thesis
    proof (cases w)
      case (Inr new)
      then obtain d where "db_update D s1 [Write_update ?n new (PMustExistAndMatch t)] = Some (Inl d, s')" "e = Modify_WriteRef new ?n d"
        using assms(4) f0 fo w r(1) by (auto simp: modify_def Let_def split: Option.bind_splits sum.splits)
      then show ?thesis using update_error [of s1] r(2) m1 by blast
    qed (use assms(4) f0 fo w m1 in \<open>simp add: modify_def\<close>)
  qed
  show "entries s ?n = None" if "r = Inl (Modify_DidNotExist n)" for n
  proof -
    have "found = Inr None"
      using that assms(4) f0 by (auto simp: modify_def Let_def split: Option.bind_splits sum.splits option.splits)
    then show ?thesis using fr [of None] by (simp add: entries_def)
  qed
qed

text \<open>Untracking.\<close>

lemma delete_one:
  assumes "inv s" "ref_name_ok n" and "db_update D s [Delete_update n p] = Some (Inr a, s')"
  shows "inv s'" "entries s' = (if holds_for p (refs s n) then (entries s)(n := None) else entries s)"
    "\<exists>x. first_deleted a = Some x \<and> (is_ok x \<longleftrightarrow> holds_for p (refs s n))
      \<and> (\<forall>y. x = Inr y \<longrightarrow> y = refs s n)"
proof -
  have o: "inv s'" "configs s' = configs s" "refs s' = up_effect (refs s) (Delete_update n p) (refs s)"
    "ap_updates a = up_updated (refs s) (Delete_update n p)"
    "ap_rejections a = up_rejected (refs s) (Delete_update n p)"
    using update_one [OF assms(1) _ _ assms(3)] assms(2) by simp_all
  then show "inv s'" by simp
  show "entries s' = (if holds_for p (refs s n) then (entries s)(n := None) else entries s)"
    using o(2,3) by (auto simp: entries_def up_effect_def up_holds_def)
  have rej: "ap_rejections a = [] \<longleftrightarrow> holds_for p (refs s n)"
    using o(5) up_rejected_empty [of "refs s" "Delete_update n p"] by (simp add: up_holds_def)
  show "\<exists>x. first_deleted a = Some x \<and> (is_ok x \<longleftrightarrow> holds_for p (refs s n))
      \<and> (\<forall>y. x = Inr y \<longrightarrow> y = refs s n)"
    using o(4) rej by (cases "refs s n"; cases "ap_rejections a") (auto simp: first_deleted_def)
qed

lemma untrack_spec:
  assumes "inv s" "is_key peer" "untrack D s u peer args = Some (r, s')" "ua_prune args \<Longrightarrow> urn_path u = None"
  shows "r = Inr x \<Longrightarrow> inv s' \<and> entries s' = run_action (Untrack_action u peer (ua_policy args)) (entries s)
      \<and> (is_ok x \<longleftrightarrow> holds_for (untrack_previous (ua_policy args)) (entries s (ref_name_new u (Some peer))))"
    and "r = Inl (Untrack_Delete n e) \<Longrightarrow> \<not> partial e \<Longrightarrow> inv s' \<and> entries s' = entries s"
proof -
  let ?n = "ref_name_new u (Some peer)" and ?p = "untrack_previous (ua_policy args)"
  have n: "ref_name_ok ?n" using assms(2) by simp
  show "inv s' \<and> entries s' = run_action (Untrack_action u peer (ua_policy args)) (entries s)
      \<and> (is_ok x \<longleftrightarrow> holds_for ?p (entries s ?n))" if r: "r = Inr x"
  proof -
    obtain a s1 y where a: "db_update D s [Delete_update ?n ?p] = Some (Inr a, s1)" and y: "first_deleted a = Some y"
      and rest: "\<not> ua_prune args \<and> s' = s1 \<or> ua_prune args \<and> (\<exists>pr. db_prune D s1 u (Some peer) = Some (Inr pr, s'))" "is_ok x \<longleftrightarrow> is_ok y"
      using assms(3) r
      by (cases "ua_prune args") (auto simp: untrack_def Let_def is_ok_def split: Option.bind_splits sum.splits)
    note one = delete_one [OF assms(1) n a]
    have "inv s' \<and> refs s' = refs s1 \<and> configs s' = configs s1"
      using rest(1) one(1) prune [OF one(1), of "Some peer" u] assms(2,4) by auto
    then have "inv s'" "entries s' = entries s1" by (auto intro!: ext simp only: entries_def)
    moreover have "entries s1 = run_action (Untrack_action u peer (ua_policy args)) (entries s)"
      using one(2) refs_holds(2) [OF assms(1)] by (auto simp: run_action_def action_name_def)
    ultimately show ?thesis using one(3) y rest(2) refs_holds(2) [OF assms(1)] by auto
  qed
  show "inv s' \<and> entries s' = entries s" if "r = Inl (Untrack_Delete n e)" "\<not> partial e" for n
  proof -
    have "db_update D s [Delete_update ?n ?p] = Some (Inl e, s')"
      using assms(3) that by (cases "ua_prune args") (auto simp: untrack_def Let_def split: Option.bind_splits sum.splits)
    from update_error [OF assms(1) this that(2)] assms(1) show ?thesis by simp
  qed
qed

lemma untrack_total:
  assumes "inv s" "is_key peer" "ua_prune args \<Longrightarrow> urn_path u = None"
  shows "untrack D s u peer args \<noteq> None"
proof -
  let ?n = "ref_name_new u (Some peer)" and ?p = "untrack_previous (ua_policy args)"
  have n: "ref_name_ok ?n" using assms(2) by simp
  obtain a s1 where a: "db_update D s [Delete_update ?n ?p] = Some (a, s1)"
    using update_total [OF assms(1), of "[Delete_update ?n ?p]"] n by fastforce
  show ?thesis
  proof (cases a)
    case (Inr b)
    note one = delete_one [OF assms(1) n a [unfolded Inr]]
    obtain x where x: "first_deleted b = Some x" using one(3) by blast
    show ?thesis
    proof (cases "ua_prune args")
      case True
      then obtain pr s2 where "db_prune D s1 u (Some peer) = Some (pr, s2)"
        using prune_total [OF one(1), of "Some peer" u] assms(2,3) by fastforce
      then show ?thesis using a Inr x True by (cases pr) (simp_all add: untrack_def)
    qed (use a Inr x in \<open>simp add: untrack_def\<close>)
  qed (use a in \<open>simp add: untrack_def\<close>)
qed

text \<open>Reading one entry.\<close>

lemma get_spec:
  assumes "inv s" "peer_ok peer" "get D s u peer = Some (Inr x)"
  shows "x = map_option (from_reference (ref_name_new u peer)) (entries s (ref_name_new u peer))"
proof -
  have n: "ref_name_ok (ref_name_new u peer)" using assms(2) by simp
  show ?thesis
    using assms(3) find_reference [OF assms(1) n] find_config [OF assms(1)]
    by (auto simp: get_def Let_def entries_def split: Option.bind_splits sum.splits option.splits)
qed

lemma is_tracked_spec:
  assumes "inv s" "peer_ok peer" "is_tracked D s u peer = Some (Inr b)"
  shows "b \<longleftrightarrow> entries s (ref_name_new u peer) \<noteq> None"
proof -
  have n: "ref_name_ok (ref_name_new u peer)" using assms(2) by simp
  show ?thesis
    using assms(1,3) find_reference [OF assms(1) n]
    by (cases "refs s (ref_name_new u peer)") (auto simp: is_tracked_def Let_def)
qed

end

text \<open>
  In a transaction the conditions are checked against the state at its beginning. For what
  fusion leaves of the policies on an entry, this makes no difference.
\<close>

fun policy_holds :: "'c pair_policy \<Rightarrow> 'c option \<Rightarrow> bool" where
  "policy_holds (Inl w) s = holds_for (track_previous (wc_policy w)) s"
| "policy_holds (Inr u) s = holds_for (untrack_previous u) s"

fun policy_value :: "'c pair_policy \<Rightarrow> 'c option" where
  "policy_value (Inl w) = Some (wc_config w)"
| "policy_value (Inr u) = None"

definition snap_effects :: "'c option \<Rightarrow> 'c pair_policy list \<Rightarrow> 'c option \<Rightarrow> 'c option" where
  "snap_effects before ps s =
     fold (\<lambda>p s. if policy_holds p before \<and> (policy_value p = None \<longrightarrow> before \<noteq> None) then policy_value p else s) ps s"

lemma snap_effects_simps [simp]:
  "snap_effects before [] s = s"
  "snap_effects before (p # ps) s = snap_effects before ps
     (if policy_holds p before \<and> (policy_value p = None \<longrightarrow> before \<noteq> None) then policy_value p else s)"
  by (simp_all add: snap_effects_def)

lemma snap_effects_reduced:
  assumes "reduce ps = Some q"
  shows "snap_effects s (reduction_into_iter q) s = effects (reduction_into_iter q) s"
proof -
  have e: "policy_effect p s = (if policy_holds p s then policy_value p else s)" for p s
    by (cases p) auto
  have "stuck_ok q"
    using assms by (cases ps) (use reduce_total [of "Simple (hd ps)" "tl ps"] in auto)
  then show ?thesis by (cases q; cases s) (auto simp: e)
qed

text \<open>An update that carries out an action.\<close>

definition carries_out ::
  "('o ref_name \<Rightarrow> 'o option) \<Rightarrow> ('o ref_name \<Rightarrow> 'o config option) \<Rightarrow> ('o \<Rightarrow> 'o config option) \<Rightarrow>
   'o action \<Rightarrow> 'o update \<Rightarrow> bool" where
  "carries_out R EN C a up =
     (up_name up = action_name a
      \<and> (R (action_name a) = None \<longleftrightarrow> EN (action_name a) = None)
      \<and> (up_holds R up \<longleftrightarrow> policy_holds (action_policy a) (EN (action_name a)))
      \<and> Option.bind (up_value up) C = policy_value (action_policy a)
      \<and> (\<forall>t. up_value up = Some t \<longrightarrow> C t \<noteq> None))"

lemma carries_out_mono:
  assumes "carries_out R EN C a up" "C \<subseteq>\<^sub>m C'"
  shows "carries_out R EN C' a up"
proof (cases "up_value up")
  case (Some t)
  with assms(1) obtain c where "C t = Some c" unfolding carries_out_def by blast
  then have "C' t = Some c" using assms(2) by (auto simp: map_le_def dom_def)
  moreover have "policy_value (action_policy a) = Some c"
    using assms(1) Some \<open>C t = Some c\<close> unfolding carries_out_def by (metis bind.bind_lunit)
  ultimately show ?thesis using assms(1) Some by (simp add: carries_out_def)
qed (use assms(1) in \<open>simp add: carries_out_def\<close>)

lemma carries_out_ok:
  assumes "carries_out R EN C a up" "action_ok valid a"
  shows "ref_name_ok (up_name up) \<and> (\<forall>t. up_value up = Some t \<longrightarrow> (\<exists>c. C t = Some c \<and> valid c))"
proof (cases "up_value up")
  case None
  then show ?thesis using assms by (simp add: carries_out_def action_ok_def action_name_def)
next
  case (Some t)
  then have "C t = policy_value (action_policy a)" "C t \<noteq> None"
    using assms(1) unfolding carries_out_def by (metis bind.bind_lunit)+
  then obtain c where "C t = Some c" "valid c" using assms(2) by (cases "action_policy a") (auto simp: action_ok_def)
  moreover have "ref_name_ok (up_name up)" using assms by (simp add: carries_out_def action_ok_def action_name_def)
  ultimately show ?thesis using Some by simp
qed

lemma fold_carries_out:
  assumes "list_all2 (carries_out R EN C) acts ups"
  shows "Option.bind (fold (up_effect R) ups S n) C = snap_effects (EN n) (policies_on n acts) (Option.bind (S n) C)"
  using assms
proof (induction acts ups arbitrary: S rule: list_all2_induct)
  case (Cons a acts up ups)
  then show ?case
    by (cases "action_name a = n") (auto simp: policies_on_def carries_out_def up_effect_def)
qed (simp add: policies_on_def)

context tracking_store
begin

lemma batch_existing_spec:
  assumes "inv s" "ref_name_ok n"
  shows "batch_existing D s n \<noteq> None"
    and "batch_existing D s n = Some (Inr r) \<Longrightarrow> refs s n = Some (dr_target r)"
proof -
  show "batch_existing D s n \<noteq> None"
    using find_reference_total [OF assms] by (simp add: batch_existing_def)
  show "refs s n = Some (dr_target r)" if "batch_existing D s n = Some (Inr r)"
    using that find_reference [OF assms] by (cases "refs s n") (auto simp: batch_existing_def)
qed

lemma batch_write_spec:
  assumes "inv s" "valid c" "\<forall>(c, t) \<in> set cache. configs s t = Some c"
  shows "batch_write D s cache n c p \<noteq> None"
    and "batch_write D s cache n c p = Some (r, cache', s') \<Longrightarrow>
      inv s' \<and> refs s' = refs s \<and> configs s \<subseteq>\<^sub>m configs s' \<and> (\<forall>(c, t) \<in> set cache'. configs s' t = Some c)
      \<and> (\<forall>up. r = Inr up \<longrightarrow> (\<exists>t. up = Write_update n t p \<and> configs s' t = Some c))"
proof -
  show "batch_write D s cache n c p \<noteq> None"
    using write_config_total [OF assms(1), of c]
    by (auto simp: batch_write_def batch_target_def split: option.splits sum.splits)
  assume b: "batch_write D s cache n c p = Some (r, cache', s')"
  show "inv s' \<and> refs s' = refs s \<and> configs s \<subseteq>\<^sub>m configs s' \<and> (\<forall>(c, t) \<in> set cache'. configs s' t = Some c)
      \<and> (\<forall>up. r = Inr up \<longrightarrow> (\<exists>t. up = Write_update n t p \<and> configs s' t = Some c))"
  proof (cases "map_of cache c")
    case None
    obtain w where w: "db_write_config D s c = Some (w, s')"
      and r: "cache' = (case w of Inl _ \<Rightarrow> cache | Inr t \<Rightarrow> (c, t) # cache)"
        "r = (case w of Inl e \<Rightarrow> Inl (Batch_WriteObj n e) | Inr t \<Rightarrow> Inr (Write_update n t p))"
      using b None by (auto simp: batch_write_def batch_target_def split: Option.bind_splits sum.splits)
    note w1 = write_config [OF assms(1,2) w]
    then have "\<forall>(c, t) \<in> set cache. configs s' t = Some c"
      using assms(3) by (fastforce simp: map_le_def dom_def)
    then show ?thesis using w1 r by (cases w) auto
  next
    case (Some t)
    then have "configs s t = Some c" using assms(3) by (auto dest: map_of_SomeD)
    then show ?thesis using b Some assms(1,3) by (auto simp: batch_write_def batch_target_def)
  qed
qed

lemma into_update_spec:
  assumes "inv s" "action_ok valid a" "\<forall>(c, t) \<in> set cache. configs s t = Some c"
  shows "into_update D s cache a \<noteq> None"
    and "into_update D s cache a = Some (r, cache', s') \<Longrightarrow>
      inv s' \<and> refs s' = refs s \<and> configs s \<subseteq>\<^sub>m configs s' \<and> (\<forall>(c, t) \<in> set cache'. configs s' t = Some c)
      \<and> (\<forall>up. r = Inr up \<longrightarrow> carries_out (refs s) (entries s) (configs s') a up)"
proof -
  have n: "ref_name_ok (action_name a)" using assms(2) by (simp add: action_ok_def action_name_def)
  note ex = batch_existing_spec [OF assms(1) n]
  note mu = refs_holds [OF assms(1)]
  show "into_update D s cache a \<noteq> None"
  proof (cases a)
    case (Track_action u peer c p)
    then have c: "valid c" and nm: "action_name a = ref_name_new u peer"
      using assms(2) by (simp_all add: action_ok_def action_name_def)
    have "batch_existing D s (ref_name_new u peer) \<noteq> None" using ex(1) nm by simp
    then show ?thesis using Track_action batch_write_spec(1) [OF assms(1) c assms(3)]
      by (cases p) (auto simp: Let_def split: sum.splits)
  next
    case (Untrack_action u peer p)
    then show ?thesis using ex(1) by (cases p) (auto simp: action_name_def)
  qed
  assume b: "into_update D s cache a = Some (r, cache', s')"
  show "inv s' \<and> refs s' = refs s \<and> configs s \<subseteq>\<^sub>m configs s' \<and> (\<forall>(c, t) \<in> set cache'. configs s' t = Some c)
      \<and> (\<forall>up. r = Inr up \<longrightarrow> carries_out (refs s) (entries s) (configs s') a up)"
  proof (cases a)
    case (Track_action u peer c p)
    let ?n = "ref_name_new u peer"
    have c: "valid c" and nm: "action_name a = ?n"
      using assms(2) Track_action by (simp_all add: action_ok_def action_name_def)
    have wr: ?thesis
      if w: "batch_write D s cache ?n c q = Some (r, cache', s')"
        and q: "holds_for q (refs s ?n) \<longleftrightarrow> holds_for (track_previous p) (entries s ?n)" for q
      using batch_write_spec(2) [OF assms(1) c assms(3) w] q Track_action nm assms(1)
      by (auto simp: carries_out_def up_holds_def)
    show ?thesis
    proof (cases p)
      case TMustExist
      show ?thesis
      proof (cases "the (batch_existing D s ?n)")
        case (Inl e)
        then have "batch_existing D s ?n = Some (Inl e)" using ex(1) nm by auto
        then show ?thesis using b Track_action TMustExist assms(1,3) by auto
      next
        case (Inr ref)
        then have e: "batch_existing D s ?n = Some (Inr ref)" using ex(1) nm by auto
        then have t: "refs s ?n = Some (dr_target ref)" using ex(2) nm by simp
        have "batch_write D s cache ?n c (PMustExistAndMatch (dr_target ref)) = Some (r, cache', s')"
          using b Track_action TMustExist e by simp
        from wr [OF this] show ?thesis using t TMustExist entries_None [OF assms(1), of ?n] by simp
      qed
    qed (use b Track_action mu(1) [of p ?n] wr in \<open>auto simp: Let_def\<close>)
  next
    case (Untrack_action u peer p)
    let ?n = "ref_name_new u (Some peer)"
    have nm: "action_name a = ?n" using Untrack_action by (simp add: action_name_def)
    show ?thesis
    proof (cases p)
      case UAny
      then show ?thesis using b Untrack_action nm assms(1,3) by (auto simp: carries_out_def up_holds_def)
    next
      case UMustExist
      obtain x where x: "batch_existing D s ?n = Some x" "r = map_ok (\<lambda>r. Delete_update ?n (PMustExistAndMatch (dr_target r))) x"
        "cache' = cache" "s' = s"
        using b Untrack_action UMustExist ex(1) nm by (auto simp: Let_def)
      have "carries_out (refs s) (entries s) (configs s') a up" if up: "r = Inr up" for up
      proof -
        obtain ref where "x = Inr ref" "up = Delete_update ?n (PMustExistAndMatch (dr_target ref))"
          using up x(2) by (cases x) auto
        then show ?thesis
          using ex(2) x(1) nm Untrack_action UMustExist assms(1)
          by (auto simp: carries_out_def up_holds_def)
      qed
      then show ?thesis using x assms(1,3) by simp
    qed
  qed
qed

lemma into_updates_spec:
  assumes "inv s" "list_all (action_ok valid) acts" "\<forall>(c, t) \<in> set cache. configs s t = Some c"
  shows "\<exists>r s'. into_updates D s cache acts = Some (r, s')
    \<and> inv s' \<and> refs s' = refs s \<and> configs s \<subseteq>\<^sub>m configs s'
    \<and> (\<forall>ups. r = Inr ups \<longrightarrow> list_all2 (carries_out (refs s) (entries s) (configs s')) acts ups)"
  using assms
proof (induction acts arbitrary: s cache)
  case (Cons a acts)
  have a: "action_ok valid a" and acts: "list_all (action_ok valid) acts" using Cons.prems(2) by simp_all
  obtain r1 cache1 s1 where u: "into_update D s cache a = Some (r1, cache1, s1)"
    using into_update_spec(1) [OF Cons.prems(1) a Cons.prems(3)] by (metis not_None_eq prod_cases3)
  note s1 = into_update_spec(2) [OF Cons.prems(1) a Cons.prems(3) u]
  then have i1: "inv s1" and c1: "\<forall>(c, t) \<in> set cache1. configs s1 t = Some c" by simp_all
  have e1: "entries s1 = entries s" using entries_mono [OF Cons.prems(1), of s1] s1 by simp
  show ?case
  proof (cases r1)
    case (Inl e)
    then show ?thesis using u s1 by simp
  next
    case (Inr up)
    obtain r s' where r: "into_updates D s1 cache1 acts = Some (r, s')" "inv s'" "refs s' = refs s1" "configs s1 \<subseteq>\<^sub>m configs s'"
      "\<forall>ups. r = Inr ups \<longrightarrow> list_all2 (carries_out (refs s1) (entries s1) (configs s')) acts ups"
      using Cons.IH [OF i1 acts c1] by blast
    have "configs s \<subseteq>\<^sub>m configs s'" using s1 r(4) map_le_trans by blast
    moreover have "carries_out (refs s) (entries s) (configs s') a up"
      using s1 Inr carries_out_mono r(4) by blast
    ultimately show ?thesis
      using u Inr r s1 e1 by (intro exI [of _ "map_ok (Cons up) r"] exI [of _ s']) auto
  qed
qed (simp add: assms(1))

text \<open>
  A batch acts on the entries as its fused actions do, one after the other, and an error leaves
  them alone.
\<close>

lemma batch_spec:
  assumes "inv s" "list_all (action_ok valid) acts" "pathless acts"
  shows "\<exists>out r s'. fuse acts = Some out \<and> batch D s acts = Some (r, s')
    \<and> (\<forall>x. r = Inr x \<longrightarrow> inv s' \<and> entries s' = run_actions out (entries s))
    \<and> (\<forall>e. r = Inl e \<longrightarrow> (\<forall>d. e = Batch_Txn d \<longrightarrow> \<not> partial d) \<longrightarrow> inv s' \<and> entries s' = entries s)"
proof -
  obtain out where out: "fuse acts = Some out" "pathless out"
    and on: "\<And>n. policies_on n out = (case reduce (policies_on n acts) of None \<Rightarrow> [] | Some q \<Rightarrow> reduction_into_iter q)"
    using fuse_on [OF assms(3)] by blast
  have ok: "list_all (action_ok valid) out" using fuse_action_ok [OF assms(2) out(1)] .
  obtain r1 s1 where u: "into_updates D s [] out = Some (r1, s1)" "inv s1" "refs s1 = refs s" "configs s \<subseteq>\<^sub>m configs s1"
    "\<forall>ups. r1 = Inr ups \<longrightarrow> list_all2 (carries_out (refs s) (entries s) (configs s1)) out ups"
    using into_updates_spec [OF assms(1) ok, of "[]"] by auto
  have e1: "entries s1 = entries s" using entries_mono [OF assms(1) u(3,4)] .
  show ?thesis
  proof (cases r1)
    case (Inl e)
    then show ?thesis using out u e1 by (auto simp: batch_def)
  next
    case (Inr ups)
    have l: "list_all2 (carries_out (refs s) (entries s) (configs s1)) out ups" using u(5) Inr by simp
    have ups: "ref_name_ok (up_name up) \<and> (\<forall>t. up_value up = Some t \<longrightarrow> (\<exists>c. configs s1 t = Some c \<and> valid c))" if up: "up \<in> set ups" for up
    proof -
      obtain i where i: "i < length ups" "up = ups ! i" using up by (auto simp: in_set_conv_nth)
      then have "out ! i \<in> set out" "carries_out (refs s) (entries s) (configs s1) (out ! i) up"
        using l by (simp_all add: list_all2_conv_all_nth)
      then show ?thesis using ok carries_out_ok by (metis list_all_iff)
    qed
    obtain a s2 where a: "db_update D s1 ups = Some (a, s2)" using update_total [OF u(2)] ups by fastforce
    show ?thesis
    proof (cases a)
      case (Inl d)
      then have "\<not> partial d \<Longrightarrow> s2 = s1" using update_error [OF u(2)] a by blast
      then show ?thesis using out u a e1 Inl \<open>r1 = Inr ups\<close> by (auto simp: batch_def)
    next
      case (Inr b)
      have s2: "inv s2" "configs s2 = configs s1" "refs s2 = fold (up_effect (refs s)) ups (refs s)"
        using update [OF u(2) _ a [unfolded Inr]] ups u(3) by auto
      have "entries s2 n = run_actions out (entries s) n" for n
      proof -
        have "entries s2 n = snap_effects (entries s n) (policies_on n out) (Option.bind (refs s n) (configs s1))"
          using fold_carries_out [OF l, of "refs s" n] s2(2,3) by (simp add: entries_def)
        also have "Option.bind (refs s n) (configs s1) = entries s n" using e1 u(3) by (metis entries_def)
        also have "snap_effects (entries s n) (policies_on n out) (entries s n) = effects (policies_on n out) (entries s n)"
          using snap_effects_reduced [of "policies_on n acts"] by (simp add: on split: option.splits)
        finally show ?thesis by (simp add: run_actions_at)
      qed
      then show ?thesis using out u a Inr \<open>r1 = Inr ups\<close> s2(1) by (auto simp: batch_def)
    qed
  qed
qed

end

section \<open>Listing entries\<close>

lemma collect_results_Inr:
  "collect_results (map_ok f) rs = Inr ys \<longleftrightarrow> Inl ` UNIV \<inter> set rs = {} \<and> ys = map (f \<circ> projr) rs"
proof (induction rs arbitrary: ys)
  case (Cons r rs)
  then show ?case by (cases r) auto
qed auto

lemma default_only_loop_Inr:
  "default_only_loop spec seen rs = Inr b \<Longrightarrow>
   (\<not> b \<and> (\<exists>r peer. Inr r \<in> set rs \<and> rn_remote (dr_name r) = Peer_remote peer))
   \<or> (Inl ` UNIV \<inter> set rs = {} \<and> (\<forall>r. Inr r \<in> set rs \<longrightarrow> rn_remote (dr_name r) = Default_remote)
      \<and> (b \<longleftrightarrow> seen \<or> rs \<noteq> []))"
  by (induction spec seen rs rule: default_only_loop.induct) (auto split: remote.splits)

context tracking_store
begin

text \<open>
  Consuming the iterator of entries gives an item for every reference listed: its entry, or an
  error.
\<close>

definition listed :: "'s \<Rightarrow> 'o db_ref \<Rightarrow> 'o tracked_entry" where
  "listed s ref = from_reference (dr_name ref) (the (entries s (dr_name ref)))"

definition item_for :: "'s \<Rightarrow> 'e + 'o db_ref \<Rightarrow> ('o, 'e) tracked_error + 'o tracked_entry \<Rightarrow> bool" where
  "item_for s r item = (\<forall>y. item = Inr y \<longrightarrow> (\<exists>ref. r = Inr ref \<and> y = listed s ref))"

definition seen_ok :: "'s \<Rightarrow> ('o, 'e) tracked_entries \<Rightarrow> bool" where
  "seen_ok s it = (bmap_ok (te_seen it) \<and> (\<forall>t c. bmap_get (te_seen it) t = Some c \<longrightarrow> configs s t = Some c))"

lemma tracked_resolve_item:
  assumes "inv s" "seen_ok s it" "refs s (dr_name ref) = Some (dr_target ref)"
  obtains x it' where "tracked_resolve D s it ref = Some (x, it')" "seen_ok s it'" "te_iter it' = te_iter it"
    "(\<exists>e. x = Inl e) \<or> x = Inr (Some (listed s ref))"
proof -
  obtain c where c: "configs s (dr_target ref) = Some c" using configured [OF assms(1,3)] by blast
  then have l: "listed s ref = from_reference (dr_name ref) c" using assms(3) by (simp add: listed_def entries_def)
  show thesis
  proof (cases "bmap_get (te_seen it) (dr_target ref)")
    case (Some d)
    then have "d = c" using assms(2) c by (auto simp: seen_ok_def)
    then show thesis using that [of "Inr (Some (listed s ref))" it] Some assms(2) l by (simp add: tracked_resolve_def)
  next
    case None
    obtain f where f: "db_find_config D s (dr_target ref) = Some f" using find_config_total [OF assms(1)] by fastforce
    show thesis
    proof (cases f)
      case (Inl e)
      then show thesis using that [of "Inl _" it] None f assms(2) by (simp add: tracked_resolve_def)
    next
      case (Inr y)
      then have "y = Some c" using find_config [OF assms(1)] f c by simp
      moreover have "seen_ok s (it\<lparr>te_seen := bmap_insert (dr_target ref) c (te_seen it)\<rparr>)"
        using assms(2) c by (simp add: seen_ok_def bmap.lookup_insert)
      ultimately show thesis
        using that [of "Inr (Some (listed s ref))" "it\<lparr>te_seen := bmap_insert (dr_target ref) c (te_seen it)\<rparr>"] None f Inr l
        by (simp add: tracked_resolve_def)
    qed
  qed
qed

lemma tracked_next_item:
  assumes "inv s" "seen_ok s it" "te_iter it = r # rest"
    and "\<And>ref. r = Inr ref \<Longrightarrow> refs s (dr_name ref) = Some (dr_target ref)"
  obtains item it' where "tracked_next D s it = Some (Some item, it')" "seen_ok s it'" "te_iter it' = rest" "item_for s r item"
proof (cases r)
  case (Inl e)
  then show thesis using that [of "Inl _" "it\<lparr>te_iter := rest\<rparr>"] assms(2,3)
    by (simp add: tracked_next_def item_for_def seen_ok_def)
next
  case (Inr ref)
  have "seen_ok s (it\<lparr>te_iter := rest\<rparr>)" using assms(2) by (simp add: seen_ok_def)
  from tracked_resolve_item [OF assms(1) this assms(4) [OF Inr]] obtain x it'
    where x: "tracked_resolve D s (it\<lparr>te_iter := rest\<rparr>) ref = Some (x, it')" "seen_ok s it'" "te_iter it' = rest"
      "(\<exists>e. x = Inl e) \<or> x = Inr (Some (listed s ref))"
    by auto
  then show thesis
    using that [of "Inl _" it'] that [of "Inr (listed s ref)" it'] assms(3) Inr
    by (auto simp: tracked_next_def item_for_def)
qed

lemma tracked_collect_items:
  assumes "inv s" "seen_ok s it" "te_iter it = rs"
    and "\<And>ref. Inr ref \<in> set rs \<Longrightarrow> refs s (dr_name ref) = Some (dr_target ref)"
  shows "\<exists>items. tracked_collect D s it = Some items \<and> list_all2 (item_for s) rs items"
  using assms(2-)
proof (induction rs arbitrary: it)
  case Nil
  then show ?case by (simp add: tracked_collect.simps [of D s it] tracked_next_def)
next
  case (Cons r rest)
  obtain item it' where n: "tracked_next D s it = Some (Some item, it')" "seen_ok s it'" "te_iter it' = rest" "item_for s r item"
    using tracked_next_item [OF assms(1) Cons.prems(1,2)] Cons.prems(3) by auto
  obtain items where "tracked_collect D s it' = Some items" "list_all2 (item_for s) rest items"
    using Cons.IH [OF n(2,3)] Cons.prems(3) by auto
  then show ?case using n by (intro exI [of _ "item # items"]) (simp add: tracked_collect.simps [of D s it])
qed

lemma names_filter:
  assumes "inv s" "remotes_refspec E fb = Some spec" "ref_name_ok n"
  shows "names spec n \<longleftrightarrow> (case fb of None \<Rightarrow> True | Some u \<Rightarrow> urn_id (rn_urn n) = urn_id u)"
  using refspec_all [OF assms(1) _ assms(3)] refspec_urn [OF assms(1) _ assms(3)] assms(2) by (cases fb) auto

lemma tracked_spec:
  assumes "inv s" "tracked E D s fb = Some (Inr it)"
  shows "\<exists>items. tracked_collect D s it = Some items
    \<and> (\<forall>y. Inr y \<in> set items \<longrightarrow> (\<exists>n c. entries s n = Some c \<and> y = from_reference n c
        \<and> (case fb of None \<Rightarrow> True | Some u \<Rightarrow> urn_id (rn_urn n) = urn_id u)))
    \<and> (Inl ` UNIV \<inter> set items = {} \<longrightarrow> (\<forall>n c. ref_name_ok n \<longrightarrow> entries s n = Some c \<longrightarrow>
        (case fb of None \<Rightarrow> True | Some u \<Rightarrow> urn_id (rn_urn n) = urn_id u) \<longrightarrow> Inr (from_reference n c) \<in> set items))"
proof -
  obtain spec rs where spec: "remotes_refspec E fb = Some spec" and rs: "db_references D s spec = Some (Inr rs)"
    and it: "it = \<lparr>te_spec = spec, te_seen = bmap_empty, te_iter = rs\<rparr>"
    using assms(2) by (auto simp: tracked_def split: Option.bind_splits sum.splits)
  note nf = names_filter [OF assms(1) spec]
  have ref: "ref_name_ok (dr_name r) \<and> names spec (dr_name r) \<and> refs s (dr_name r) = Some (dr_target r)" if "Inr r \<in> set rs" for r
    using references [OF assms(1) rs that] .
  obtain items where items: "tracked_collect D s it = Some items" "list_all2 (item_for s) rs items"
    using tracked_collect_items [OF assms(1), of it rs] ref by (auto simp: it seen_ok_def bmap.lookup_empty)
  have 1: "\<exists>n c. entries s n = Some c \<and> y = from_reference n c
      \<and> (case fb of None \<Rightarrow> True | Some u \<Rightarrow> urn_id (rn_urn n) = urn_id u)" if y: "Inr y \<in> set items" for y
  proof -
    obtain i where i: "i < length items" "items ! i = Inr y" using y by (auto simp: in_set_conv_nth)
    then have "item_for s (rs ! i) (Inr y)" "i < length rs" using items(2) by (auto simp: list_all2_conv_all_nth)
    then obtain r where r: "Inr r \<in> set rs" "y = listed s r" by (auto simp: item_for_def) (metis nth_mem)
    obtain c where "entries s (dr_name r) = Some c"
      using ref [OF r(1)] configured [OF assms(1)] by (fastforce simp: entries_def)
    with r(2) ref [OF r(1)] nf [of "dr_name r"] show ?thesis
      by (intro exI [of _ "dr_name r"] exI [of _ c]) (simp add: listed_def)
  qed
  have 2: "Inr (from_reference n c) \<in> set items"
    if no: "Inl ` UNIV \<inter> set items = {}" and n: "ref_name_ok n" "entries s n = Some c"
      "case fb of None \<Rightarrow> True | Some u \<Rightarrow> urn_id (rn_urn n) = urn_id u" for n c
  proof -
    have rsno: "Inl ` UNIV \<inter> set rs = {}"
    proof (rule ccontr)
      assume "Inl ` UNIV \<inter> set rs \<noteq> {}"
      then obtain e i where i: "i < length rs" "rs ! i = Inl e" by (auto simp: in_set_conv_nth)
      then have "item_for s (Inl e) (items ! i)" "items ! i \<in> set items"
        using items(2) by (auto simp: list_all2_conv_all_nth)
      then show False using no by (cases "items ! i") (auto simp: item_for_def)
    qed
    obtain t where t: "refs s n = Some t" using n(2) by (cases "refs s n") (auto simp: entries_def)
    let ?r = "\<lparr>dr_name = n, dr_target = t\<rparr>"
    have "Inr ?r \<in> set rs" using references_complete [OF assms(1) rs rsno n(1) _ t] nf [OF n(1)] n(3) by simp
    then obtain i where i: "i < length rs" "rs ! i = Inr ?r" by (auto simp: in_set_conv_nth)
    then have "item_for s (Inr ?r) (items ! i)" "items ! i \<in> set items"
      using items(2) by (auto simp: list_all2_conv_all_nth)
    then show ?thesis using no n(2) by (cases "items ! i") (auto simp: item_for_def listed_def)
  qed
  show ?thesis using items(1) 1 2 by blast
qed

text \<open>Whether only the default entry is tracked.\<close>

lemma default_only_spec:
  assumes "inv s" "default_only E D s u = Some (Inr b)"
  shows "b \<longleftrightarrow> entries s (ref_name_new u None) \<noteq> None \<and> (\<forall>k. is_key k \<longrightarrow> entries s (ref_name_new u (Some k)) = None)"
proof -
  obtain spec rs where spec: "remotes_refspec E (Some u) = Some spec" and rs: "db_references D s spec = Some (Inr rs)"
    and b: "default_only_loop spec False rs = Inr b"
    using assms(2) by (auto simp: default_only_def split: Option.bind_splits sum.splits)
  have name: "n = ref_name_new u (peer_from_remote (rn_remote n))" if "ref_name_ok n" "names spec n" for n
    using that names_filter [OF assms(1) spec that(1)]
    by (cases n; cases "rn_urn n") (auto simp: ref_name_new_eq ref_name_ok_def)
  have ref: "dr_name r = ref_name_new u (peer_from_remote (rn_remote (dr_name r)))" "ref_name_ok (dr_name r)"
    "refs s (dr_name r) \<noteq> None" if "Inr r \<in> set rs" for r
    using references [OF assms(1) rs that] name by auto
  have all: "Inr \<lparr>dr_name = ref_name_new u peer, dr_target = t\<rparr> \<in> set rs"
    if "Inl ` UNIV \<inter> set rs = {}" "peer_ok peer" "refs s (ref_name_new u peer) = Some t" for peer t
    using references_complete [OF assms(1) rs that(1) _ _ that(3)] names_filter [OF assms(1) spec, of "ref_name_new u peer"]
      that(2) by simp
  from default_only_loop_Inr [OF b] show ?thesis
  proof
    assume "\<not> b \<and> (\<exists>r peer. Inr r \<in> set rs \<and> rn_remote (dr_name r) = Peer_remote peer)"
    then obtain r peer where r: "\<not> b" "Inr r \<in> set rs" "rn_remote (dr_name r) = Peer_remote peer" by blast
    have n: "dr_name r = ref_name_new u (Some peer)" using ref(1) [OF r(2)] r(3) by simp
    have "is_key peer" using ref(2) [OF r(2)] n by simp
    moreover have "entries s (ref_name_new u (Some peer)) \<noteq> None" using ref(3) [OF r(2)] n assms(1) by simp
    ultimately show ?thesis using r(1) by auto
  next
    assume a: "Inl ` UNIV \<inter> set rs = {} \<and> (\<forall>r. Inr r \<in> set rs \<longrightarrow> rn_remote (dr_name r) = Default_remote)
      \<and> (b \<longleftrightarrow> False \<or> rs \<noteq> [])"
    have none: "refs s (ref_name_new u (Some k)) = None" if "is_key k" for k
      using all [of "Some k"] a that by (cases "refs s (ref_name_new u (Some k))") (auto simp: remote_from_peer_def)
    have "b \<longleftrightarrow> refs s (ref_name_new u None) \<noteq> None"
    proof
      assume b
      then obtain x where x: "x \<in> set rs" using a by (metis list.set_sel(1))
      then have "x \<notin> range Inl" using a by blast
      then obtain r where "x = Inr r" by (cases x rule: sum.exhaust) auto
      with x have r: "Inr r \<in> set rs" by simp
      then show "refs s (ref_name_new u None) \<noteq> None" using ref(1,3) [OF r] a by (metis peer_from_remote.simps(1))
    qed (use all [of None] a in auto)
    then show ?thesis using none assms(1) by simp
  qed
qed

text \<open>Untracking everything.\<close>

lemma fold_deletes:
  assumes "\<forall>up \<in> set ups. up_holds R up \<and> up_value up = None"
  shows "fold (up_effect R) ups S n = (if n \<in> up_name ` set ups \<and> R n \<noteq> None then None else S n)"
  using assms by (induction ups arbitrary: S) (auto simp: up_effect_def)

lemma untrack_all_spec:
  assumes "inv s" "untrack_all E D s u args = Some (Inr x, s')" "uaa_prune args \<Longrightarrow> urn_path u = None"
  shows "inv s' \<and> (\<forall>n. ref_name_ok n \<longrightarrow> entries s' n = (if urn_id (rn_urn n) = urn_id u then None else entries s n))
    \<and> Inl ` UNIV \<inter> set (una_untracked x) = {}"
proof -
  let ?f = "\<lambda>r. Delete_update (dr_name r) (untrack_all_previous (uaa_policy args) (dr_target r))"
  obtain spec rs ups a s1 nms where spec: "remotes_refspec E (Some u) = Some spec" and rs: "db_references D s spec = Some (Inr rs)"
    and ups: "collect_results (map_ok ?f) rs = Inr ups" and a: "db_update D s ups = Some (Inr a, s1)"
    and rest: "uaa_prune args \<Longrightarrow> \<exists>p. db_prune D s1 u None = Some (Inr p, s')" "\<not> uaa_prune args \<Longrightarrow> s' = s1"
      "una_untracked x = map Inr nms @ map Inl (ap_rejections a)"
    using assms(2) by (cases "uaa_prune args")
      (auto simp: untrack_all_def Let_def split: Option.bind_splits sum.splits)
  have no: "Inl ` UNIV \<inter> set rs = {}" and us: "ups = map (?f \<circ> projr) rs" using ups by (simp_all only: collect_results_Inr)
  have ref: "ref_name_ok (dr_name (projr y))" "names spec (dr_name (projr y))" "refs s (dr_name (projr y)) = Some (dr_target (projr y))"
    if y: "y \<in> set rs" for y
  proof -
    have "y \<notin> range Inl" using no y by blast
    then have "y = Inr (projr y)" by (cases y rule: sum.exhaust) auto
    then show "ref_name_ok (dr_name (projr y))" "names spec (dr_name (projr y))" "refs s (dr_name (projr y)) = Some (dr_target (projr y))"
      using references [OF assms(1) rs, of "projr y"] y by simp_all
  qed
  have hold: "up_holds (refs s) up \<and> up_value up = None \<and> ref_name_ok (up_name up)" if up: "up \<in> set ups" for up
  proof -
    obtain y where "y \<in> set rs" "up = ?f (projr y)" using up us by auto
    then show ?thesis using ref [of y] by (cases "uaa_policy args") (auto simp: up_holds_def)
  qed
  have s1: "inv s1" "configs s1 = configs s" "refs s1 = fold (up_effect (refs s)) ups (refs s)"
    "ap_rejections a = concat (map (up_rejected (refs s)) ups)"
    using update [OF assms(1) _ a] hold by auto
  have "up_rejected (refs s) up = []" if "up \<in> set ups" for up using hold [OF that] up_rejected_empty by blast
  then have rej: "ap_rejections a = []" using s1(4) by simp
  have r1: "refs s1 n = (if n \<in> up_name ` set ups then None else refs s n)" for n
    using fold_deletes [of ups "refs s" "refs s" n] hold s1(3) by simp
  have e1: "entries s1 n = (if urn_id (rn_urn n) = urn_id u then None else entries s n)" if n: "ref_name_ok n" for n
  proof (cases "n \<in> up_name ` set ups")
    case True
    then obtain y where "y \<in> set rs" "n = dr_name (projr y)" using us by auto
    then have "urn_id (rn_urn n) = urn_id u" using ref(2) names_filter [OF assms(1) spec n] by auto
    then show ?thesis using True r1 by (simp add: entries_def)
  next
    case False
    have "refs s n = None" if "urn_id (rn_urn n) = urn_id u"
    proof (rule ccontr)
      assume "refs s n \<noteq> None"
      then obtain t where "refs s n = Some t" by blast
      then have "Inr \<lparr>dr_name = n, dr_target = t\<rparr> \<in> set rs"
        using references_complete [OF assms(1) rs no n] names_filter [OF assms(1) spec n] that by simp
      then have "n \<in> up_name ` set ups" using us by force
      with False show False ..
    qed
    then show ?thesis using False r1 [of n] s1(2) by (simp add: entries_def)
  qed
  have "inv s' \<and> refs s' = refs s1 \<and> configs s' = configs s1"
    using rest(1,2) s1(1) prune [OF s1(1), of None u] assms(3) by (cases "uaa_prune args") auto
  then show ?thesis using e1 rest(3) rej by (auto simp: entries_def)
qed

end

context tracking_store
begin

text \<open>No operation panics.\<close>

lemma reads_total:
  assumes "inv s" "peer_ok peer"
  shows "get D s u peer \<noteq> None" "is_tracked D s u peer \<noteq> None" "tracked E D s fb \<noteq> None"
    "tracked_peers E D s fb \<noteq> None" "default_only E D s u \<noteq> None"
proof -
  have n: "ref_name_ok (ref_name_new u peer)" using assms(2) by simp
  note total = find_reference_total [OF assms(1) n] find_config_total [OF assms(1)] refspec_total [OF assms(1)]
    references_total [OF assms(1)]
  show "get D s u peer \<noteq> None"
    using total(1,2) by (auto simp: get_def Let_def simp del: not_None_eq split: sum.splits option.splits Option.bind_splits)
  show "is_tracked D s u peer \<noteq> None" using total(1) by (auto simp: is_tracked_def Let_def)
  show "tracked E D s fb \<noteq> None" using total(3,4) [of fb] by (auto simp: tracked_def split: Option.bind_splits)
  show "tracked_peers E D s fb \<noteq> None" using total(3,4) [of fb] by (auto simp: tracked_peers_def split: Option.bind_splits)
  show "default_only E D s u \<noteq> None" using total(3,4) [of "Some u"] by (auto simp: default_only_def split: Option.bind_splits)
qed

lemma modify_total:
  assumes "inv s" "peer_ok peer" "\<And>c. valid c \<Longrightarrow> valid (f c)"
  shows "modify D s u peer f \<noteq> None"
proof -
  let ?n = "ref_name_new u peer"
  have n: "ref_name_ok ?n" using assms(2) by simp
  obtain found where f0: "db_find_reference D s ?n = Some found" using find_reference_total [OF assms(1) n] by fastforce
  show ?thesis
  proof (cases "\<exists>ref. found = Inr (Some ref)")
    case True
    then obtain ref where ref: "found = Inr (Some ref)" by blast
    from find_reference [OF assms(1) n f0 [unfolded ref]] obtain t where t: "refs s ?n = Some t" "dr_target ref = t"
      by (cases "refs s ?n") auto
    obtain c where c: "configs s t = Some c \<and> valid c" using configured [OF assms(1) t(1)] by blast
    obtain w s1 where w: "db_modify_config D s t f = Some (w, s1)" using modify_config_total [OF assms(1)] by fastforce
    have v: "valid (f c)" using c assms(3) by simp
    note m = modify_config [OF assms(1) c [THEN conjunct1] v w]
    show ?thesis
    proof (cases w)
      case (Inr new)
      then have new: "configs s1 new = Some (f c) \<and> valid (f c)" and i: "inv s1" using m v by auto
      let ?up = "Write_update ?n new (PMustExistAndMatch t)"
      obtain a s2 where a: "db_update D s1 [?up] = Some (a, s2)" using update_total [OF i, of "[?up]"] n by fastforce
      show ?thesis
      proof (cases a)
        case (Inr b)
        obtain x where "first_written b = Some x" using write_one(3) [OF i n new a [unfolded Inr]] by blast
        then show ?thesis using f0 ref t w a Inr \<open>w = Inr new\<close> by (simp add: modify_def)
      qed (use f0 ref t w a Inr in \<open>simp add: modify_def\<close>)
    qed (use f0 ref t w in \<open>simp add: modify_def\<close>)
  next
    case False
    then show ?thesis using f0 by (cases found) (auto simp: modify_def split: option.splits)
  qed
qed

lemma deleted_names_total: "deleted_names (concat (map (up_updated R) ups)) \<noteq> None" if "\<forall>up \<in> set ups. up_value up = None"
  using that
proof (induction ups)
  case (Cons up ups)
  then show ?case by (cases up) (auto split: option.splits)
qed simp

lemma untrack_all_total:
  assumes "inv s" "uaa_prune args \<Longrightarrow> urn_path u = None"
  shows "\<exists>r s'. untrack_all E D s u args = Some (r, s')
    \<and> (\<forall>e. r = Inl e \<longrightarrow> (\<forall>spec d. e = UntrackAll_Delete spec d \<longrightarrow> \<not> partial d) \<longrightarrow> (\<forall>spec d. e \<noteq> UntrackAll_Prune spec d) \<longrightarrow> s' = s)"
proof -
  let ?f = "\<lambda>r. Delete_update (dr_name r) (untrack_all_previous (uaa_policy args) (dr_target r))"
  obtain spec where spec: "remotes_refspec E (Some u) = Some spec" using refspec_total [OF assms(1)] by fastforce
  obtain rs where rs: "db_references D s spec = Some rs" using references_total [OF assms(1) spec] by fastforce
  show ?thesis
  proof (cases rs)
    case (Inl e)
    then show ?thesis using spec rs by (simp add: untrack_all_def)
  next
    case (Inr gs)
    show ?thesis
    proof (cases "collect_results (map_ok ?f) gs")
      case (Inl e)
      then show ?thesis using spec rs Inr by (simp add: untrack_all_def)
    next
      case (Inr ups)
      then have ups: "ups = map (?f \<circ> projr) gs" and no: "Inl ` UNIV \<inter> set gs = {}" by (simp_all only: collect_results_Inr)
      have n: "\<forall>up \<in> set ups. ref_name_ok (up_name up) \<and> up_value up = None"
      proof
        fix up assume "up \<in> set ups"
        then obtain y where y: "y \<in> set gs" "up = ?f (projr y)" using ups by auto
        have "y \<notin> range Inl" using no y(1) by blast
        then have "y = Inr (projr y)" by (cases y rule: sum.exhaust) auto
        then show "ref_name_ok (up_name up) \<and> up_value up = None"
          using references [OF assms(1) rs [unfolded \<open>rs = Inr gs\<close>], of "projr y"] y by simp
      qed
      obtain a s1 where a: "db_update D s ups = Some (a, s1)" using update_total [OF assms(1), of ups] n by fastforce
      show ?thesis
      proof (cases a)
        case (Inl e)
        then show ?thesis using spec rs \<open>rs = Inr gs\<close> Inr a update_error [OF assms(1), of ups e s1] by (simp add: untrack_all_def)
      next
        case (Inr b)
        note up = update [OF assms(1) _ a [unfolded Inr]]
        have i: "inv s1" and nm: "deleted_names (ap_updates b) \<noteq> None" using up n deleted_names_total [of ups "refs s"] by auto
        then obtain nms where nms: "deleted_names (ap_updates b) = Some nms" by blast
        show ?thesis
        proof (cases "uaa_prune args")
          case True
          then obtain pr s2 where "db_prune D s1 u None = Some (pr, s2)"
            using prune_total [OF i, of None u] assms(2) by fastforce
          then show ?thesis using spec rs \<open>rs = Inr gs\<close> \<open>collect_results _ _ = _\<close> a Inr nms True
            by (cases pr) (simp_all add: untrack_all_def)
        qed (use spec rs \<open>rs = Inr gs\<close> \<open>collect_results _ _ = _\<close> a Inr nms in \<open>simp add: untrack_all_def\<close>)
      qed
    qed
  qed
qed

text \<open>The peers that are tracked.\<close>

lemma tracked_peers_spec:
  assumes "inv s" "tracked_peers E D s fb = Some (Inr items)"
  shows "Inr k \<in> set items \<Longrightarrow> \<exists>u. is_key k \<and> entries s (ref_name_new u (Some k)) \<noteq> None
      \<and> (case fb of None \<Rightarrow> True | Some v \<Rightarrow> urn_id u = urn_id v)"
    and "Inl ` UNIV \<inter> set items = {} \<Longrightarrow> is_key k \<Longrightarrow> entries s (ref_name_new u (Some k)) \<noteq> None \<Longrightarrow>
      (case fb of None \<Rightarrow> True | Some v \<Rightarrow> urn_id u = urn_id v) \<Longrightarrow> Inr k \<in> set items"
proof -
  obtain spec rs where spec: "remotes_refspec E fb = Some spec" and rs: "db_references D s spec = Some (Inr rs)"
    and items: "items = tracked_peers_items spec rs"
    using assms(2) by (auto simp: tracked_peers_def split: Option.bind_splits sum.splits)
  have i: "Inr k \<in> set (tracked_peers_items spec rs) \<longleftrightarrow> (\<exists>r. Inr r \<in> set rs \<and> rn_remote (dr_name r) = Peer_remote k)"
    for k and rs :: "('e + 'o db_ref) list"
    by (induction spec rs rule: tracked_peers_items.induct) (auto split: option.splits remote.splits elim: peer_from_remote.elims)
  have e: "Inl ` UNIV \<inter> set (tracked_peers_items spec rs) = {} \<Longrightarrow> Inl ` UNIV \<inter> set rs = {}" for rs :: "('e + 'o db_ref) list"
    by (induction spec rs rule: tracked_peers_items.induct) (auto split: option.splits)
  show "\<exists>u. is_key k \<and> entries s (ref_name_new u (Some k)) \<noteq> None \<and> (case fb of None \<Rightarrow> True | Some v \<Rightarrow> urn_id u = urn_id v)"
    if k: "Inr k \<in> set items"
  proof -
    obtain r where r: "Inr r \<in> set rs" "rn_remote (dr_name r) = Peer_remote k" using k i items by blast
    note ref = references [OF assms(1) rs r(1)]
    then have n: "dr_name r = ref_name_new (rn_urn (dr_name r)) (Some k)" "is_key k"
      using r(2) by (auto simp: ref_name_new_def ref_name_ok_def)
    then show ?thesis using ref assms(1) names_filter [OF assms(1) spec, of "dr_name r"]
      by (intro exI [of _ "rn_urn (dr_name r)"]) (auto simp: ref_name_ok_def)
  qed
  show "Inr k \<in> set items" if k: "Inl ` UNIV \<inter> set items = {}" "is_key k" "entries s (ref_name_new u (Some k)) \<noteq> None"
    "case fb of None \<Rightarrow> True | Some v \<Rightarrow> urn_id u = urn_id v"
  proof -
    let ?n = "ref_name_new u (Some k)"
    obtain t where t: "refs s ?n = Some t" using k(3) assms(1) by auto
    have "ref_name_ok ?n" using k(2) by simp
    moreover have "urn_id (rn_urn ?n) = urn_id u" by (simp add: ref_name_new_def urn_with_path_def urn_map_path_def)
    ultimately have "names spec ?n" using names_filter [OF assms(1) spec, of ?n] k(4) by (cases fb) simp_all
    with references_complete [OF assms(1) rs _ \<open>ref_name_ok ?n\<close> this t] e [of rs] k(1) items
    have "Inr \<lparr>dr_name = ?n, dr_target = t\<rparr> \<in> set rs" by simp
    then show ?thesis using i [of k rs] items by (force simp: ref_name_new_def)
  qed
qed

end

text \<open>
  A reference whose configuration is missing ends the iteration: whatever is listed after it is
  not reached.
\<close>

lemma missing_blob_ends_iteration:
  assumes "te_iter it = Inr ref # rest" "bmap_get (te_seen it) (dr_target ref) = None"
    and "db_find_config D s (dr_target ref) = Some (Inr None)"
  shows "tracked_collect D s it = Some []"
  using assms by (simp add: tracked_collect.simps [of D s it] tracked_next_def tracked_resolve_def)

text \<open>A store whose calls succeed as long as \<open>live\<close> holds.\<close>

locale live_store = tracking_store +
  fixes live :: bool
  assumes find_reference_live: "live \<Longrightarrow> inv s \<Longrightarrow> ref_name_ok n \<Longrightarrow> \<exists>r. db_find_reference D s n = Some (Inr r)"
    and find_config_live: "live \<Longrightarrow> inv s \<Longrightarrow> refs s n = Some t \<Longrightarrow> \<exists>c. db_find_config D s t = Some (Inr c)"
    and write_config_live: "live \<Longrightarrow> inv s \<Longrightarrow> \<exists>t s'. db_write_config D s c = Some (Inr t, s')"
    and update_live: "live \<Longrightarrow> inv s \<Longrightarrow> ref_name_ok (up_name up) \<Longrightarrow> \<exists>a s'. db_update D s [up] = Some (Inr a, s')"
begin

lemma get_live:
  assumes live "inv s" "peer_ok peer"
  shows "get D s u peer = Some (Inr (map_option (from_reference (ref_name_new u peer)) (entries s (ref_name_new u peer))))"
proof -
  let ?n = "ref_name_new u peer"
  have n: "ref_name_ok ?n" using assms(3) by simp
  obtain r where r: "db_find_reference D s ?n = Some (Inr r)" using find_reference_live [OF assms(1,2) n] by blast
  have "\<exists>x. get D s u peer = Some (Inr x)"
  proof (cases "refs s ?n")
    case None
    then show ?thesis using find_reference [OF assms(2) n r] r by (simp add: get_def)
  next
    case (Some t)
    then obtain c where "db_find_config D s t = Some (Inr c)" using find_config_live [OF assms(1,2)] by blast
    then show ?thesis using find_reference [OF assms(2) n r] r Some by (simp add: get_def)
  qed
  then obtain x where x: "get D s u peer = Some (Inr x)" by blast
  show ?thesis using get_spec [OF assms(2,3) x] x by (simp only:)
qed

lemma is_tracked_live:
  assumes live "inv s" "peer_ok peer"
  shows "is_tracked D s u peer = Some (Inr (entries s (ref_name_new u peer) \<noteq> None))"
proof -
  have n: "ref_name_ok (ref_name_new u peer)" using assms(3) by simp
  obtain r where "db_find_reference D s (ref_name_new u peer) = Some (Inr r)" using find_reference_live [OF assms(1,2) n] by blast
  then obtain b where b: "is_tracked D s u peer = Some (Inr b)" by (simp add: is_tracked_def)
  show ?thesis using is_tracked_spec [OF assms(2,3) b] b by (simp only:)
qed

lemma track_live:
  assumes live "inv s" "peer_ok peer" "valid c" "holds_for (track_previous p) (entries s (ref_name_new u peer))"
  obtains ref s' where "track D s u peer c p = Some (Inr (Inr ref), s')" "inv s'"
    "entries s' = run_action (Track_action u peer c p) (entries s)"
proof -
  let ?n = "ref_name_new u peer"
  have n: "ref_name_ok ?n" using assms(3) by simp
  obtain t s1 where t: "db_write_config D s c = Some (Inr t, s1)" using write_config_live [OF assms(1,2)] by blast
  have i: "inv s1" using write_config [OF assms(2,4) t] by blast
  obtain a s2 where a: "db_update D s1 [Write_update ?n t (track_previous p)] = Some (Inr a, s2)"
    using update_live [OF assms(1) i, of "Write_update ?n t (track_previous p)"] n by auto
  have "configs s1 t = Some c \<and> valid c" using write_config [OF assms(2,4) t] assms(4) by simp
  from write_one(3) [OF i n this a] obtain x where "first_written a = Some x" by blast
  then have tr: "track D s u peer c p = Some (Inr x, s2)" using t a by (simp add: track_def)
  note spec = track_spec(1) [OF assms(2-4) tr refl]
  then have "is_ok x" using assms(5) by simp
  then obtain ref where "x = Inr ref" by (cases x) (simp_all add: is_ok_def)
  then show thesis using that [of ref s2] tr spec by simp
qed

lemma untrack_live:
  assumes live "inv s" "is_key k" "holds_for (untrack_previous q) (entries s (ref_name_new u (Some k)))"
  obtains x s' where "untrack D s u k (untrack_args_new q) = Some (Inr (Inr x), s')" "inv s'"
    "entries s' = run_action (Untrack_action u k q) (entries s)"
proof -
  let ?n = "ref_name_new u (Some k)"
  have n: "ref_name_ok ?n" using assms(3) by simp
  obtain a s' where a: "db_update D s [Delete_update ?n (untrack_previous q)] = Some (Inr a, s')"
    using update_live [OF assms(1,2), of "Delete_update ?n (untrack_previous q)"] n by auto
  obtain y where "first_deleted a = Some y" using delete_one(3) [OF assms(2) n a] by blast
  then obtain x where un: "untrack D s u k (untrack_args_new q) = Some (Inr x, s')"
    using a by (simp add: untrack_def untrack_args_new_def)
  have "ua_prune (untrack_args_new q) \<Longrightarrow> urn_path u = None" by (simp add: untrack_args_new_def)
  note spec = untrack_spec(1) [OF assms(2,3) un this refl]
  then have "is_ok x" using assms(4) by (simp add: untrack_args_new_def)
  then obtain y where "x = Inr y" by (cases x) (simp_all add: is_ok_def)
  then show thesis using that [of y s'] un spec by (simp add: untrack_args_new_def)
qed

end

end
