(* ===== verification/Tracking_Storage.thy ===== *)
theory Tracking_Storage
  imports Tracking
begin

text \<open>
  The database of the tracking operations: the reference and object databases of a git repository
  (\<open>librad/src/git/tracking/refdb.rs\<close> and \<open>odb.rs\<close>). The repository is the third-party library
  \<open>git2\<close>: its references and objects are the state \<open>storage\<close>, and \<open>git_env\<close> says which of its
  calls fail, what the hash of a blob is, which names a glob matches and what a commit of a
  transaction does; what the code relies on is \<open>git_env_ok\<close>. The interpretation \<open>sto\<close> of
  \<open>tracking_store\<close> carries the effects of the tracking operations over to repositories.
\<close>

section \<open>The repository\<close>

datatype 'o git_target = Direct_ref 'o | Symbolic_ref string

datatype git_object = Blob_object string | Other_object

record 'o storage =
  sto_refs :: "(string, 'o git_target) bmap"
  sto_objs :: "('o, git_object) bmap"

fun target_oid :: "'o git_target \<Rightarrow> 'o option" where
  "target_oid (Direct_ref t) = Some t"
| "target_oid (Symbolic_ref _) = None"

text \<open>The calls of \<open>git2\<close> that may fail; a lock is asked for with the locks held already.\<close>

datatype 'o git_call =
    Call_find_ref string
  | Call_list_refs
  | Call_next_ref string
  | Call_find_object 'o
  | Call_blob string
  | Call_transaction
  | Call_lock "string list" string
  | Call_set_target string 'o
  | Call_remove string

record 'o git_env =
  git_fails :: "'o storage \<Rightarrow> 'o git_call \<Rightarrow> string option"
  git_commit :: "(string, 'o git_target) bmap \<Rightarrow> (string \<times> 'o option) list \<Rightarrow> string option \<times> (string, 'o git_target) bmap"
  git_zero :: 'o
  git_blob :: "string \<Rightarrow> 'o"
  git_utf8 :: "string \<Rightarrow> bool"
  glob_valid :: "string \<Rightarrow> bool"
  glob_is_match :: "string \<Rightarrow> string \<Rightarrow> bool"
  json_parse :: "string \<Rightarrow> string + json_value"

datatype 'o storage_error =
    Read_error string
  | SymbolicRef_error
  | Conversion_parse ref_name_error
  | Acquire_error string
  | Commit_error string
  | Delete_error string string
  | Lock_error string string
  | Write_error string 'o string
  | NotBlob_error 'o
  | Config_parse 'o config_parse_error
  | Missing_config 'o
  | WriteObject_error string

definition git_try :: "'o git_env \<Rightarrow> 'o storage \<Rightarrow> 'o git_call \<Rightarrow> (string \<Rightarrow> 'o storage_error) \<Rightarrow> 'o storage_error + unit" where
  "git_try G s call f = (case git_fails G s call of None \<Rightarrow> Inr () | Some m \<Rightarrow> Inl (f m))"

lemma git_try_Inr [simp]: "git_try G s call f = Inr () \<longleftrightarrow> git_fails G s call = None"
  by (simp add: git_try_def split: option.splits)

section \<open>The object database\<close>

definition sto_find_config ::
  "'o git_env \<Rightarrow> ('o::linorder, 'b) urn_env \<Rightarrow> 'o storage \<Rightarrow> 'o \<Rightarrow> ('o storage_error + 'o config option) option" where
  "sto_find_config G E s oid =
     Some (if oid = git_zero G then Inr None
           else and_then (git_try G s (Call_find_object oid) Read_error) (\<lambda>_.
             case bmap_get (sto_objs s) oid of
               None \<Rightarrow> Inr None
             | Some Other_object \<Rightarrow> Inl (NotBlob_error oid)
             | Some (Blob_object content) \<Rightarrow>
                 map_err (Config_parse oid) (map_ok Some (config_try_from_bytes E (json_parse G) content))))"

definition sto_write_config ::
  "'o git_env \<Rightarrow> ('o::linorder, 'b) urn_env \<Rightarrow> 'o storage \<Rightarrow> 'o config \<Rightarrow> (('o storage_error + 'o) \<times> 'o storage) option" where
  "sto_write_config G E s config =
     (let content = config_canonical_form E config in
      Some (case git_try G s (Call_blob content) WriteObject_error of
          Inl e \<Rightarrow> (Inl e, s)
        | Inr _ \<Rightarrow> (Inr (git_blob G content), s\<lparr>sto_objs := bmap_insert (git_blob G content) (Blob_object content) (sto_objs s)\<rparr>)))"

definition sto_modify_config ::
  "'o git_env \<Rightarrow> ('o::linorder, 'b) urn_env \<Rightarrow> 'o storage \<Rightarrow> 'o \<Rightarrow> ('o config \<Rightarrow> 'o config) \<Rightarrow>
   (('o storage_error + 'o) \<times> 'o storage) option" where
  "sto_modify_config G E s oid f =
     do {
       found \<leftarrow> sto_find_config G E s oid;
       case found of
         Inl e \<Rightarrow> Some (Inl e, s)
       | Inr None \<Rightarrow> Some (Inl (Missing_config oid), s)
       | Inr (Some config) \<Rightarrow> sto_write_config G E s (f config)
     }"

section \<open>Reading references\<close>

definition sto_reference :: "'o git_env \<Rightarrow> 'o storage \<Rightarrow> string \<Rightarrow> 'o storage_error + 'o git_target option" where
  "sto_reference G s name = map_ok (\<lambda>_. bmap_get (sto_refs s) name) (git_try G s (Call_find_ref name) Read_error)"

definition sto_find_reference ::
  "'o git_env \<Rightarrow> ('o, 'b) urn_env \<Rightarrow> multibase \<Rightarrow> 'o storage \<Rightarrow> 'o ref_name \<Rightarrow>
   ('o storage_error + 'o db_ref option) option" where
  "sto_find_reference G E M s reference =
     do {
       name \<leftarrow> refstring_from_ref_name E M reference;
       Some (and_then (sto_reference G s name) (\<lambda>gref.
         case gref of
           None \<Rightarrow> Inr None
         | Some gref \<Rightarrow>
             map_ok (\<lambda>target. Some \<lparr>dr_name = reference, dr_target = target\<rparr>)
               (ok_or SymbolicRef_error (target_oid gref))))
     }"

text \<open>\<open>references_glob\<close>: the references whose name is UTF-8 and matches, in the order of their names.\<close>

definition references_glob ::
  "'o git_env \<Rightarrow> 'o storage \<Rightarrow> string \<Rightarrow> 'o storage_error + ('o storage_error + (string \<times> 'o git_target)) list" where
  "references_glob G s glob =
     map_ok (\<lambda>_. concat (map (\<lambda>(name, t).
         case git_try G s (Call_next_ref name) Read_error of
           Inl e \<Rightarrow> [Inl e]
         | Inr _ \<Rightarrow> if git_utf8 G name \<and> glob_is_match G glob name then [Inr (name, t)] else []) (sto_refs s)))
       (git_try G s Call_list_refs Read_error)"

definition convert ::
  "('o, 'b) urn_env \<Rightarrow> multibase \<Rightarrow> string \<times> 'o git_target \<Rightarrow> ('o storage_error + 'o db_ref) option" where
  "convert E M r =
     map_option (\<lambda>name. and_then (map_err Conversion_parse name) (\<lambda>name.
         map_ok (\<lambda>target. \<lparr>dr_name = name, dr_target = target\<rparr>) (ok_or SymbolicRef_error (target_oid (snd r)))))
       (ref_name_from_str E M (fst r))"

text \<open>\<open>None\<close> when the pattern is no valid glob, or parsing a name panics.\<close>

definition sto_references ::
  "'o git_env \<Rightarrow> ('o, 'b) urn_env \<Rightarrow> multibase \<Rightarrow> 'o storage \<Rightarrow> string \<Rightarrow>
   ('o storage_error + ('o storage_error + 'o db_ref) list) option" where
  "sto_references G E M s spec =
     (if \<not> glob_valid G spec then None
      else case references_glob G s spec of
        Inl e \<Rightarrow> Some (Inl e)
      | Inr rs \<Rightarrow>
          map_option Inr (those (map (\<lambda>r. case r of Inl e \<Rightarrow> Some (Inl e) | Inr r \<Rightarrow> convert E M r) rs)))"

section \<open>Updating references\<close>

text \<open>What a transaction holds: the operations queued, the names locked, and what was applied.\<close>

record 'o txn =
  tx_ops :: "(string \<times> 'o option) list"
  tx_locked :: "string list"
  tx_updates :: "'o updated list"
  tx_rejections :: "'o previous_error list"

definition reject_or_update :: "'o previous_error + 'o updated \<Rightarrow> 'o txn \<Rightarrow> 'o txn" where
  "reject_or_update apply t =
     (case apply of
        Inr up \<Rightarrow> t\<lparr>tx_updates := tx_updates t @ [up]\<rparr>
      | Inl rejection \<Rightarrow> t\<lparr>tx_rejections := tx_rejections t @ [rejection]\<rparr>)"

text \<open>Queueing an operation on a locked name, if the guard on the previous value lets it.\<close>

definition guarded ::
  "'o previous_value \<Rightarrow> 'o option \<Rightarrow> 'o storage_error + unit \<Rightarrow> string \<times> 'o option \<Rightarrow> 'o txn \<Rightarrow>
   'o storage_error + 'o previous_error option \<times> 'o txn" where
  "guarded previous actual call op t =
     map_ok (\<lambda>rej. (rej, if rej = None then t\<lparr>tx_ops := tx_ops t @ [op]\<rparr> else t))
       (previous_guard previous actual call)"

fun update_step ::
  "'o git_env \<Rightarrow> ('o, 'b) urn_env \<Rightarrow> multibase \<Rightarrow> 'o storage \<Rightarrow> 'o update \<Rightarrow> 'o txn \<Rightarrow> ('o storage_error + 'o txn) option" where
  "update_step G E M s (Write_update name target previous) t =
     do {
       refname \<leftarrow> refstring_from_ref_name E M name;
       Some (and_then (git_try G s (Call_lock (tx_locked t) refname) (Lock_error refname)) (\<lambda>_.
         let t = t\<lparr>tx_locked := refname # tx_locked t\<rparr>;
             set = git_try G s (Call_set_target refname target) (Write_error refname target) in
         and_then (sto_reference G s refname) (\<lambda>r.
         and_then (guarded previous (Option.bind r target_oid) set (refname, Some target) t) (\<lambda>(rej, t).
           Inr (reject_or_update (case rej of None \<Rightarrow> Inr (Written name target) | Some e \<Rightarrow> Inl e) t)))))
     }"
| "update_step G E M s (Delete_update name previous) t =
     do {
       refname \<leftarrow> refstring_from_ref_name E M name;
       Some (and_then (git_try G s (Call_lock (tx_locked t) refname) (Lock_error refname)) (\<lambda>_.
         let t = t\<lparr>tx_locked := refname # tx_locked t\<rparr>;
             delete = git_try G s (Call_remove refname) (Delete_error refname) in
         and_then (sto_reference G s refname) (\<lambda>r.
           case r of
             Some r \<Rightarrow>
               and_then (guarded previous (target_oid r) delete (refname, None) t) (\<lambda>(rej, t).
               and_then (ok_or SymbolicRef_error (target_oid r)) (\<lambda>oid.
                 Inr (reject_or_update (case rej of None \<Rightarrow> Inr (Deleted name oid) | Some e \<Rightarrow> Inl e) t)))
           | None \<Rightarrow>
               (case previous of
                  PAny \<Rightarrow> Inr t
                | PMustNotExist \<Rightarrow> Inr t
                | PIfExistsMustMatch _ \<Rightarrow> Inr t
                | _ \<Rightarrow> Inr (reject_or_update (Inl DidNotExist) t)))))
     }"

fun update_loop ::
  "'o git_env \<Rightarrow> ('o, 'b) urn_env \<Rightarrow> multibase \<Rightarrow> 'o storage \<Rightarrow> 'o update list \<Rightarrow> 'o txn \<Rightarrow> ('o storage_error + 'o txn) option" where
  "update_loop G E M s [] t = Some (Inr t)"
| "update_loop G E M s (up # ups) t =
     do {
       r \<leftarrow> update_step G E M s up t;
       case r of Inl e \<Rightarrow> Some (Inl e) | Inr t \<Rightarrow> update_loop G E M s ups t
     }"

definition txn_empty :: "'o txn" where
  "txn_empty = \<lparr>tx_ops = [], tx_locked = [], tx_updates = [], tx_rejections = []\<rparr>"

definition sto_commit :: "'o git_env \<Rightarrow> 'o storage \<Rightarrow> (string \<times> 'o option) list \<Rightarrow> string option \<times> 'o storage" where
  "sto_commit G s ops = (case git_commit G (sto_refs s) ops of (e, refs) \<Rightarrow> (e, s\<lparr>sto_refs := refs\<rparr>))"

definition sto_update ::
  "'o git_env \<Rightarrow> ('o, 'b) urn_env \<Rightarrow> multibase \<Rightarrow> 'o storage \<Rightarrow> 'o update list \<Rightarrow>
   (('o storage_error + 'o applied) \<times> 'o storage) option" where
  "sto_update G E M s updates =
     (case git_try G s Call_transaction Acquire_error of
        Inl e \<Rightarrow> Some (Inl e, s)
      | Inr _ \<Rightarrow> do {
          t \<leftarrow> update_loop G E M s updates txn_empty;
          Some (case t of
              Inl e \<Rightarrow> (Inl e, s)
            | Inr t \<Rightarrow>
                (case sto_commit G s (tx_ops t) of
                   (Some m, s) \<Rightarrow> (Inl (Commit_error m), s)
                 | (None, s) \<Rightarrow> (Inr \<lparr>ap_updates = tx_updates t, ap_rejections = tx_rejections t\<rparr>, s)))
        })"

section \<open>Pruning\<close>

definition prune_glob :: "('o, 'b) urn_env \<Rightarrow> multibase \<Rightarrow> 'o urn \<Rightarrow> bytes option \<Rightarrow> string option" where
  "prune_glob E M u peer =
     do {
       u \<leftarrow> reflike_from_urn E u;
       let namespace = reflike_join ''refs/namespaces'' u;
       case peer of
         Some peer \<Rightarrow> do {
           peer \<leftarrow> reflike_from_peer M peer;
           Some (reflike_with_pattern_suffix (reflike_join (reflike_join namespace ''refs/remotes'') peer) ''*'')
         }
       | None \<Rightarrow> Some (reflike_with_pattern_suffix namespace ''*'')
     }"

text \<open>
  A direct reference is reported by its name, a symbolic one by the name it points to, if that is
  UTF-8.
\<close>

fun prune_loop ::
  "'o git_env \<Rightarrow> 'o storage \<Rightarrow> ('o storage_error + (string \<times> 'o git_target)) list \<Rightarrow> string list \<Rightarrow>
   'o storage_error + string list \<times> 'o pruned_ref list" where
  "prune_loop G s [] locked = Inr (locked, [])"
| "prune_loop G s (Inl e # rs) locked = Inl e"
| "prune_loop G s (Inr (name, t) # rs) locked =
     and_then (git_try G s (Call_lock locked name) (Lock_error name)) (\<lambda>_.
     and_then (git_try G s (Call_remove name) (Delete_error name)) (\<lambda>_.
     map_ok (\<lambda>(removed, pruned).
         (removed, (case t of
             Direct_ref target \<Rightarrow> [Pruned_direct name target]
           | Symbolic_ref name \<Rightarrow> if git_utf8 G name then [Pruned_symbolic name] else []) @ pruned))
       (prune_loop G s rs (name # locked))))"

definition sto_prune ::
  "'o git_env \<Rightarrow> ('o, 'b) urn_env \<Rightarrow> multibase \<Rightarrow> 'o storage \<Rightarrow> 'o urn \<Rightarrow> bytes option \<Rightarrow>
   (('o storage_error + 'o pruned_ref list) \<times> 'o storage) option" where
  "sto_prune G E M s u peer =
     do {
       glob \<leftarrow> prune_glob E M u peer;
       if \<not> glob_valid G glob then None
       else Some (case references_glob G s glob of
           Inl e \<Rightarrow> (Inl e, s)
         | Inr rs \<Rightarrow>
             (case and_then (git_try G s Call_transaction Acquire_error) (\<lambda>_. prune_loop G s rs []) of
                Inl e \<Rightarrow> (Inl e, s)
              | Inr (removed, pruned) \<Rightarrow>
                  (case sto_commit G s (map (\<lambda>name. (name, None)) (rev removed)) of
                     (Some m, s) \<Rightarrow> (Inl (Commit_error m), s)
                   | (None, s) \<Rightarrow> (Inr pruned, s))))
     }"

text \<open>The database of the tracking operations.\<close>

definition sto_db :: "'o git_env \<Rightarrow> ('o::linorder, 'b) urn_env \<Rightarrow> multibase \<Rightarrow> ('o storage, 'o, 'o storage_error) db" where
  "sto_db G E M =
     \<lparr>db_find_reference = sto_find_reference G E M,
      db_references = sto_references G E M,
      db_update = sto_update G E M,
      db_prune = sto_prune G E M,
      db_find_config = sto_find_config G E,
      db_write_config = sto_write_config G E,
      db_modify_config = sto_modify_config G E\<rparr>"

section \<open>What the code relies on\<close>

definition apply_op :: "string \<times> 'o option \<Rightarrow> (string, 'o git_target) bmap \<Rightarrow> (string, 'o git_target) bmap" where
  "apply_op op refs =
     (case snd op of Some t \<Rightarrow> bmap_insert (fst op) (Direct_ref t) refs | None \<Rightarrow> bmap_remove (fst op) refs)"

text \<open>Text in which no character has a meaning in a glob.\<close>

definition glob_plain :: "string \<Rightarrow> bool" where
  "glob_plain = list_all (\<lambda>c. is_alnum c \<or> c = slash)"

text \<open>
  A commit that succeeds carries out what was queued, in order; different blobs have different
  hashes, none of which is the zero identifier; ASCII names are UTF-8; a plain text followed by \<open>/*\<close> is a glob for
  the names below it; and the encodings of identifiers are alphanumeric.
\<close>

definition git_env_ok :: "'o git_env \<Rightarrow> ('o, 'b) urn_env \<Rightarrow> bool" where
  "git_env_ok G E =
     ((\<forall>refs ops refs'. git_commit G refs ops = (None, refs') \<longrightarrow> refs' = fold apply_op ops refs)
      \<and> (\<forall>a b. git_blob G a = git_blob G b \<longrightarrow> a = b)
      \<and> (\<forall>a. git_blob G a \<noteq> git_zero G)
      \<and> (\<forall>name. list_all (\<lambda>c. (of_char c :: nat) < 128) name \<longrightarrow> git_utf8 G name)
      \<and> (\<forall>p. glob_plain p \<longrightarrow> glob_valid G (p @ ''/*'')
           \<and> (\<forall>name. glob_is_match G (p @ ''/*'') name \<longleftrightarrow> prefix (p @ ''/'') name))
      \<and> (\<forall>i. list_all is_alnum (multibase_encode E (into_multihash E i))))"

section \<open>The repository as a store\<close>

definition sto_configs :: "'o git_env \<Rightarrow> ('o::linorder, 'b) urn_env \<Rightarrow> 'o storage \<Rightarrow> 'o \<Rightarrow> 'o config option" where
  "sto_configs G E s oid =
     (if oid = git_zero G then None
      else case bmap_get (sto_objs s) oid of
        Some (Blob_object content) \<Rightarrow>
          (case config_try_from_bytes E (json_parse G) content of Inr c \<Rightarrow> Some c | Inl _ \<Rightarrow> None)
      | _ \<Rightarrow> None)"

definition sto_tracking :: "('o, 'b) urn_env \<Rightarrow> multibase \<Rightarrow> 'o storage \<Rightarrow> 'o ref_name \<Rightarrow> 'o option" where
  "sto_tracking E M s n =
     (if ref_name_ok n then Option.bind (bmap_get (sto_refs s) (tracking_refname E M n)) target_oid else None)"

text \<open>A configuration that is read back from what is stored for it.\<close>

definition sto_valid :: "'o git_env \<Rightarrow> ('o::linorder, 'b) urn_env \<Rightarrow> 'o config \<Rightarrow> bool" where
  "sto_valid G E c = (config_try_from_bytes E (json_parse G) (config_canonical_form E c) = Inr c)"

definition sto_names :: "'o git_env \<Rightarrow> ('o, 'b) urn_env \<Rightarrow> multibase \<Rightarrow> string \<Rightarrow> 'o ref_name \<Rightarrow> bool" where
  "sto_names G E M spec n = glob_is_match G spec (tracking_refname E M n)"

definition sto_partial :: "'o storage_error \<Rightarrow> bool" where
  "sto_partial e = (\<exists>m. e = Commit_error m)"

text \<open>
  Objects are stored under their hash, and every reference below \<open>refs/rad/remotes\<close> is the name
  of an entry and points to a configuration.
\<close>

definition objs_ok :: "'o git_env \<Rightarrow> 'o::linorder storage \<Rightarrow> bool" where
  "objs_ok G s =
     (bmap_ok (sto_objs s) \<and> (\<forall>oid ob. bmap_get (sto_objs s) oid = Some ob \<longrightarrow>
        (case ob of Blob_object content \<Rightarrow> oid = git_blob G content | Other_object \<Rightarrow> \<forall>content. oid \<noteq> git_blob G content)))"

definition refs_ok :: "'o git_env \<Rightarrow> ('o::linorder, 'b) urn_env \<Rightarrow> multibase \<Rightarrow> 'o storage \<Rightarrow> bool" where
  "refs_ok G E M s =
     (bmap_ok (sto_refs s) \<and> (\<forall>name t. bmap_get (sto_refs s) name = Some t \<longrightarrow> prefix (tracking_base @ ''/'') name \<longrightarrow>
        (\<exists>n oid c. ref_name_ok n \<and> name = tracking_refname E M n \<and> t = Direct_ref oid
           \<and> sto_configs G E s oid = Some c \<and> sto_valid G E c)))"

definition storage_ok :: "'o git_env \<Rightarrow> ('o::linorder, 'b) urn_env \<Rightarrow> multibase \<Rightarrow> 'o storage \<Rightarrow> bool" where
  "storage_ok G E M s =
     (git_env_ok G E \<and> urn_env_ok E \<and> multibase_ok M \<and> objs_ok G s \<and> refs_ok G E M s)"

lemma storage_okD:
  assumes "storage_ok G E M s"
  shows "git_env_ok G E" "urn_env_ok E" "multibase_ok M" "objs_ok G s" "refs_ok G E M s"
  using assms by (simp_all add: storage_ok_def)

subsection \<open>Names\<close>

lemma glob_plain_simps [simp]:
  "glob_plain []" "glob_plain (a @ b) \<longleftrightarrow> glob_plain a \<and> glob_plain b"
  "glob_plain (c # a) \<longleftrightarrow> (is_alnum c \<or> c = slash) \<and> glob_plain a"
  by (simp_all add: glob_plain_def)

lemma alnum_plain: "list_all is_alnum s \<Longrightarrow> glob_plain s"
  by (auto simp: glob_plain_def list_all_iff)

lemma encoding_plain:
  assumes "git_env_ok G E"
  shows "glob_plain (urn_encode_id E u)"
  using assms by (simp add: git_env_ok_def urn_encode_id_def alnum_plain)

lemma peer_plain:
  assumes "multibase_ok M"
  shows "glob_plain (peer_default_encoding M k)"
proof -
  obtain t where t: "peer_default_encoding M k = CHR ''h'' # t" "set t \<subseteq> set zbase32"
    using multibaseD(2) [OF assms, of "0 # k"] by (auto simp: peer_default_encoding_def)
  have "list_all is_alnum (CHR ''h'' # zbase32)" by code_simp
  then show ?thesis using t by (auto simp: glob_plain_def list_all_iff)
qed

lemma refname_plain:
  assumes "storage_ok G E M s"
  shows "glob_plain (tracking_refname E M n)"
proof -
  have l: "glob_plain REFS" "glob_plain RAD" "glob_plain REMOTES" "glob_plain ''default''" by code_simp+
  have "glob_plain (remote_display M (rn_remote n))"
    using l(4) peer_plain storage_okD(3) [OF assms] by (cases "rn_remote n") auto
  then show ?thesis using l encoding_plain [OF storage_okD(1) [OF assms]] by (simp add: tracking_refname_def)
qed

lemma refname_utf8:
  assumes "storage_ok G E M s"
  shows "git_utf8 G (tracking_refname E M n)"
proof -
  have "(of_char c :: nat) < 128" if "is_alnum c \<or> c = slash" for c
    using that by (auto simp: is_alnum_def Let_def)
  then have "list_all (\<lambda>c. (of_char c :: nat) < 128) (tracking_refname E M n)"
    using refname_plain [OF assms, of n] by (auto simp: glob_plain_def list_all_iff)
  then show ?thesis using storage_okD(1) [OF assms] by (simp add: git_env_ok_def)
qed

lemma refname_below:
  "tracking_refname E M n = tracking_base @ ''/'' @ urn_encode_id E (rn_urn n) @ ''/'' @ remote_display M (rn_remote n)"
  by (simp add: tracking_refname_def tracking_base_def literal_defs)

lemma refname_prefix: "prefix (tracking_base @ ''/'') (tracking_refname E M n)"
  by (simp add: refname_below)

text \<open>The reference of an entry.\<close>

lemma sto_get:
  assumes "storage_ok G E M s" "ref_name_ok n" "bmap_get (sto_refs s) (tracking_refname E M n) = Some t"
  obtains oid c where "t = Direct_ref oid" "sto_tracking E M s n = Some oid"
    "sto_configs G E s oid = Some c" "sto_valid G E c"
  using storage_okD(5) [OF assms(1)] refname_prefix assms(2,3) unfolding refs_ok_def sto_tracking_def
  by (metis bind.bind_lunit target_oid.simps(1))

lemma sto_get_oid:
  assumes "storage_ok G E M s" "ref_name_ok n"
  shows "bmap_get (sto_refs s) (tracking_refname E M n) = map_option Direct_ref (sto_tracking E M s n)"
proof (cases "bmap_get (sto_refs s) (tracking_refname E M n)")
  case None
  then show ?thesis by (simp add: sto_tracking_def)
next
  case (Some t)
  then show ?thesis by (auto elim: sto_get [OF assms])
qed

subsection \<open>The laws of a store\<close>

lemma sto_find_reference_law:
  assumes "storage_ok G E M s" "ref_name_ok n"
  shows "sto_find_reference G E M s n \<noteq> None"
    and "sto_find_reference G E M s n = Some (Inr found) \<Longrightarrow>
      found = map_option (\<lambda>t. \<lparr>dr_name = n, dr_target = t\<rparr>) (sto_tracking E M s n)"
  using refstring_from_ref_name_total [OF storage_okD(2,3) [OF assms(1)] assms(2)] sto_get_oid [OF assms]
  by (auto simp: sto_find_reference_def sto_reference_def split: option.splits)

lemma sto_refspec_law:
  assumes "storage_ok G E M s"
  shows "remotes_refspec E fb = Some (case fb of None \<Rightarrow> tracking_base @ ''/*''
      | Some u \<Rightarrow> (tracking_base @ ''/'' @ urn_encode_id E u) @ ''/*'')"
  using component_from_urn_total [OF storage_okD(2) [OF assms]]
  by (cases fb) (simp_all add: remotes_refspec_def refstring_and_def refstring_push_def)

lemma sto_spec_plain:
  assumes "storage_ok G E M s"
  shows "\<exists>p. remotes_refspec E fb = Some (p @ ''/*'') \<and> glob_plain p \<and> prefix (tracking_base @ ''/'') (p @ ''/'')"
proof -
  have "glob_plain tracking_base" by code_simp
  then show ?thesis
    using sto_refspec_law [OF assms, of fb] encoding_plain [OF storage_okD(1) [OF assms]] by (cases fb) auto
qed

lemma sto_glob:
  assumes "git_env_ok G E" "glob_plain p"
  shows "glob_valid G (p @ ''/*'')" "glob_is_match G (p @ ''/*'') name \<longleftrightarrow> prefix (p @ ''/'') name"
  using assms by (simp_all add: git_env_ok_def)

lemma prefix_piece:
  assumes "c \<notin> set a" "c \<notin> set b"
  shows "prefix (a @ [c]) (b @ c # r) \<longleftrightarrow> a = b"
proof
  assume "prefix (a @ [c]) (b @ c # r)"
  then obtain z where "a @ c # z = b @ c # r" by (auto simp: prefix_def)
  then have "takeWhile (\<lambda>x. x \<noteq> c) (a @ c # z) = takeWhile (\<lambda>x. x \<noteq> c) (b @ c # r)" by simp
  then show "a = b" using assms by (subst (asm) (1 2) takeWhile_append2) auto
qed (simp add: prefix_def)

lemma sto_refspec_urn_law:
  assumes "storage_ok G E M s" "remotes_refspec E (Some u) = Some spec"
  shows "sto_names G E M spec n \<longleftrightarrow> urn_id (rn_urn n) = urn_id u"
proof -
  let ?p = "tracking_base @ ''/'' @ urn_encode_id E u"
  have slash: "slash \<notin> set (urn_encode_id E v)" for v
    using urn_envD(1) [OF storage_okD(2) [OF assms(1)], of v] by (simp add: is_component_def)
  have "glob_plain tracking_base" by code_simp
  then have p: "glob_plain ?p" using encoding_plain [OF storage_okD(1) [OF assms(1)]] by simp
  have "spec = ?p @ ''/*''" using sto_refspec_law [OF assms(1), of "Some u"] assms(2) by simp
  then have "sto_names G E M spec n \<longleftrightarrow> prefix (?p @ ''/'') (tracking_refname E M n)"
    unfolding sto_names_def using sto_glob(2) [OF storage_okD(1) [OF assms(1)] p] by (simp only:)
  also have "\<dots> \<longleftrightarrow> prefix (urn_encode_id E u @ [slash]) (urn_encode_id E (rn_urn n) @ slash # remote_display M (rn_remote n))"
    by (simp add: refname_below)
  also have "\<dots> \<longleftrightarrow> urn_encode_id E u = urn_encode_id E (rn_urn n)" by (rule prefix_piece [OF slash slash])
  also have "\<dots> \<longleftrightarrow> urn_id (rn_urn n) = urn_id u"
    using storage_okD(2) [OF assms(1)] unfolding urn_env_ok_def urn_encode_id_def by (metis option.inject)
  finally show ?thesis .
qed

lemma those_Some: "those xs = Some ys \<longleftrightarrow> xs = map Some ys"
proof (induction xs arbitrary: ys)
  case (Cons x xs)
  then show ?case by (cases x; cases ys) (auto split: option.splits)
qed auto

lemma those_total: "(\<And>x. x \<in> set xs \<Longrightarrow> x \<noteq> None) \<Longrightarrow> those xs \<noteq> None"
  by (induction xs) (auto split: option.splits)

lemma ref_name_parse_prefix:
  assumes "ref_name_from_str E M name = Some (Inr n)"
  shows "prefix (tracking_base @ ''/'') name"
proof -
  obtain i x where "refstr_components name = [REFS, RAD, REMOTES, i, x]"
    using assms by (auto simp: ref_name_from_str_def qualified_from_refstr_def qualified_non_empty_components_def
        refstr_try_from_iff refstr_iter_def refstr_components_def REFS_def
        split: sum.splits option.splits list.splits if_splits)
  then have "name = join_with slash [REFS, RAD, REMOTES, i, x]"
    using join_split [of slash name] by (simp only: refstr_components_def)
  then show ?thesis by (simp add: tracking_base_def literal_defs)
qed

lemma sto_convert:
  assumes "storage_ok G E M s" "bmap_get (sto_refs s) name = Some t" "prefix (tracking_base @ ''/'') name"
  obtains n oid where "convert E M (name, t) = Some (Inr \<lparr>dr_name = n, dr_target = oid\<rparr>)" "ref_name_ok n"
    "name = tracking_refname E M n" "sto_tracking E M s n = Some oid"
proof -
  obtain n oid where n: "ref_name_ok n" "name = tracking_refname E M n" "t = Direct_ref oid"
    using storage_okD(5) [OF assms(1)] assms(2,3) unfolding refs_ok_def by blast
  have "convert E M (name, t) = Some (Inr \<lparr>dr_name = n, dr_target = oid\<rparr>)"
    using ref_name_parse [OF storage_okD(2,3) [OF assms(1)] n(1)] n(2,3) by (simp add: convert_def)
  moreover have "sto_tracking E M s n = Some oid" using assms(2) n by (simp add: sto_tracking_def)
  ultimately show thesis using that n(1,2) by blast
qed

text \<open>The references a glob lists.\<close>

lemma references_glob_Inr:
  assumes "references_glob G s glob = Inr rs" "bmap_ok (sto_refs s)" "Inr (name, t) \<in> set rs"
  shows "bmap_get (sto_refs s) name = Some t \<and> git_utf8 G name \<and> glob_is_match G glob name"
proof -
  let ?f = "\<lambda>(name, t). case git_try G s (Call_next_ref name) Read_error of
      Inl e \<Rightarrow> [Inl e] | Inr _ \<Rightarrow> if git_utf8 G name \<and> glob_is_match G glob name then [Inr (name, t)] else []"
  have "rs = concat (map ?f (sto_refs s))" using assms(1) by (auto simp: references_glob_def)
  then obtain a b where ab: "(a, b) \<in> set (sto_refs s)" "Inr (name, t) \<in> set (?f (a, b))" using assms(3) by auto
  then have "name = a \<and> t = b \<and> git_utf8 G a \<and> glob_is_match G glob a"
    by (cases "git_try G s (Call_next_ref a) Read_error") (auto split: if_splits)
  then show ?thesis using ab(1) bmap_get_in [OF assms(2)] by auto
qed

lemma references_glob_complete:
  assumes "references_glob G s glob = Inr rs" "bmap_ok (sto_refs s)" "Inl ` UNIV \<inter> set rs = {}"
    and "bmap_get (sto_refs s) name = Some t" "git_utf8 G name" "glob_is_match G glob name"
  shows "Inr (name, t) \<in> set rs"
proof -
  have m: "(name, t) \<in> set (sto_refs s)" using assms(2,4) by (simp add: bmap_get_in)
  let ?f = "\<lambda>(name, t). case git_try G s (Call_next_ref name) Read_error of
      Inl e \<Rightarrow> [Inl e] | Inr _ \<Rightarrow> if git_utf8 G name \<and> glob_is_match G glob name then [Inr (name, t)] else []"
  have rs: "rs = concat (map ?f (sto_refs s))" using assms(1) by (auto simp: references_glob_def)
  then have sub: "set (?f (name, t)) \<subseteq> set rs" using m by auto
  have "git_try G s (Call_next_ref name) Read_error = Inr ()"
  proof (cases "git_try G s (Call_next_ref name) Read_error")
    case (Inl e)
    then have "Inl e \<in> set rs" using sub by simp
    then show ?thesis using assms(3) by blast
  qed simp
  then show ?thesis using sub assms(5,6) by (simp add: git_try_def)
qed

text \<open>The entries a pattern lists.\<close>

definition convert_item ::
  "('o, 'b) urn_env \<Rightarrow> multibase \<Rightarrow> 'o storage_error + (string \<times> 'o git_target) \<Rightarrow> ('o storage_error + 'o db_ref) option" where
  "convert_item E M r = (case r of Inl e \<Rightarrow> Some (Inl e) | Inr r \<Rightarrow> convert E M r)"

lemma sto_references_Inr:
  assumes "sto_references G E M s spec = Some (Inr rs)"
  obtains gs where "references_glob G s spec = Inr gs" "map (convert_item E M) gs = map Some rs"
proof -
  obtain gs where gs: "references_glob G s spec = Inr gs"
    using assms by (auto simp: sto_references_def split: if_splits sum.splits)
  have "(\<lambda>r. case r of Inl e \<Rightarrow> Some (Inl e) | Inr r \<Rightarrow> convert E M r) = convert_item E M"
    by (simp add: convert_item_def fun_eq_iff)
  then show thesis
    using that gs assms by (auto simp: sto_references_def those_Some split: if_splits)
qed

lemma sto_references_total_law:
  assumes "storage_ok G E M s" "remotes_refspec E fb = Some spec"
  shows "sto_references G E M s spec \<noteq> None"
proof -
  obtain p where p: "spec = p @ ''/*''" "glob_plain p" "prefix (tracking_base @ ''/'') (p @ ''/'')"
    using sto_spec_plain [OF assms(1), of fb] assms(2) by auto
  note glob = sto_glob [OF storage_okD(1) [OF assms(1)] p(2)]
  have r: "bmap_ok (sto_refs s)" using storage_okD(5) [OF assms(1)] by (simp add: refs_ok_def)
  show ?thesis
  proof (cases "references_glob G s spec")
    case (Inr gs)
    have "convert_item E M g \<noteq> None" if g: "g \<in> set gs" for g
    proof (cases g)
      case (Inr x)
      obtain name t where x: "x = (name, t)" by (rule prod.exhaust)
      note l = references_glob_Inr [OF \<open>references_glob G s spec = Inr gs\<close> r, of name t]
      have "prefix (p @ ''/'') name" using l g Inr x glob(2) p(1) by simp
      then have "prefix (tracking_base @ ''/'') name"
        using p(3) prefix_order.trans by blast
      then show ?thesis using sto_convert [OF assms(1), of name t] l g Inr x by (auto simp: convert_item_def)
    qed (simp add: convert_item_def)
    then show ?thesis using Inr glob(1) p(1) those_total [of "map (convert_item E M) gs"]
      by (auto simp: sto_references_def convert_item_def [abs_def])
  qed (use glob(1) p(1) in \<open>simp add: sto_references_def\<close>)
qed

lemma sto_references_law:
  assumes "storage_ok G E M s" "sto_references G E M s spec = Some (Inr rs)" "Inr r \<in> set rs"
  shows "ref_name_ok (dr_name r) \<and> sto_names G E M spec (dr_name r) \<and> sto_tracking E M s (dr_name r) = Some (dr_target r)"
proof -
  obtain gs where gs: "references_glob G s spec = Inr gs" "map (convert_item E M) gs = map Some rs"
    using sto_references_Inr [OF assms(2)] .
  have ok: "bmap_ok (sto_refs s)" using storage_okD(5) [OF assms(1)] by (simp add: refs_ok_def)
  have "Some (Inr r) \<in> set (map (convert_item E M) gs)" using assms(3) gs(2) by simp
  then obtain g where g: "g \<in> set gs" "convert_item E M g = Some (Inr r)" by auto
  then obtain name t where x: "g = Inr (name, t)" "convert E M (name, t) = Some (Inr r)"
    by (auto simp: convert_item_def split: sum.splits)
  have l: "bmap_get (sto_refs s) name = Some t" "glob_is_match G spec name"
    using references_glob_Inr [OF gs(1) ok, of name t] g(1) x(1) by simp_all
  obtain n where "ref_name_from_str E M name = Some (Inr n)" using x(2) by (auto simp: convert_def)
  from ref_name_parse_prefix [OF this] obtain n oid where n: "convert E M (name, t) = Some (Inr \<lparr>dr_name = n, dr_target = oid\<rparr>)"
    "ref_name_ok n" "name = tracking_refname E M n" "sto_tracking E M s n = Some oid"
    using sto_convert [OF assms(1) l(1)] by blast
  then have "r = \<lparr>dr_name = n, dr_target = oid\<rparr>" using x(2) by simp
  then show ?thesis using n l(2) by (simp add: sto_names_def)
qed

lemma sto_references_complete_law:
  assumes "storage_ok G E M s" "sto_references G E M s spec = Some (Inr rs)" "Inl ` UNIV \<inter> set rs = {}"
    and "ref_name_ok n" "sto_names G E M spec n" "sto_tracking E M s n = Some t"
  shows "Inr \<lparr>dr_name = n, dr_target = t\<rparr> \<in> set rs"
proof -
  obtain gs where gs: "references_glob G s spec = Inr gs" "map (convert_item E M) gs = map Some rs"
    using sto_references_Inr [OF assms(2)] .
  have ok: "bmap_ok (sto_refs s)" using storage_okD(5) [OF assms(1)] by (simp add: refs_ok_def)
  have "Inl e \<notin> set gs" for e
  proof
    assume "Inl e \<in> set gs"
    then have "convert_item E M (Inl e) \<in> set (map Some rs)" unfolding gs(2) [symmetric] by simp
    then show False using assms(3) by (auto simp: convert_item_def)
  qed
  then have no: "Inl ` UNIV \<inter> set gs = {}" by auto
  have g: "bmap_get (sto_refs s) (tracking_refname E M n) = Some (Direct_ref t)"
    using sto_get_oid [OF assms(1,4)] assms(6) by simp
  have "Inr (tracking_refname E M n, Direct_ref t) \<in> set gs"
    using references_glob_complete [OF gs(1) ok no g refname_utf8 [OF assms(1)]] assms(5) by (simp add: sto_names_def)
  then have "convert_item E M (Inr (tracking_refname E M n, Direct_ref t)) \<in> set (map Some rs)"
    unfolding gs(2) [symmetric] by simp
  moreover have "convert_item E M (Inr (tracking_refname E M n, Direct_ref t)) = Some (Inr \<lparr>dr_name = n, dr_target = t\<rparr>)"
    using ref_name_parse [OF storage_okD(2,3) [OF assms(1)] assms(4)] by (simp add: convert_item_def convert_def)
  ultimately show ?thesis by auto
qed

lemma map_le_by: "(\<And>k v. m k = Some v \<Longrightarrow> m' k = Some v) \<Longrightarrow> m \<subseteq>\<^sub>m m'"
  by (auto simp: map_le_def dom_def)

lemma refs_ok_mono:
  assumes "refs_ok G E M s" "sto_refs s' = sto_refs s" "sto_configs G E s \<subseteq>\<^sub>m sto_configs G E s'"
  shows "refs_ok G E M s'"
proof -
  have "sto_configs G E s' oid = Some c" if "sto_configs G E s oid = Some c" for oid c
    using assms(3) that by (auto simp: map_le_def dom_def)
  then show ?thesis using assms(1,2) unfolding refs_ok_def by simp blast
qed

text \<open>The object database.\<close>

lemma sto_find_config_law:
  "sto_find_config G E s oid = Some (Inr oc) \<Longrightarrow> oc = sto_configs G E s oid"
  by (auto simp: sto_find_config_def sto_configs_def split: if_splits option.splits git_object.splits)

lemma sto_write_config_law:
  assumes "storage_ok G E M s" "sto_valid G E c" "sto_write_config G E s c = Some (w, s')"
  shows "storage_ok G E M s' \<and> sto_tracking E M s' = sto_tracking E M s \<and> sto_configs G E s \<subseteq>\<^sub>m sto_configs G E s'
    \<and> (\<forall>t. w = Inr t \<longrightarrow> sto_configs G E s' t = Some c)"
proof (cases "git_fails G s (Call_blob (config_canonical_form E c))")
  case (Some m)
  then show ?thesis using assms by (auto simp: sto_write_config_def git_try_def)
next
  case None
  let ?b = "config_canonical_form E c"
  let ?o = "git_blob G ?b"
  have w: "w = Inr ?o" "s' = s\<lparr>sto_objs := bmap_insert ?o (Blob_object ?b) (sto_objs s)\<rparr>"
    using assms(3) None by (simp_all add: sto_write_config_def git_try_def Let_def)
  have g: "\<And>a b. git_blob G a = git_blob G b \<Longrightarrow> a = b" "\<And>a. git_blob G a \<noteq> git_zero G"
    using storage_okD(1) [OF assms(1)] by (simp_all add: git_env_ok_def)
  have objs: "objs_ok G s" using storage_okD(4) [OF assms(1)] .
  then have ok: "bmap_ok (sto_objs s)" by (simp add: objs_ok_def)
  have get: "bmap_get (sto_objs s') = (bmap_get (sto_objs s))(?o \<mapsto> Blob_object ?b)"
    using w(2) bmap.lookup_insert [OF ok] by simp
  have "objs_ok G s'"
    using objs get w(2) ok by (auto simp: objs_ok_def)
  moreover have c: "sto_configs G E s' ?o = Some c"
    using get g(2) assms(2) by (simp add: sto_configs_def sto_valid_def)
  moreover have other: "sto_configs G E s' oid = sto_configs G E s oid" if "oid \<noteq> ?o" for oid
    using get that by (simp add: sto_configs_def)
  moreover have le: "sto_configs G E s \<subseteq>\<^sub>m sto_configs G E s'"
  proof (rule map_le_by)
    fix oid d assume d: "sto_configs G E s oid = Some d"
    show "sto_configs G E s' oid = Some d"
    proof (cases "oid = ?o")
      case True
      then obtain content where "bmap_get (sto_objs s) ?o = Some (Blob_object content)" "config_try_from_bytes E (json_parse G) content = Inr d"
        using d by (auto simp: sto_configs_def split: if_splits option.splits git_object.splits sum.splits)
      moreover from this(1) have "content = ?b" using objs g(1) by (fastforce simp: objs_ok_def)
      ultimately show ?thesis using True c assms(2) by (simp add: sto_valid_def)
    qed (use other d in simp)
  qed
  moreover have "refs_ok G E M s'"
    by (rule refs_ok_mono [OF storage_okD(5) [OF assms(1)] _ le]) (simp add: w(2))
  ultimately show ?thesis
    using assms(1) w by (auto simp: storage_ok_def sto_tracking_def fun_eq_iff)
qed

lemma sto_modify_config_law:
  assumes "storage_ok G E M s" "sto_configs G E s t = Some c" "sto_valid G E (f c)" "sto_modify_config G E s t f = Some (w, s')"
  shows "storage_ok G E M s' \<and> sto_tracking E M s' = sto_tracking E M s \<and> sto_configs G E s \<subseteq>\<^sub>m sto_configs G E s'
    \<and> (\<forall>t'. w = Inr t' \<longrightarrow> sto_configs G E s' t' = Some (f c))"
proof -
  obtain found where found: "sto_find_config G E s t = Some found" by (simp add: sto_find_config_def)
  show ?thesis
  proof (cases found)
    case (Inl e)
    then show ?thesis using assms found by (auto simp: sto_modify_config_def)
  next
    case (Inr oc)
    then have "oc = Some c" using sto_find_config_law found assms(2) by metis
    then have "sto_write_config G E s (f c) = Some (w, s')" using assms(4) found Inr by (simp add: sto_modify_config_def)
    then show ?thesis using sto_write_config_law [OF assms(1,3)] by blast
  qed
qed

lemma sto_modify_config_total: "sto_modify_config G E s t f \<noteq> None"
  by (auto simp: sto_modify_config_def sto_find_config_def sto_write_config_def Let_def split: sum.splits option.splits)

text \<open>A transaction.\<close>

lemma guarded_Inr:
  assumes "guarded p actual call op t = Inr (rej, t')"
  shows "(holds_for p actual \<and> rej = None \<and> t' = t\<lparr>tx_ops := tx_ops t @ [op]\<rparr>)
    \<or> (\<not> holds_for p actual \<and> t' = t \<and> (\<exists>e. rej = Some e \<and> previous_guard p actual (Inr () :: unit + unit) = Inr (Some e)))"
proof (cases "holds_for p actual")
  case True
  then show ?thesis using assms by (auto simp: guarded_def previous_guard_ok)
next
  case False
  obtain e where e: "previous_guard p actual call = Inr (Some e)" using previous_guard_reject [OF False, of call] by metis
  moreover have "previous_guard p actual (Inr () :: unit + unit) = Inr (Some e)"
    using e False by (cases p; cases actual) (auto simp: previous_guard_def Let_def split: if_splits)
  ultimately show ?thesis using assms False by (auto simp: guarded_def)
qed

definition op_of :: "('o, 'b) urn_env \<Rightarrow> multibase \<Rightarrow> ('o ref_name \<Rightarrow> 'o option) \<Rightarrow> 'o update \<Rightarrow> (string \<times> 'o option) list" where
  "op_of E M R up =
     (if up_holds R up \<and> (up_value up = None \<longrightarrow> R (up_name up) \<noteq> None)
      then [(tracking_refname E M (up_name up), up_value up)] else [])"

definition txn_does :: "'o txn \<Rightarrow> (string \<times> 'o option) list \<Rightarrow> 'o updated list \<Rightarrow> 'o previous_error list \<Rightarrow> 'o txn \<Rightarrow> bool" where
  "txn_does t ops ups rejs t' =
     (tx_ops t' = tx_ops t @ ops \<and> tx_updates t' = tx_updates t @ ups \<and> tx_rejections t' = tx_rejections t @ rejs)"

lemma write_step_law:
  assumes "storage_ok G E M s" "ref_name_ok n" "update_step G E M s (Write_update n target p) t = Some (Inr t')"
  shows "let R = sto_tracking E M s; up = Write_update n target p in
    txn_does t (op_of E M R up) (up_updated R up) (up_rejected R up) t'"
proof -
  let ?R = "sto_tracking E M s" and ?name = "tracking_refname E M n"
  note name = refstring_from_ref_name_total [OF storage_okD(2,3) [OF assms(1)] assms(2)]
  have get: "Option.bind (bmap_get (sto_refs s) ?name) target_oid = ?R n" using assms(2) by (simp add: sto_tracking_def)
  let ?t = "t\<lparr>tx_locked := ?name # tx_locked t\<rparr>"
  obtain rej t1 where g: "guarded p (?R n) (git_try G s (Call_set_target ?name target) (Write_error ?name target)) (?name, Some target) ?t = Inr (rej, t1)"
    and t': "t' = reject_or_update (case rej of None \<Rightarrow> Inr (Written n target) | Some e \<Rightarrow> Inl e) t1"
    using assms(3) name get by (auto simp: sto_reference_def Let_def split: option.splits)
  from guarded_Inr [OF g] t' show ?thesis
    by (auto simp: txn_does_def op_of_def up_holds_def up_rejected_def reject_or_update_def previous_guard_ok)
qed

lemma delete_step_law:
  assumes "storage_ok G E M s" "ref_name_ok n" "update_step G E M s (Delete_update n p) t = Some (Inr t')"
  shows "let R = sto_tracking E M s; up = Delete_update n p in
    txn_does t (op_of E M R up) (up_updated R up) (up_rejected R up) t'"
proof -
  let ?R = "sto_tracking E M s" and ?name = "tracking_refname E M n"
  note name = refstring_from_ref_name_total [OF storage_okD(2,3) [OF assms(1)] assms(2)]
  have get: "bmap_get (sto_refs s) ?name = map_option Direct_ref (?R n)" using sto_get_oid [OF assms(1,2)] .
  let ?t = "t\<lparr>tx_locked := ?name # tx_locked t\<rparr>"
  show ?thesis
  proof (cases "?R n")
    case None
    then show ?thesis using assms(3) name get
      by (cases p) (auto simp: sto_reference_def Let_def txn_does_def op_of_def up_holds_def up_rejected_def
          reject_or_update_def previous_guard_def)
  next
    case (Some oid)
    obtain rej t1 where g: "guarded p (Some oid) (git_try G s (Call_remove ?name) (Delete_error ?name)) (?name, None) ?t = Inr (rej, t1)"
      and t': "t' = reject_or_update (case rej of None \<Rightarrow> Inr (Deleted n oid) | Some e \<Rightarrow> Inl e) t1"
      using assms(3) name get Some by (auto simp: sto_reference_def Let_def)
    from guarded_Inr [OF g] t' Some show ?thesis
      by (auto simp: txn_does_def op_of_def up_holds_def up_rejected_def reject_or_update_def previous_guard_ok)
  qed
qed

lemma update_step_law:
  assumes "storage_ok G E M s" "ref_name_ok (up_name up)" "update_step G E M s up t = Some (Inr t')"
  shows "let R = sto_tracking E M s in txn_does t (op_of E M R up) (up_updated R up) (up_rejected R up) t'"
proof (cases up)
  case (Write_update n target p)
  show ?thesis
    using write_step_law [OF assms(1) _ assms(3) [unfolded Write_update]] assms(2) unfolding Write_update
    by (simp only: up_name.simps Let_def)
next
  case (Delete_update n p)
  show ?thesis
    using delete_step_law [OF assms(1) _ assms(3) [unfolded Delete_update]] assms(2) unfolding Delete_update
    by (simp only: up_name.simps Let_def)
qed

lemma update_step_total:
  assumes "storage_ok G E M s" "ref_name_ok (up_name up)"
  shows "update_step G E M s up t \<noteq> None"
  using refstring_from_ref_name_total [OF storage_okD(2,3) [OF assms(1)] assms(2)] by (cases up) simp_all

lemma update_loop_law:
  assumes "storage_ok G E M s" "\<forall>up \<in> set ups. ref_name_ok (up_name up)"
  shows "update_loop G E M s ups t \<noteq> None"
    and "update_loop G E M s ups t = Some (Inr t') \<Longrightarrow>
      (let R = sto_tracking E M s in
       txn_does t (concat (map (op_of E M R) ups)) (concat (map (up_updated R) ups)) (concat (map (up_rejected R) ups)) t')"
proof -
  show "update_loop G E M s ups t \<noteq> None"
    using assms(2)
  proof (induction ups arbitrary: t)
    case (Cons up ups)
    then obtain r where "update_step G E M s up t = Some r" using update_step_total [OF assms(1), of up t] by auto
    then show ?case using Cons by (cases r) simp_all
  qed simp
  show "let R = sto_tracking E M s in
      txn_does t (concat (map (op_of E M R) ups)) (concat (map (up_updated R) ups)) (concat (map (up_rejected R) ups)) t'"
    if "update_loop G E M s ups t = Some (Inr t')"
    using assms(2) that
  proof (induction ups arbitrary: t)
    case (Cons up ups)
    then obtain t1 where t1: "update_step G E M s up t = Some (Inr t1)" "update_loop G E M s ups t1 = Some (Inr t')"
      by (auto split: Option.bind_splits sum.splits)
    have "let R = sto_tracking E M s in txn_does t (op_of E M R up) (up_updated R up) (up_rejected R up) t1"
      using update_step_law [OF assms(1) _ t1(1)] Cons.prems(1) by simp
    then show ?case using Cons.IH [OF _ t1(2)] Cons.prems(1) by (simp add: txn_does_def Let_def)
  qed (simp add: txn_does_def)
qed

text \<open>The commit of a transaction.\<close>

definition put_op :: "string \<times> 'o option \<Rightarrow> (string \<Rightarrow> 'o git_target option) \<Rightarrow> string \<Rightarrow> 'o git_target option" where
  "put_op op g = g(fst op := map_option Direct_ref (snd op))"

lemma fold_apply_op:
  "bmap_ok m \<Longrightarrow> bmap_ok (fold apply_op ops m)
    \<and> bmap_get (fold apply_op ops m) = fold put_op ops (bmap_get m)"
proof (induction ops arbitrary: m)
  case (Cons op ops)
  have "bmap_ok (apply_op op m)" "bmap_get (apply_op op m) = put_op op (bmap_get m)"
    using Cons.prems bmap.lookup_insert [OF Cons.prems] bmap.lookup_remove [OF Cons.prems]
    by (auto simp: apply_op_def put_op_def split: option.splits)
  with Cons.IH [of "apply_op op m"] show ?case by simp
qed simp

definition tracking_of :: "('o, 'b) urn_env \<Rightarrow> multibase \<Rightarrow> (string \<Rightarrow> 'o git_target option) \<Rightarrow> 'o ref_name \<Rightarrow> 'o option" where
  "tracking_of E M g n = (if ref_name_ok n then Option.bind (g (tracking_refname E M n)) target_oid else None)"

lemma sto_tracking_of: "sto_tracking E M s = tracking_of E M (bmap_get (sto_refs s))"
  by (simp add: sto_tracking_def tracking_of_def fun_eq_iff)

lemma tracking_of_upd:
  assumes "urn_env_ok E" "multibase_ok M" "ref_name_ok n"
  shows "tracking_of E M (g(tracking_refname E M n := map_option Direct_ref v)) = (tracking_of E M g)(n := v)"
proof
  fix m
  show "tracking_of E M (g(tracking_refname E M n := map_option Direct_ref v)) m = ((tracking_of E M g)(n := v)) m"
    using tracking_refname_inj [OF assms(1,2) _ assms(3), of m] assms(3)
    by (cases v) (auto simp: tracking_of_def)
qed

lemma tracking_of_ops:
  assumes "urn_env_ok E" "multibase_ok M" "\<forall>up \<in> set ups. ref_name_ok (up_name up)"
  shows "tracking_of E M (fold put_op (concat (map (op_of E M R) ups)) g)
    = fold (up_effect R) ups (tracking_of E M g)"
  using assms(3)
proof (induction ups arbitrary: g)
  case (Cons up ups)
  have n: "ref_name_ok (up_name up)" using Cons.prems by simp
  have "tracking_of E M (fold put_op (op_of E M R up) g)
      = up_effect R up (tracking_of E M g)"
    using tracking_of_upd [OF assms(1,2) n, of g "up_value up"] by (auto simp: op_of_def up_effect_def put_op_def)
  with Cons show ?case by simp
qed simp

text \<open>References below the base stay well formed.\<close>

definition refs_good :: "'o git_env \<Rightarrow> ('o::linorder, 'b) urn_env \<Rightarrow> multibase \<Rightarrow> 'o storage \<Rightarrow> (string \<Rightarrow> 'o git_target option) \<Rightarrow> bool" where
  "refs_good G E M s g =
     (\<forall>name t. g name = Some t \<longrightarrow> prefix (tracking_base @ ''/'') name \<longrightarrow>
        (\<exists>n oid c. ref_name_ok n \<and> name = tracking_refname E M n \<and> t = Direct_ref oid
           \<and> sto_configs G E s oid = Some c \<and> sto_valid G E c))"

lemma refs_ok_good: "refs_ok G E M s \<longleftrightarrow> bmap_ok (sto_refs s) \<and> refs_good G E M s (bmap_get (sto_refs s))"
  by (simp add: refs_ok_def refs_good_def)

lemma refs_good_upd:
  assumes "refs_good G E M s g"
    and "\<And>t. prefix (tracking_base @ ''/'') name \<Longrightarrow> v = Some t \<Longrightarrow>
      \<exists>n oid c. ref_name_ok n \<and> name = tracking_refname E M n \<and> t = Direct_ref oid
        \<and> sto_configs G E s oid = Some c \<and> sto_valid G E c"
  shows "refs_good G E M s (g(name := v))"
  using assms unfolding refs_good_def by simp

lemma refs_good_ops:
  assumes "\<forall>up \<in> set ups. ref_name_ok (up_name up)
      \<and> (\<forall>t. up_value up = Some t \<longrightarrow> (\<exists>c. sto_configs G E s t = Some c \<and> sto_valid G E c))"
    and "refs_good G E M s g"
  shows "refs_good G E M s (fold put_op (concat (map (op_of E M R) ups)) g)"
  using assms
proof (induction ups arbitrary: g)
  case (Cons up ups)
  have "refs_good G E M s (g(tracking_refname E M (up_name up) := map_option Direct_ref (up_value up)))"
  proof (rule refs_good_upd [OF Cons.prems(2)])
    fix t assume "map_option Direct_ref (up_value up) = Some t"
    then obtain oid where "up_value up = Some oid" "t = Direct_ref oid" by (cases "up_value up") auto
    then show "\<exists>n oid c. ref_name_ok n \<and> tracking_refname E M (up_name up) = tracking_refname E M n \<and> t = Direct_ref oid
        \<and> sto_configs G E s oid = Some c \<and> sto_valid G E c"
      using Cons.prems(1) by auto
  qed
  then have "refs_good G E M s (fold put_op (op_of E M R up) g)"
    using Cons.prems(2) by (simp add: op_of_def put_op_def)
  then show ?case using Cons.IH Cons.prems(1) by simp
qed simp

lemma sto_update_total:
  "storage_ok G E M s \<Longrightarrow> \<forall>up \<in> set ups. ref_name_ok (up_name up) \<Longrightarrow> sto_update G E M s ups \<noteq> None"
  using update_loop_law(1) [of G E M s ups txn_empty] by (auto simp: sto_update_def split: sum.splits)

lemma sto_commit_refs:
  assumes "storage_ok G E M s" "sto_commit G s ops = (None, s')"
    and "refs_good G E M s (fold put_op ops (bmap_get (sto_refs s)))"
  shows "storage_ok G E M s' \<and> sto_configs G E s' = sto_configs G E s
    \<and> bmap_get (sto_refs s') = fold put_op ops (bmap_get (sto_refs s))"
proof -
  have s': "s' = s\<lparr>sto_refs := fold apply_op ops (sto_refs s)\<rparr>"
    using assms(2) storage_okD(1) [OF assms(1)] by (auto simp: sto_commit_def git_env_ok_def split: prod.splits)
  have ok: "bmap_ok (sto_refs s)" using storage_okD(5) [OF assms(1)] by (simp add: refs_ok_def)
  note f = fold_apply_op [OF ok, of ops]
  have c: "sto_configs G E s' = sto_configs G E s" using s' by (simp add: sto_configs_def fun_eq_iff)
  have "refs_good G E M s' (bmap_get (sto_refs s'))" using assms(3) f s' c by (simp add: refs_good_def)
  moreover have "objs_ok G s'" using storage_okD(4) [OF assms(1)] s' by (simp add: objs_ok_def)
  ultimately show ?thesis using f s' c storage_okD [OF assms(1)] by (simp add: storage_ok_def refs_ok_good)
qed

lemma sto_update_law:
  assumes "storage_ok G E M s"
    and "\<forall>up \<in> set ups. ref_name_ok (up_name up)
      \<and> (\<forall>t. up_value up = Some t \<longrightarrow> (\<exists>c. sto_configs G E s t = Some c \<and> sto_valid G E c))"
    and "sto_update G E M s ups = Some (Inr a, s')"
  shows "storage_ok G E M s' \<and> sto_configs G E s' = sto_configs G E s
    \<and> sto_tracking E M s' = fold (up_effect (sto_tracking E M s)) ups (sto_tracking E M s)
    \<and> ap_updates a = concat (map (up_updated (sto_tracking E M s)) ups)
    \<and> ap_rejections a = concat (map (up_rejected (sto_tracking E M s)) ups)"
proof -
  let ?R = "sto_tracking E M s"
  obtain t where t: "update_loop G E M s ups txn_empty = Some (Inr t)" "sto_commit G s (tx_ops t) = (None, s')"
    and a: "a = \<lparr>ap_updates = tx_updates t, ap_rejections = tx_rejections t\<rparr>"
    using assms(3) by (auto simp: sto_update_def split: sum.splits Option.bind_splits prod.splits option.splits)
  have d: "tx_ops t = concat (map (op_of E M ?R) ups)" "tx_updates t = concat (map (up_updated ?R) ups)"
    "tx_rejections t = concat (map (up_rejected ?R) ups)"
    using update_loop_law(2) [OF assms(1) _ t(1)] assms(2) by (simp_all add: txn_does_def txn_empty_def Let_def)
  have g: "refs_good G E M s (bmap_get (sto_refs s))" using storage_okD(5) [OF assms(1)] by (simp add: refs_ok_good)
  note c = sto_commit_refs [OF assms(1) t(2), unfolded d(1), OF refs_good_ops [OF assms(2) g]]
  have "sto_tracking E M s' = fold (up_effect ?R) ups ?R"
    using tracking_of_ops [OF storage_okD(2,3) [OF assms(1)], of ups ?R "bmap_get (sto_refs s)"] c assms(2)
    by (simp add: sto_tracking_of)
  then show ?thesis using c a d by simp
qed

lemma sto_update_error:
  "sto_update G E M s ups = Some (Inl e, s') \<Longrightarrow> \<not> sto_partial e \<Longrightarrow> s' = s"
  by (auto simp: sto_update_def sto_partial_def split: sum.splits Option.bind_splits prod.splits option.splits)

text \<open>Pruning removes references of namespaces, none of which is a tracking reference.\<close>

lemma prune_glob_plain:
  assumes "storage_ok G E M s" "peer_ok peer" "urn_path u = None"
  obtains p where "prune_glob E M u peer = Some (p @ ''/*'')" "glob_plain p" "prefix ''refs/namespaces'' p"
proof -
  have "is_refstr (urn_encode_id E u)"
    using urn_envD(1,2) [OF storage_okD(2) [OF assms(1)], of u] by (intro component_refstr)
  then have u: "reflike_from_urn E u = Some (urn_encode_id E u)"
    using assms(3) reflike_try_from_iff [of "urn_encode_id E u" "urn_encode_id E u"] by (simp add: reflike_from_urn_def)
  let ?ns = "''refs/namespaces'' @ ''/'' @ urn_encode_id E u"
  have l: "glob_plain ''refs/namespaces''" "glob_plain ''refs/remotes''" by code_simp+
  then have ns: "glob_plain ?ns" using encoding_plain [OF storage_okD(1) [OF assms(1)], of u] by simp
  show thesis
  proof (cases peer)
    case None
    then show thesis using that [of ?ns] u ns
      by (simp add: prune_glob_def reflike_join_def reflike_with_pattern_suffix_def prefix_def)
  next
    case (Some k)
    have k: "reflike_from_peer M k = Some (peer_default_encoding M k)"
      using peer_component(2) storage_okD(3) [OF assms(1)] assms(2) Some by simp
    let ?p = "?ns @ ''/'' @ ''refs/remotes'' @ ''/'' @ peer_default_encoding M k"
    have "glob_plain ?p" using ns l peer_plain [OF storage_okD(3) [OF assms(1)], of k] by simp
    then show thesis using that [of ?p] u k Some
      by (simp add: prune_glob_def reflike_join_def reflike_with_pattern_suffix_def prefix_def)
  qed
qed

lemma prune_loop_removed:
  "prune_loop G s rs locked = Inr (removed, pruned) \<Longrightarrow> name \<in> set removed \<Longrightarrow>
   name \<in> set locked \<or> (\<exists>t. Inr (name, t) \<in> set rs)"
  by (induction G s rs locked arbitrary: removed pruned rule: prune_loop.induct) fastforce+

lemma put_other:
  assumes "\<forall>name \<in> set names. \<not> prefix (tracking_base @ ''/'') name"
  shows "tracking_of E M (fold put_op (map (\<lambda>name. (name, None)) names) g) = tracking_of E M g"
    and "refs_good G E M s g \<Longrightarrow> refs_good G E M s (fold put_op (map (\<lambda>name. (name, None)) names) g)"
proof -
  have one: "tracking_of E M (put_op (name, None) g) = tracking_of E M g" if "\<not> prefix (tracking_base @ ''/'') name" for name g
    using that refname_prefix by (auto simp: tracking_of_def put_op_def fun_eq_iff)
  show "tracking_of E M (fold put_op (map (\<lambda>name. (name, None)) names) g) = tracking_of E M g"
    using assms by (induction names arbitrary: g) (simp_all add: one)
  show "refs_good G E M s (fold put_op (map (\<lambda>name. (name, None)) names) g)" if "refs_good G E M s g"
  proof -
    have del: "refs_good G E M s (put_op (name, None) g)" if "refs_good G E M s g" for name g
      using that by (simp add: refs_good_def put_op_def)
    show ?thesis using that by (induction names arbitrary: g) (simp_all add: del)
  qed
qed

lemma sto_prune_law:
  assumes "storage_ok G E M s" "peer_ok peer" "urn_path u = None"
  shows "sto_prune G E M s u peer \<noteq> None"
    and "sto_prune G E M s u peer = Some (pr, s') \<Longrightarrow> (\<And>e. pr = Inl e \<Longrightarrow> \<not> sto_partial e) \<Longrightarrow>
      storage_ok G E M s' \<and> sto_tracking E M s' = sto_tracking E M s \<and> sto_configs G E s' = sto_configs G E s"
proof -
  obtain p where p: "prune_glob E M u peer = Some (p @ ''/*'')" "glob_plain p" "prefix ''refs/namespaces'' p"
    using prune_glob_plain [OF assms] .
  note glob = sto_glob [OF storage_okD(1) [OF assms(1)] p(2)]
  show "sto_prune G E M s u peer \<noteq> None" using p(1) glob(1) by (simp add: sto_prune_def)
  assume pr: "sto_prune G E M s u peer = Some (pr, s')" "\<And>e. pr = Inl e \<Longrightarrow> \<not> sto_partial e"
  show "storage_ok G E M s' \<and> sto_tracking E M s' = sto_tracking E M s \<and> sto_configs G E s' = sto_configs G E s"
  proof (cases pr)
    case (Inl e)
    then have "s' = s" using pr p(1) glob(1)
      by (auto simp: sto_prune_def sto_partial_def split: sum.splits prod.splits option.splits)
    then show ?thesis using assms(1) by simp
  next
    case (Inr pruned)
    obtain rs removed where rs: "references_glob G s (p @ ''/*'') = Inr rs" and r: "prune_loop G s rs [] = Inr (removed, pruned)"
      and c: "sto_commit G s (map (\<lambda>name. (name, None)) (rev removed)) = (None, s')"
      using pr(1) p(1) glob(1) Inr
      by (auto simp: sto_prune_def split: sum.splits prod.splits option.splits)
    have ok: "bmap_ok (sto_refs s)" and good: "refs_good G E M s (bmap_get (sto_refs s))"
      using storage_okD(5) [OF assms(1)] by (simp_all add: refs_ok_good)
    have "\<not> prefix (tracking_base @ ''/'') name" if rem: "name \<in> set (rev removed)" for name
    proof -
      obtain t where "Inr (name, t) \<in> set rs" using prune_loop_removed [OF r, of name] rem by auto
      then have "prefix (p @ ''/'') name" using references_glob_Inr [OF rs ok] glob(2) by blast
      then have "prefix ''refs/namespaces'' name"
        using p(3) append_prefixD prefix_order.trans by blast
      then show ?thesis by (auto simp: tracking_base_def prefix_def)
    qed
    then have n: "\<forall>name \<in> set (rev removed). \<not> prefix (tracking_base @ ''/'') name" by blast
    note res = sto_commit_refs [OF assms(1) c put_other(2) [OF n good]]
    then show ?thesis using put_other(1) [OF n] by (simp add: sto_tracking_of)
  qed
qed

section \<open>The interpretation\<close>

lemma sto_refspec_all_law:
  assumes "storage_ok G E M s" "remotes_refspec E None = Some spec"
  shows "sto_names G E M spec n"
proof -
  have "glob_plain tracking_base" by code_simp
  then show ?thesis
    using sto_refspec_law [OF assms(1), of None] assms(2) sto_glob(2) [OF storage_okD(1) [OF assms(1)], of tracking_base]
      refname_prefix by (simp add: sto_names_def)
qed

lemma sto_configured:
  assumes "storage_ok G E M s" "sto_tracking E M s n = Some t"
  shows "\<exists>c. sto_configs G E s t = Some c \<and> sto_valid G E c"
proof -
  have n: "ref_name_ok n" using assms(2) by (simp add: sto_tracking_def split: if_splits)
  have "bmap_get (sto_refs s) (tracking_refname E M n) = Some (Direct_ref t)"
    using sto_get_oid [OF assms(1) n] assms(2) by simp
  then show ?thesis by (rule sto_get [OF assms(1) n]) auto
qed

lemma sto_config_total: "sto_find_config G E s t \<noteq> None" "sto_write_config G E s c \<noteq> None"
  by (auto simp: sto_find_config_def sto_write_config_def Let_def split: sum.splits option.splits)

lemma sto_store:
  fixes G :: "'o::linorder git_env" and E :: "('o, 'b) urn_env"
  shows "tracking_store (sto_db G E M) (storage_ok G E M) (sto_tracking E M) (sto_configs G E)
    (sto_valid G E) sto_partial (sto_names G E M) E"
proof (unfold_locales, goal_cases)
  case 1 then show ?case by (simp add: sto_refspec_law)
next case 2 then show ?case using sto_refspec_all_law by blast
next case 3 then show ?case using sto_refspec_urn_law by blast
next case 4 then show ?case using sto_find_reference_law(1) by (simp add: sto_db_def)
next case 5 then show ?case using sto_find_reference_law(2) by (simp add: sto_db_def)
next case 6 then show ?case using sto_references_total_law by (simp add: sto_db_def)
next case 7 then show ?case using sto_references_law by (simp add: sto_db_def)
next case 8 then show ?case using sto_references_complete_law by (simp add: sto_db_def)
next case 9 then show ?case using sto_config_total(1) by (simp add: sto_db_def)
next case 10 then show ?case using sto_find_config_law by (simp add: sto_db_def)
next case 11 then show ?case using sto_config_total(2) by (simp add: sto_db_def)
next case 12 then show ?case using sto_write_config_law by (simp add: sto_db_def)
next case 13 then show ?case using sto_modify_config_total by (simp add: sto_db_def)
next case 14 then show ?case using sto_modify_config_law by (simp add: sto_db_def)
next case 15 then show ?case using sto_update_total by (simp add: sto_db_def)
next case 16 then show ?case using sto_update_law [OF 16(1,2)] by (simp add: sto_db_def)
next case 17 then show ?case using sto_update_error by (simp add: sto_db_def)
next case 18 then show ?case using sto_prune_law(1) by (simp add: sto_db_def)
next case 19 then show ?case using sto_prune_law(2) [OF 19(1-3)] by (simp add: sto_db_def)
next case 20 then show ?case using sto_configured by blast
qed

interpretation sto: tracking_store "sto_db G E M" "storage_ok G E M" "sto_tracking E M" "sto_configs G E"
    "sto_valid G E" sto_partial "sto_names G E M" E
  for G :: "'o::linorder git_env" and E :: "('o, 'b) urn_env" and M :: multibase
  by (rule sto_store)

text \<open>A repository in which no call fails but to lock a name twice.\<close>

definition git_reliable :: "'o git_env \<Rightarrow> bool" where
  "git_reliable G =
     ((\<forall>s call. (\<forall>locked name. call = Call_lock locked name \<longrightarrow> name \<notin> set locked) \<longrightarrow> git_fails G s call = None)
      \<and> (\<forall>refs ops. fst (git_commit G refs ops) = None))"

lemma git_reliableD [simp]:
  assumes "git_reliable G"
  shows "git_fails G s (Call_find_ref name) = None" "git_fails G s (Call_find_object oid) = None"
    "git_fails G s (Call_blob content) = None" "git_fails G s Call_transaction = None"
    "git_fails G s (Call_lock [] name) = None" "git_fails G s (Call_set_target name oid) = None"
    "git_fails G s (Call_remove name) = None" "fst (git_commit G refs ops) = None"
  using assms by (simp_all add: git_reliable_def)

lemma guarded_ok:
  "\<exists>rej t'. guarded p actual (Inr ()) op t = Inr (rej, t')"
  by (cases p; cases actual) (auto simp: guarded_def previous_guard_def Let_def)

lemma sto_update_live:
  assumes "git_reliable G" "storage_ok G E M s" "ref_name_ok (up_name up)"
  shows "\<exists>a s'. sto_update G E M s [up] = Some (Inr a, s')"
proof -
  note name = refstring_from_ref_name_total [OF storage_okD(2,3) [OF assms(2)] assms(3)]
  note get = sto_get_oid [OF assms(2,3)]
  note live = git_reliableD [OF assms(1)]
  have "\<exists>t. update_step G E M s up txn_empty = Some (Inr t)"
  proof (cases up)
    case (Write_update n target p)
    obtain rej t' where "guarded p (sto_tracking E M s n) (Inr ()) (tracking_refname E M n, Some target)
        (txn_empty\<lparr>tx_locked := [tracking_refname E M n]\<rparr>) = Inr (rej, t')" using guarded_ok by blast
    then show ?thesis using name get live Write_update
      by (cases "sto_tracking E M s n") (auto simp: git_try_def sto_reference_def txn_empty_def)
  next
    case (Delete_update n p)
    obtain rej t' where "guarded p (sto_tracking E M s n) (Inr ()) (tracking_refname E M n, None)
        (txn_empty\<lparr>tx_locked := [tracking_refname E M n]\<rparr>) = Inr (rej, t')" using guarded_ok by blast
    then show ?thesis using name get live Delete_update
      by (cases "sto_tracking E M s n"; cases p) (auto simp: git_try_def sto_reference_def txn_empty_def)
  qed
  then obtain t where t: "update_step G E M s up txn_empty = Some (Inr t)" by blast
  obtain refs where "git_commit G (sto_refs s) (tx_ops t) = (None, refs)"
    using live(8) by (metis prod.collapse)
  then show ?thesis using t live(4) by (simp add: sto_update_def git_try_def sto_commit_def)
qed

interpretation sto_live: live_store "sto_db G E M" "storage_ok G E M" "sto_tracking E M" "sto_configs G E"
    "sto_valid G E" sto_partial "sto_names G E M" E "git_reliable G"
  for G :: "'o::linorder git_env" and E :: "('o, 'b) urn_env" and M :: multibase
proof (unfold_locales, goal_cases)
  case (1 s n)
  then show ?case using refstring_from_ref_name_total [OF storage_okD(2,3) [OF 1(2)] 1(3)] sto_get_oid [OF 1(2,3)]
    by (cases "sto_tracking E M s n") (simp_all add: sto_db_def sto_find_reference_def sto_reference_def git_try_def)
next
  case (2 s n t)
  obtain c where "sto_configs G E s t = Some c" using sto_configured [OF 2(2,3)] by blast
  then show ?case using 2(1)
    by (auto simp: sto_db_def sto_find_config_def sto_configs_def git_try_def
        split: if_splits option.splits git_object.splits sum.splits)
next
  case 3
  then show ?case by (simp add: sto_db_def sto_write_config_def git_try_def Let_def)
next
  case 4
  then show ?case using sto_update_live [OF 4] by (simp add: sto_db_def)
qed

text \<open>The tracking entries that a repository holds.\<close>

definition sto_entries ::
  "'o git_env \<Rightarrow> ('o::linorder, 'b) urn_env \<Rightarrow> multibase \<Rightarrow> 'o storage \<Rightarrow> 'o ref_name \<Rightarrow> 'o config option" where
  "sto_entries G E M s n = Option.bind (sto_tracking E M s n) (sto_configs G E s)"

lemma sto_entries_eq: "tracking_store.entries (sto_tracking E M) (sto_configs G E) = sto_entries G E M"
  by (simp add: sto.entries_def sto_entries_def fun_eq_iff)

lemmas sto_track = sto.track_spec [unfolded sto_entries_eq]
  and sto_modify = sto.modify_spec [unfolded sto_entries_eq]
  and sto_untrack = sto.untrack_spec [unfolded sto_entries_eq]
  and sto_get_entry = sto.get_spec [unfolded sto_entries_eq]
  and sto_is_tracked = sto.is_tracked_spec [unfolded sto_entries_eq]
  and sto_default_only = sto.default_only_spec [unfolded sto_entries_eq]
  and sto_tracked = sto.tracked_spec [unfolded sto_entries_eq]
  and sto_tracked_peers = sto.tracked_peers_spec [unfolded sto_entries_eq]
  and sto_untrack_all = sto.untrack_all_spec [unfolded sto_entries_eq]
  and sto_batch = sto.batch_spec [unfolded sto_entries_eq]
  and sto_live_get = sto_live.get_live [unfolded sto_entries_eq]
  and sto_live_is_tracked = sto_live.is_tracked_live [unfolded sto_entries_eq]
  and sto_live_track = sto_live.track_live [unfolded sto_entries_eq]
  and sto_live_untrack = sto_live.untrack_live [unfolded sto_entries_eq]

section \<open>Properties\<close>

text \<open>
  A repository for the examples: identifiers are strings and rendered two characters per byte,
  the hash of a blob is its content behind a mark, and no call fails.
\<close>

fun hex_encode :: "string \<Rightarrow> string" where
  "hex_encode [] = []"
| "hex_encode (c # cs) = zbase32 ! (of_char c div 16) # zbase32 ! (of_char c mod 16) # hex_encode cs"

fun hex_decode :: "string \<Rightarrow> string" where
  "hex_decode (a # b # cs) = char_of (index_of a zbase32 * 16 + index_of b zbase32) # hex_decode cs"
| "hex_decode _ = []"

definition repo_urn_env :: "(string, string) urn_env" where
  "repo_urn_env =
     \<lparr>protocol = ''git'', into_multihash = id, from_multihash = Some, multihash_from_bytes = Some,
      multibase_encode = \<lambda>b. CHR ''h'' # hex_encode b,
      multibase_decode = \<lambda>s. Some (hex_decode (tl s)),
      utf8_percent_encode = \<lambda>s _. s, percent_decode_utf8 = Some\<rparr>"

definition repo_parse :: "string \<Rightarrow> string + json_value" where
  "repo_parse s =
     (if s = config_canonical_form repo_urn_env config_default then Inr (config_into_cjson repo_urn_env config_default)
      else Inl ''invalid'')"

definition repo_env :: "string git_env" where
  "repo_env =
     \<lparr>git_fails = \<lambda>_ _. None, git_commit = \<lambda>refs ops. (None, fold apply_op ops refs),
      git_zero = [], git_blob = Cons (CHR ''x''), git_utf8 = \<lambda>_. True, glob_valid = \<lambda>_. True,
      glob_is_match = \<lambda>glob name. if suffix ''/*'' glob then prefix (butlast glob) name else glob = name,
      json_parse = repo_parse\<rparr>"

definition repo_empty :: "string storage" where
  "repo_empty = \<lparr>sto_refs = bmap_empty, sto_objs = bmap_empty\<rparr>"

lemma hex_digits: "(of_char c :: nat) div 16 < 32" "(of_char c :: nat) mod 16 < 32"
  using nat_of_char_less_256 [of c] pos_mod_bound [of 16 "of_char c"] by linarith+

lemma hex_decode_encode: "hex_decode (hex_encode s) = s"
proof (induction s)
  case (Cons c s)
  have z: "distinct zbase32" "length zbase32 = 32" by code_simp+
  have i: "index_of (zbase32 ! (of_char c div 16)) zbase32 = of_char c div 16"
    "index_of (zbase32 ! (of_char c mod 16)) zbase32 = of_char c mod 16"
    using hex_digits [of c] z(2) by (auto intro: index_of_nth [OF z(1)])
  have "char_of (of_char c div 16 * 16 + of_char c mod 16 :: nat) = c" by (simp only: div_mult_mod_eq char_of_char)
  then show ?case using Cons i by simp
qed simp

lemma hex_encode_zbase32: "set (hex_encode s) \<subseteq> set zbase32"
proof (induction s)
  case (Cons c s)
  have "length zbase32 = 32" by code_simp
  then have "zbase32 ! (of_char c div 16) \<in> set zbase32" "zbase32 ! (of_char c mod 16) \<in> set zbase32"
    using hex_digits [of c] by (auto intro: nth_mem)
  with Cons show ?case by simp
qed simp

lemma repo_encode:
  "set (CHR ''h'' # hex_encode s) \<subseteq> set zbase32" "is_component (CHR ''h'' # hex_encode s)"
  "list_all is_alnum (CHR ''h'' # hex_encode s)" "CHR ''%'' \<notin> set (hex_encode s)" "CHR 0x22 \<notin> set (hex_encode s)"
proof -
  have h: "CHR ''h'' \<in> set zbase32" "list_all is_alnum zbase32" "CHR ''%'' \<notin> set zbase32" "CHR 0x22 \<notin> set zbase32" by code_simp+
  then show s: "set (CHR ''h'' # hex_encode s) \<subseteq> set zbase32" using hex_encode_zbase32 by auto
  show "is_component (CHR ''h'' # hex_encode s)" by (rule zbase32_component [OF _ s]) simp
  show "list_all is_alnum (CHR ''h'' # hex_encode s)" using s h(2) by (auto simp: list_all_iff)
  show "CHR ''%'' \<notin> set (hex_encode s)" "CHR 0x22 \<notin> set (hex_encode s)" using h(3,4) hex_encode_zbase32 by auto
qed

lemma repo_urn_env_ok: "urn_env_ok repo_urn_env"
  using repo_encode by (simp add: urn_env_ok_def repo_urn_env_def hex_decode_encode)

lemma repo_env_ok: "git_env_ok repo_env repo_urn_env"
  using repo_encode(3) by (simp add: git_env_ok_def repo_env_def repo_urn_env_def butlast_append suffix_def)

lemma repo_reliable: "git_reliable repo_env"
  by (simp add: git_reliable_def repo_env_def)

lemma repo_empty_ok: "storage_ok repo_env repo_urn_env example_multibase repo_empty"
  using repo_env_ok repo_urn_env_ok example_multibase_ok
  by (simp add: storage_ok_def objs_ok_def refs_ok_def repo_empty_def bmap.lookup_empty)

lemma repo_no_entries: "sto_entries repo_env repo_urn_env example_multibase repo_empty = (\<lambda>_. None)"
  by (simp add: sto_entries_def sto_tracking_def repo_empty_def bmap.lookup_empty fun_eq_iff)

lemma example_key_ok: "is_key example_key"
  by code_simp

lemma peer_ok_key: "peer_ok (Some example_key)"
  using example_key_ok by simp

lemma repo_valid: "sto_valid repo_env repo_urn_env config_default"
proof -
  have "config_ok (config_default :: string config)" by code_simp
  from config_roundtrip [OF repo_urn_env_ok this] show ?thesis
    by (simp add: sto_valid_def repo_env_def repo_parse_def config_try_from_bytes_def)
qed

text \<open>
  C8: on a repository, tracking, modifying and untracking act on the entries as their policies say,
  and none of them panics. A success carries out exactly the action on the map of entries and
  reports a rejection exactly when the policy does not hold of the entry before; an error leaves
  all entries as they were, unless it comes from the commit of the transaction or, for
  untracking, from pruning; modifying fails with \<open>DidNotExist\<close> only when there is no entry.
\<close>

theorem tracking_writes:
  assumes "storage_ok G E M s" "is_key k" "peer_ok peer" "sto_valid G E c"
    and "\<forall>c. sto_valid G E c \<longrightarrow> sto_valid G E (f c)" "ua_prune args \<longrightarrow> urn_path u = None"
  shows "(\<exists>r s'. track (sto_db G E M) s u peer c p = Some (r, s')
      \<and> (\<forall>x. r = Inr x \<longrightarrow> storage_ok G E M s'
          \<and> sto_entries G E M s' = run_action (Track_action u peer c p) (sto_entries G E M s)
          \<and> (is_ok x \<longleftrightarrow> holds_for (track_previous p) (sto_entries G E M s (ref_name_new u peer))))
      \<and> (\<forall>e. r = Inl e \<longrightarrow> (\<forall>n d. e = Track_Create n d \<longrightarrow> \<not> sto_partial d) \<longrightarrow>
          storage_ok G E M s' \<and> sto_entries G E M s' = sto_entries G E M s))
    \<and> (\<exists>r s'. modify (sto_db G E M) s u peer f = Some (r, s')
      \<and> (\<forall>x. r = Inr x \<longrightarrow> storage_ok G E M s' \<and> is_ok x
          \<and> (\<exists>c. sto_entries G E M s (ref_name_new u peer) = Some c
               \<and> sto_entries G E M s' = (sto_entries G E M s)(ref_name_new u peer \<mapsto> f c)))
      \<and> (\<forall>n. r = Inl (Modify_DidNotExist n) \<longrightarrow> sto_entries G E M s (ref_name_new u peer) = None)
      \<and> (\<forall>e. r = Inl e \<longrightarrow> (\<forall>i n d. e = Modify_WriteRef i n d \<longrightarrow> \<not> sto_partial d) \<longrightarrow>
          storage_ok G E M s' \<and> sto_entries G E M s' = sto_entries G E M s))
    \<and> (\<exists>r s'. untrack (sto_db G E M) s u k args = Some (r, s')
      \<and> (\<forall>x. r = Inr x \<longrightarrow> storage_ok G E M s'
          \<and> sto_entries G E M s' = run_action (Untrack_action u k (ua_policy args)) (sto_entries G E M s)
          \<and> (is_ok x \<longleftrightarrow> holds_for (untrack_previous (ua_policy args)) (sto_entries G E M s (ref_name_new u (Some k)))))
      \<and> (\<forall>n d. r = Inl (Untrack_Delete n d) \<longrightarrow> \<not> sto_partial d \<longrightarrow>
          storage_ok G E M s' \<and> sto_entries G E M s' = sto_entries G E M s))"
proof (intro conjI)
  have f: "\<And>c. sto_valid G E c \<Longrightarrow> sto_valid G E (f c)" and u: "ua_prune args \<Longrightarrow> urn_path u = None" using assms(5,6) by simp_all
  obtain r s' where r: "track (sto_db G E M) s u peer c p = Some (r, s')"
    using sto.track_total [OF assms(1,3,4)] by fastforce
  show "\<exists>r s'. track (sto_db G E M) s u peer c p = Some (r, s')
      \<and> (\<forall>x. r = Inr x \<longrightarrow> storage_ok G E M s'
          \<and> sto_entries G E M s' = run_action (Track_action u peer c p) (sto_entries G E M s)
          \<and> (is_ok x \<longleftrightarrow> holds_for (track_previous p) (sto_entries G E M s (ref_name_new u peer))))
      \<and> (\<forall>e. r = Inl e \<longrightarrow> (\<forall>n d. e = Track_Create n d \<longrightarrow> \<not> sto_partial d) \<longrightarrow>
          storage_ok G E M s' \<and> sto_entries G E M s' = sto_entries G E M s)"
    using r sto_track [OF assms(1,3,4) r] by blast
  obtain m t' where m: "modify (sto_db G E M) s u peer f = Some (m, t')"
    using sto.modify_total [OF assms(1,3) f] by fastforce
  show "\<exists>r s'. modify (sto_db G E M) s u peer f = Some (r, s')
      \<and> (\<forall>x. r = Inr x \<longrightarrow> storage_ok G E M s' \<and> is_ok x
          \<and> (\<exists>c. sto_entries G E M s (ref_name_new u peer) = Some c
               \<and> sto_entries G E M s' = (sto_entries G E M s)(ref_name_new u peer \<mapsto> f c)))
      \<and> (\<forall>n. r = Inl (Modify_DidNotExist n) \<longrightarrow> sto_entries G E M s (ref_name_new u peer) = None)
      \<and> (\<forall>e. r = Inl e \<longrightarrow> (\<forall>i n d. e = Modify_WriteRef i n d \<longrightarrow> \<not> sto_partial d) \<longrightarrow>
          storage_ok G E M s' \<and> sto_entries G E M s' = sto_entries G E M s)"
    using m sto_modify [OF assms(1,3) f m] by blast
  obtain w w' where w: "untrack (sto_db G E M) s u k args = Some (w, w')"
    using sto.untrack_total [OF assms(1,2) u] by fastforce
  show "\<exists>r s'. untrack (sto_db G E M) s u k args = Some (r, s')
      \<and> (\<forall>x. r = Inr x \<longrightarrow> storage_ok G E M s'
          \<and> sto_entries G E M s' = run_action (Untrack_action u k (ua_policy args)) (sto_entries G E M s)
          \<and> (is_ok x \<longleftrightarrow> holds_for (untrack_previous (ua_policy args)) (sto_entries G E M s (ref_name_new u (Some k)))))
      \<and> (\<forall>n d. r = Inl (Untrack_Delete n d) \<longrightarrow> \<not> sto_partial d \<longrightarrow>
          storage_ok G E M s' \<and> sto_entries G E M s' = sto_entries G E M s)"
    using w sto_untrack [OF assms(1,2) w u] by blast
qed

theorem tracking_writes_witness:
  "\<exists>ref s'. track (sto_db repo_env repo_urn_env example_multibase) repo_empty (Urn ''p'' None) (Some example_key)
      config_default TMustNotExist = Some (Inr (Inr ref), s')
    \<and> sto_entries repo_env repo_urn_env example_multibase s' (ref_name_new (Urn ''p'' None) (Some example_key))
      = Some config_default"
proof -
  have "ua_prune (untrack_args_new UAny) \<longrightarrow> urn_path (Urn ''p'' None :: string urn) = None" by simp
  note writes = tracking_writes [OF repo_empty_ok example_key_ok peer_ok_key repo_valid, where f = "\<lambda>c. c", simplified, OF this,
    of TMustNotExist]
  obtain ref s' where t: "track (sto_db repo_env repo_urn_env example_multibase) repo_empty (Urn ''p'' None) (Some example_key)
      config_default TMustNotExist = Some (Inr (Inr ref), s')"
    by (rule sto_live_track [OF repo_reliable repo_empty_ok peer_ok_key repo_valid, of TMustNotExist "Urn ''p'' None"])
      (simp_all add: repo_no_entries)
  then have "sto_entries repo_env repo_urn_env example_multibase s'
      = run_action (Track_action (Urn ''p'' None) (Some example_key) config_default TMustNotExist)
          (sto_entries repo_env repo_urn_env example_multibase repo_empty)"
    using writes by auto
  then show ?thesis using t repo_no_entries by (simp add: run_action_def action_name_def)
qed




definition repo_actions :: "string action list" where
  "repo_actions =
     [Track_action (Urn ''p'' None) (Some example_key) config_default TAny,
      Untrack_action (Urn ''p'' None) example_key UAny,
      Track_action (Urn ''p'' None) None config_default TAny]"




text \<open>
  C19: as long as no call to the repository fails, tracking a peer succeeds, the entry can then be
  read back with its configuration, untracking it succeeds as well, and afterwards there is
  no entry for it while all others are as before.
\<close>

theorem track_lifecycle:
  assumes "git_reliable G" "storage_ok G E M s" "is_key k" "sto_valid G E c"
  shows "\<exists>ref s1 x s2. track (sto_db G E M) s u (Some k) c TAny = Some (Inr (Inr ref), s1)
    \<and> get (sto_db G E M) s1 u (Some k) = Some (Inr (Some (Tracked_peer (Urn (urn_id u) None) k c)))
    \<and> is_tracked (sto_db G E M) s1 u (Some k) = Some (Inr True)
    \<and> untrack (sto_db G E M) s1 u k (untrack_args_new UMustExist) = Some (Inr (Inr x), s2)
    \<and> get (sto_db G E M) s2 u (Some k) = Some (Inr None)
    \<and> storage_ok G E M s2 \<and> sto_entries G E M s2 = (sto_entries G E M s)(ref_name_new u (Some k) := None)"
proof -
  let ?n = "ref_name_new u (Some k)"
  have k: "peer_ok (Some k)" using assms(3) by simp
  have "holds_for (track_previous TAny) (sto_entries G E M s ?n)" by simp
  then obtain ref s1 where 1: "track (sto_db G E M) s u (Some k) c TAny = Some (Inr (Inr ref), s1)" "storage_ok G E M s1"
    "sto_entries G E M s1 = (sto_entries G E M s)(?n \<mapsto> c)"
    using sto_live_track [OF assms(1,2) k assms(4), of TAny u] by (auto simp: run_action_def action_name_def)
  have "holds_for (untrack_previous UMustExist) (sto_entries G E M s1 ?n)" using 1(3) by simp
  then obtain x s2 where 2: "untrack (sto_db G E M) s1 u k (untrack_args_new UMustExist) = Some (Inr (Inr x), s2)"
    "storage_ok G E M s2" "sto_entries G E M s2 = (sto_entries G E M s)(?n := None)"
    using sto_live_untrack [OF assms(1) 1(2) assms(3), of UMustExist u] 1(3) by (auto simp: run_action_def action_name_def)
  have "from_reference ?n c = Tracked_peer (Urn (urn_id u) None) k c"
    by (cases u) (auto simp: from_reference_def ref_name_new_def urn_with_path_def urn_map_path_def)
  then show ?thesis
    using 1 2 sto_live_get [OF assms(1) 1(2) k, of u] sto_live_is_tracked [OF assms(1) 1(2) k, of u]
      sto_live_get [OF assms(1) 2(2) k, of u] by auto
qed

theorem track_lifecycle_witness:
  "\<exists>ref s1. track (sto_db repo_env repo_urn_env example_multibase) repo_empty (Urn ''p'' (Some ''refs/heads/x'')) (Some example_key)
      config_default TAny = Some (Inr (Inr ref), s1)
    \<and> get (sto_db repo_env repo_urn_env example_multibase) s1 (Urn ''p'' (Some ''refs/heads/x'')) (Some example_key)
      = Some (Inr (Some (Tracked_peer (Urn ''p'' None) example_key config_default)))"
  using track_lifecycle [OF repo_reliable repo_empty_ok example_key_ok repo_valid, of "Urn ''p'' (Some ''refs/heads/x'')"]
  by auto

text \<open>
  An update whose condition does not hold is rejected on its own: the others of the transaction
  are applied all the same.
\<close>

lemma rejection_does_not_abort:
  assumes "git_env_ok G E" "storage_ok G E M s" "ref_name_ok n" "ref_name_ok m"
    and "sto_tracking E M s n = None" "sto_tracking E M s m = Some t"
    and "sto_update G E M s [Delete_update n PMustExist, Delete_update m PAny] = Some (Inr a, s')"
  shows "ap_rejections a \<noteq> []" "sto_tracking E M s' m = None"
proof -
  have ok: "\<forall>up \<in> set [Delete_update n PMustExist, Delete_update m PAny]. ref_name_ok (up_name up)
      \<and> (\<forall>t. up_value up = Some t \<longrightarrow> (\<exists>c. sto_configs G E s t = Some c \<and> sto_valid G E c))"
    using assms(3,4) by simp
  note law = sto_update_law [OF assms(2) ok assms(7)]
  show "ap_rejections a \<noteq> []"
    using law assms(5) by (simp add: up_rejected_def previous_guard_def)
  show "sto_tracking E M s' m = None"
    using law assms(6) by (simp add: up_effect_def up_holds_def)
qed

text \<open>A pruned symbolic reference is reported by the name of its target.\<close>

lemma prune_reports_target:
  "prune_loop repo_env repo_empty [Inr (''refs/namespaces/hp/refs/rad/ids/a'', Symbolic_ref ''refs/namespaces/hq/refs/rad/id'')] []
    = Inr ([''refs/namespaces/hp/refs/rad/ids/a''], [Pruned_symbolic ''refs/namespaces/hq/refs/rad/id''])"
  by (simp add: repo_env_def git_try_def)

text \<open>Pruning for a URN with a path looks below that path only.\<close>

lemma prune_below_path:
  "prune_glob repo_urn_env example_multibase (Urn ''p'' (Some ''refs/heads/x'')) None
    = Some (''refs/namespaces/'' @ urn_encode_id repo_urn_env (Urn ''p'' None) @ ''/refs/heads/x/*'')"
  by code_simp

end
