(* ===== verification/Cob_Fold.thy ===== *)
theory Cob_Fold
  imports Ordered
begin

text \<open>
  Folding over a topologically sorted graph with pruning (\<open>cob/src/pruning_fold.rs\<close>). The trait
  \<open>GraphNode\<close> is the pair of arguments \<open>ident\<close> and \<open>child_ids\<close>. The lemma \<open>pruning_fold_pred\<close>
  says what is folded: the nodes none of whose ancestors the function rejects.
\<close>

section \<open>Rejected nodes\<close>

record 'i rejected_nodes =
  rj_direct :: "'i bset"
  rj_transitive :: "('i, 'i) bmap"

definition rejected_new :: "'i rejected_nodes" where
  "rejected_new = \<lparr>rj_direct = [], rj_transitive = bmap_empty\<rparr>"

definition rejected_ancestor :: "'i rejected_nodes \<Rightarrow> 'i \<Rightarrow> 'i option" where
  "rejected_ancestor r node = bmap_get (rj_transitive r) node"

definition is_rejected :: "'i rejected_nodes \<Rightarrow> 'i \<Rightarrow> bool" where
  "is_rejected r node = (node \<in> set (rj_direct r))"

definition transitively_reject :: "'i::linorder \<Rightarrow> 'i \<Rightarrow> 'i rejected_nodes \<Rightarrow> 'i rejected_nodes" where
  "transitively_reject child ancestor r = r\<lparr>rj_transitive := bmap_insert child ancestor (rj_transitive r)\<rparr>"

definition directly_reject :: "'i::linorder \<Rightarrow> 'i list \<Rightarrow> 'i rejected_nodes \<Rightarrow> 'i rejected_nodes" where
  "directly_reject node children r =
     fold (\<lambda>child r. r\<lparr>rj_transitive := bmap_insert child node (rj_transitive r)\<rparr>) children
       (r\<lparr>rj_direct := snd (bset_insert node (rj_direct r))\<rparr>)"

section \<open>The fold\<close>

datatype 's control_flow = Continue 's | Break 's

fun pruning_loop ::
  "('n \<Rightarrow> 'i::linorder) \<Rightarrow> ('n \<Rightarrow> 'i list) \<Rightarrow> ('s \<Rightarrow> 'n \<Rightarrow> 's control_flow) \<Rightarrow> 'n list \<Rightarrow> 'i rejected_nodes \<Rightarrow> 's \<Rightarrow> 's" where
  "pruning_loop ident child_ids f [] rejected state = state"
| "pruning_loop ident child_ids f (node # items) rejected state =
     (if is_rejected rejected (ident node) then pruning_loop ident child_ids f items rejected state
      else case rejected_ancestor rejected (ident node) of
        Some ancestor \<Rightarrow>
          pruning_loop ident child_ids f items
            (fold (\<lambda>child. transitively_reject child ancestor) (child_ids node) rejected) state
      | None \<Rightarrow>
          (case f state node of
             Continue state \<Rightarrow> pruning_loop ident child_ids f items rejected state
           | Break state \<Rightarrow>
               pruning_loop ident child_ids f items (directly_reject (ident node) (child_ids node) rejected) state))"

definition pruning_fold ::
  "('n \<Rightarrow> 'i::linorder) \<Rightarrow> ('n \<Rightarrow> 'i list) \<Rightarrow> 's \<Rightarrow> 'n list \<Rightarrow> ('s \<Rightarrow> 'n \<Rightarrow> 's control_flow) \<Rightarrow> 's" where
  "pruning_fold ident child_ids init items f = pruning_loop ident child_ids f items rejected_new init"

section \<open>What is folded\<close>

text \<open>A topological order: identifiers are distinct, and children come after their parents.\<close>

fun topo_ordered :: "('n \<Rightarrow> 'i) \<Rightarrow> ('n \<Rightarrow> 'i list) \<Rightarrow> 'n list \<Rightarrow> bool" where
  "topo_ordered ident child_ids [] = True"
| "topo_ordered ident child_ids (n # ns) =
     (ident n \<notin> ident ` set ns \<and> (\<forall>m \<in> set (n # ns). ident n \<notin> set (child_ids m)) \<and> topo_ordered ident child_ids ns)"

text \<open>A node is barred when some ancestor of it is not accepted.\<close>

inductive barred :: "('n \<Rightarrow> 'i) \<Rightarrow> ('n \<Rightarrow> 'i list) \<Rightarrow> ('n \<Rightarrow> bool) \<Rightarrow> 'n list \<Rightarrow> 'n \<Rightarrow> bool"
  for ident child_ids ok items where
  barred_parent: "m \<in> set items \<Longrightarrow> \<not> ok m \<Longrightarrow> ident n \<in> set (child_ids m) \<Longrightarrow> barred ident child_ids ok items n"
| barred_ancestor: "m \<in> set items \<Longrightarrow> barred ident child_ids ok items m \<Longrightarrow> ident n \<in> set (child_ids m) \<Longrightarrow>
    barred ident child_ids ok items n"

inductive_simps barred_iff: "barred ident child_ids ok items n"

definition rejects :: "('i::linorder) rejected_nodes \<Rightarrow> 'i set \<Rightarrow> 'i set \<Rightarrow> bool" where
  "rejects r D T = (bmap_ok (rj_transitive r) \<and> set (rj_direct r) = D \<and> dom (bmap_get (rj_transitive r)) = T)"

lemma rejects_new: "rejects rejected_new {} {}"
  by (simp add: rejects_def rejected_new_def bmap.lookup_empty fun_eq_iff)

lemma rejects_transitive:
  "rejects r D T \<Longrightarrow> rejects (fold (\<lambda>c. transitively_reject c a) cs r) D (set cs \<union> T)"
proof (induction cs arbitrary: r T)
  case (Cons c cs)
  have "rejects (transitively_reject c a r) D (insert c T)"
    using Cons.prems by (auto simp: rejects_def transitively_reject_def bmap.lookup_insert)
  from Cons.IH [OF this] show ?case by simp
qed simp

lemma rejects_direct:
  assumes "rejects r D T"
  shows "rejects (directly_reject n cs r) (insert n D) (set cs \<union> T)"
proof -
  have "(\<lambda>child r. r\<lparr>rj_transitive := bmap_insert child n (rj_transitive r)\<rparr>) = (\<lambda>child. transitively_reject child n)"
    by (simp add: transitively_reject_def fun_eq_iff)
  moreover have "rejects (r\<lparr>rj_direct := snd (bset_insert n (rj_direct r))\<rparr>) (insert n D) T"
    using assms by (simp add: rejects_def)
  ultimately show ?thesis using rejects_transitive by (fastforce simp: directly_reject_def)
qed

text \<open>
  When acceptance does not depend on the state, the fold goes over the nodes that are not barred,
  in their order.
\<close>

lemma pruning_loop_pred:
  assumes f: "\<And>s n. f s n = (if ok n then Continue (g n s) else Break (b n s))"
    and "topo_ordered ident child_ids items" "set done_items \<inter> set items = {}"
    and "\<forall>n \<in> set items. ident n \<notin> D \<and> (\<forall>m \<in> set all. ident n \<in> set (child_ids m) \<longrightarrow> m \<in> set done_items \<union> set items)"
    and "set done_items \<union> set items = set all"
    and "rejects r D T"
    and "\<forall>n \<in> set items. ident n \<in> T \<longleftrightarrow> (\<exists>m \<in> set done_items. ident n \<in> set (child_ids m) \<and> (\<not> ok m \<or> barred ident child_ids ok all m))"
  shows "pruning_loop ident child_ids f items r s =
    fold (\<lambda>n s. if ok n then g n s else b n s) (filter (\<lambda>n. \<not> barred ident child_ids ok all n) items) s"
  using assms(2-)
proof (induction items arbitrary: done_items D T r s)
  case (Cons n items)
  let ?bar = "barred ident child_ids ok all"
  have dn: "\<forall>m \<in> set (n # items). ident n \<notin> set (child_ids m)" and ni: "ident n \<notin> ident ` set items"
    and topo: "topo_ordered ident child_ids items" using Cons.prems(1) by auto
  have D: "set (rj_direct r) = D" and T: "dom (bmap_get (rj_transitive r)) = T" using Cons.prems(5) by (simp_all add: rejects_def)
  have bar: "ident n \<in> T \<longleftrightarrow> ?bar n"
  proof -
    have "?bar n \<longleftrightarrow> (\<exists>m \<in> set all. ident n \<in> set (child_ids m) \<and> (\<not> ok m \<or> ?bar m))"
      unfolding barred_iff [of ident child_ids ok all n] by blast
    also have "\<dots> \<longleftrightarrow> (\<exists>m \<in> set done_items. ident n \<in> set (child_ids m) \<and> (\<not> ok m \<or> ?bar m))"
      using Cons.prems(4) dn by (metis UnE UnI1)
    finally show ?thesis using Cons.prems(6) by simp
  qed
  have next_T: "\<forall>x \<in> set items. ident x \<in> T' \<longleftrightarrow> (\<exists>m \<in> set (n # done_items). ident x \<in> set (child_ids m) \<and> (\<not> ok m \<or> ?bar m))"
    if "T' = (if \<not> ok n \<or> ?bar n then set (child_ids n) \<union> T else T)" for T'
    using Cons.prems(6) that by auto
  have rest: "set (n # done_items) \<inter> set items = {}" "set (n # done_items) \<union> set items = set all"
    using Cons.prems(2,4) ni by auto
  have IH: "pruning_loop ident child_ids f items r' s' =
      fold (\<lambda>n s. if ok n then g n s else b n s) (filter (\<lambda>n. \<not> ?bar n) items) s'"
    if "rejects r' D' T'" "T' = (if \<not> ok n \<or> ?bar n then set (child_ids n) \<union> T else T)"
      "D' = D \<or> D' = insert (ident n) D" for r' s' D' T'
    using Cons.IH [OF topo rest(1) _ rest(2) that(1) next_T [OF that(2)]] Cons.prems(3) that(3) ni rest(2) by (fastforce simp: image_iff)
  have "\<not> is_rejected r (ident n)" using D Cons.prems(3) by (simp add: is_rejected_def)
  moreover have "rejected_ancestor r (ident n) = None \<longleftrightarrow> \<not> ?bar n" using T bar by (auto simp: rejected_ancestor_def)
  ultimately show ?case
    using IH [OF rejects_transitive [OF Cons.prems(5), of _ "child_ids n"]]
      IH [OF rejects_direct [OF Cons.prems(5), of "ident n" "child_ids n"]] IH [OF Cons.prems(5)]
    by (cases "rejected_ancestor r (ident n)") (auto simp: f [of s n])
qed simp

lemma pruning_fold_pred:
  assumes "\<And>s n. f s n = (if ok n then Continue (g n s) else Break (b n s))" "topo_ordered ident child_ids items"
  shows "pruning_fold ident child_ids s items f =
    fold (\<lambda>n s. if ok n then g n s else b n s) (filter (\<lambda>n. \<not> barred ident child_ids ok items n) items) s"
  unfolding pruning_fold_def
  by (rule pruning_loop_pred [where done_items = "[]" and D = "{}" and T = "{}" and b = b])
    (use assms rejects_new in auto)

end
