(* ===== verification/Cob_Change.thy ===== *)
theory Cob_Change
  imports Tracking_Config Peer
begin

text \<open>
  Changes to collaborative objects: the trailers of their commits (\<open>cob/src/trailers.rs\<close>), the
  signatures among them (\<open>link-identities/src/sign.rs\<close>), loading a change from a commit
  (\<open>cob/src/change.rs\<close>), the identities that authorise changes
  (\<open>cob/src/authorizing_identity.rs\<close>, \<open>cob/src/identity_storage.rs\<close>) and the decision on
  a single change (\<open>cob/src/change_graph/evaluation.rs\<close>).

  The record \<open>cob_repo\<close> holds what is read from the repository and what other crates compute:
  messages, trees and parents of commits, the parsers of trailers and manifests, the verification
  of signatures and that of identities.
\<close>

section \<open>Trailers\<close>

record trailer =
  tr_token :: string
  tr_values :: "string list"

datatype oid_trailer_error =
    NoTrailer
  | MultipleTrailers
  | NoTrailerValue
  | InvalidOidValue decode_id_error

definition oid_try_from_trailer :: "('o, 'b) urn_env \<Rightarrow> trailer \<Rightarrow> oid_trailer_error + 'o" where
  "oid_try_from_trailer E t =
     and_then (ok_or NoTrailerValue (case tr_values t of [] \<Rightarrow> None | v # _ \<Rightarrow> Some v)) (\<lambda>val.
     and_then (ok_or (InvalidOidValue Encoding_decode) (multibase_decode E val)) (\<lambda>bytes.
     and_then (ok_or (InvalidOidValue Multihash_decode) (multihash_from_bytes E bytes)) (\<lambda>mhash.
     ok_or (InvalidOidValue InvalidId_decode) (from_multihash E mhash))))"

definition oid_from_trailers :: "('o, 'b) urn_env \<Rightarrow> string \<Rightarrow> trailer list \<Rightarrow> oid_trailer_error + 'o" where
  "oid_from_trailers E name trailers =
     and_then (collect_results (oid_try_from_trailer E) (filter (\<lambda>t. tr_token t = name) trailers)) (\<lambda>matching.
       case matching of
         [] \<Rightarrow> Inl NoTrailer
       | [oid] \<Rightarrow> Inr oid
       | _ \<Rightarrow> Inl MultipleTrailers)"

section \<open>Signatures\<close>

text \<open>\<open>str::split_whitespace\<close>: the number of bytes of the white space at the head of a text.\<close>

definition whitespace_len :: "string \<Rightarrow> nat" where
  "whitespace_len s =
     (case map of_char s :: nat list of
        [] \<Rightarrow> 0
      | a # s \<Rightarrow>
          if 9 \<le> a \<and> a \<le> 13 \<or> a = 32 then 1
          else case s of
            [] \<Rightarrow> 0
          | b # s \<Rightarrow>
              if a = 0xC2 \<and> (b = 0x85 \<or> b = 0xA0) then 2
              else case s of
                [] \<Rightarrow> 0
              | c # _ \<Rightarrow>
                  if a = 0xE1 \<and> b = 0x9A \<and> c = 0x80
                     \<or> a = 0xE2 \<and> b = 0x80 \<and> (0x80 \<le> c \<and> c \<le> 0x8A \<or> c = 0xA8 \<or> c = 0xA9 \<or> c = 0xAF)
                     \<or> a = 0xE2 \<and> b = 0x81 \<and> c = 0x9F
                     \<or> a = 0xE3 \<and> b = 0x80 \<and> c = 0x80
                  then 3 else 0)"

function split_words :: "string \<Rightarrow> string \<Rightarrow> string list" where
  "split_words word [] = (if word = [] then [] else [rev word])"
| "split_words word (c # s) =
     (let n = whitespace_len (c # s) in
      if n = 0 then split_words (c # word) s
      else (if word = [] then [] else [rev word]) @ split_words [] (drop (n - 1) s))"
  by pat_completeness auto

termination by (relation "measure (\<lambda>(w, s). length s)") auto

definition split_whitespace :: "string \<Rightarrow> string list" where
  "split_whitespace s = split_words [] s"

datatype signature_error = MissingKey | MissingSignature | SignatureSerde visit_error

definition signature_try_from_trailer :: "multibase \<Rightarrow> trailer \<Rightarrow> signature_error + bytes \<times> bytes" where
  "signature_try_from_trailer M t =
     (let words = concat (map split_whitespace (tr_values t)) in
      and_then (ok_or MissingKey (case words of [] \<Rightarrow> None | key # _ \<Rightarrow> Some key)) (\<lambda>key.
      and_then (map_err SignatureSerde (public_key_visit_str M key)) (\<lambda>key.
      and_then (ok_or MissingSignature (case tl words of [] \<Rightarrow> None | sig # _ \<Rightarrow> Some sig)) (\<lambda>sig.
      and_then (map_err SignatureSerde (signature_visit_str M sig)) (\<lambda>sig.
      Inr (key, sig))))))"

definition signatures_try_from :: "multibase \<Rightarrow> trailer list \<Rightarrow> signature_error + (bytes, bytes) bmap" where
  "signatures_try_from M trailers =
     map_ok bmap_from_iter
       (collect_results (signature_try_from_trailer M) (filter (\<lambda>t. tr_token t = ''X-Rad-Signature'') trailers))"

section \<open>Changes\<close>

datatype history_type = Automerge_type

datatype entry_contents = Automerge string

fun history_type_from :: "entry_contents \<Rightarrow> history_type" where
  "history_type_from (Automerge _) = Automerge_type"

record manifest =
  mf_typename :: string
  mf_history_type :: history_type

record 'o change =
  ch_commit :: 'o
  ch_revision :: 'o
  ch_signatures :: "(bytes, bytes) bmap"
  ch_author_commit :: 'o
  ch_schema_commit :: "'o option"
  ch_authorizing_identity_commit :: 'o
  ch_manifest :: manifest
  ch_contents :: entry_contents

text \<open>Verified identities, with what changes need of them.\<close>

record 'o verified_person =
  vp_urn :: "'o urn"
  vp_content_id :: 'o
  vp_delegations :: "bytes list"

record 'o verified_project =
  vj_urn :: "'o urn"
  vj_content_id :: 'o

datatype identity_kind = Person_kind | Project_kind | Other_kind

text \<open>
  The repository: \<open>rp_entry\<close> is the entry of a name in a tree, if there is one, as an error or the
  content of the blob, if it is one. Identities are verified by \<open>link-identities\<close>.
\<close>

record 'o cob_repo =
  rp_message :: "'o \<Rightarrow> string option"
  rp_parse_trailers :: "string \<Rightarrow> string + trailer list"
  rp_tree :: "'o \<Rightarrow> string + 'o"
  rp_entry :: "'o \<Rightarrow> string \<Rightarrow> (string + string option) option"
  rp_manifest :: "string \<Rightarrow> string + manifest"
  rp_parents :: "'o \<Rightarrow> 'o list"
  rp_verify :: "bytes \<Rightarrow> bytes \<Rightarrow> 'o \<Rightarrow> bool"
  rp_some_identity :: "'o \<Rightarrow> string + identity_kind"
  rp_verify_person :: "'o \<Rightarrow> string + 'o verified_person"
  rp_verify_project :: "'o \<Rightarrow> string + 'o verified_project"

datatype load_error =
    Load_Signatures signature_error
  | Load_Git string
  | NoManifest
  | ManifestIsNotBlob
  | InvalidManifest string
  | NoChange
  | ChangeNotBlob
  | SchemaCommitTrailer_error oid_trailer_error
  | AuthorTrailer_error oid_trailer_error
  | AuthorizingIdentityTrailer_error oid_trailer_error
  | Load_Utf8
  | Load_Trailer string

definition load_blob :: "'o cob_repo \<Rightarrow> 'o \<Rightarrow> string \<Rightarrow> load_error \<Rightarrow> load_error \<Rightarrow> load_error + string" where
  "load_blob R tree name missing not_blob =
     and_then (ok_or missing (rp_entry R tree name)) (\<lambda>object.
     and_then (map_err Load_Git object) (\<lambda>blob. ok_or not_blob blob))"

definition change_load :: "('o, 'b) urn_env \<Rightarrow> multibase \<Rightarrow> 'o cob_repo \<Rightarrow> 'o \<Rightarrow> load_error + 'o change" where
  "change_load E M R commit =
     and_then (and_then (ok_or Load_Utf8 (rp_message R commit)) (\<lambda>s. map_err Load_Trailer (rp_parse_trailers R s))) (\<lambda>trailers.
     and_then (map_err AuthorTrailer_error (oid_from_trailers E ''X-Rad-Author'' trailers)) (\<lambda>author.
     and_then (map_err AuthorizingIdentityTrailer_error (oid_from_trailers E ''X-Rad-Authorizing-Identity'' trailers)) (\<lambda>authorizing.
     and_then (case oid_from_trailers E ''X-Rad-Schema'' trailers of
         Inr t \<Rightarrow> Inr (Some t)
       | Inl NoTrailer \<Rightarrow> Inr None
       | Inl e \<Rightarrow> Inl (SchemaCommitTrailer_error e)) (\<lambda>schema.
     and_then (map_err Load_Signatures (signatures_try_from M trailers)) (\<lambda>signatures.
     and_then (map_err Load_Git (rp_tree R commit)) (\<lambda>tree.
     and_then (load_blob R tree ''manifest.toml'' NoManifest ManifestIsNotBlob) (\<lambda>blob.
     and_then (map_err InvalidManifest (rp_manifest R blob)) (\<lambda>manifest.
     and_then (case mf_history_type manifest of
         Automerge_type \<Rightarrow> map_ok Automerge (load_blob R tree ''change'' NoChange ChangeNotBlob)) (\<lambda>contents.
     Inr \<lparr>ch_commit = commit, ch_revision = tree, ch_signatures = signatures, ch_author_commit = author,
          ch_schema_commit = schema, ch_authorizing_identity_commit = authorizing,
          ch_manifest = manifest, ch_contents = contents\<rparr>)))))))))"

definition valid_signatures :: "'o cob_repo \<Rightarrow> 'o change \<Rightarrow> bool" where
  "valid_signatures R c = list_all (\<lambda>(key, sig). rp_verify R key sig (ch_revision c)) (ch_signatures c)"

section \<open>Authorising identities\<close>

datatype auth_decision = Authorized | NotAuthorized

datatype 'o authorizing_identity =
    Person_authorizer "'o verified_person"
  | Project_authorizer "'o verified_project"

fun authorizer_urn :: "'o authorizing_identity \<Rightarrow> 'o urn" where
  "authorizer_urn (Person_authorizer p) = vp_urn p"
| "authorizer_urn (Project_authorizer p) = vj_urn p"

fun check_authorization :: "'o authorizing_identity \<Rightarrow> 'o verified_person \<Rightarrow> auth_decision" where
  "check_authorization (Person_authorizer p) who = (if vp_urn p = vp_urn who then Authorized else NotAuthorized)"
| "check_authorization (Project_authorizer p) who = Authorized"

fun authorizer_content_id :: "'o authorizing_identity \<Rightarrow> 'o" where
  "authorizer_content_id (Person_authorizer p) = vp_content_id p"
| "authorizer_content_id (Project_authorizer p) = vj_content_id p"

datatype 'o lookup_error =
    Lookup_VerifyPerson string
  | Lookup_VerifyProject string
  | Lookup_LoadIdentity string
  | CouldNotVerifyTip
  | UnknownIdentityType 'o

definition lookup_person :: "'o cob_repo \<Rightarrow> 'o \<Rightarrow> 'o lookup_error + 'o verified_person option" where
  "lookup_person R oid = map_err Lookup_VerifyPerson (map_ok Some (rp_verify_person R oid))"

definition lookup_authorizing_identity :: "'o cob_repo \<Rightarrow> 'o \<Rightarrow> 'o lookup_error + 'o authorizing_identity" where
  "lookup_authorizing_identity R oid =
     and_then (map_err Lookup_LoadIdentity (rp_some_identity R oid)) (\<lambda>kind.
     and_then (case kind of
         Person_kind \<Rightarrow> map_ok Person_authorizer (map_err Lookup_VerifyPerson (rp_verify_person R oid))
       | Project_kind \<Rightarrow> map_ok Project_authorizer (map_err Lookup_VerifyProject (rp_verify_project R oid))
       | Other_kind \<Rightarrow> Inl (UnknownIdentityType oid)) (\<lambda>authorizer.
     if authorizer_content_id authorizer \<noteq> oid then Inl CouldNotVerifyTip else Inr authorizer))"

section \<open>Evaluating a change\<close>

record 'o history_entry =
  he_id :: 'o
  he_author :: "'o urn"
  he_children :: "'o list"
  he_contents :: entry_contents

datatype 'o rejection_reason =
    InvalidSignatures
  | InvalidAuthorizer "'o lookup_error"
  | WrongAuthorizer
  | MissingAuthor 'o
  | ErrorFindingAuthor 'o "'o lookup_error"
  | Unauthorized

definition evaluate_change ::
  "'o cob_repo \<Rightarrow> 'o authorizing_identity \<Rightarrow> 'o change \<Rightarrow> 'o list \<Rightarrow> 'o rejection_reason + 'o history_entry" where
  "evaluate_change R authorizing c child_commits =
     (if \<not> valid_signatures R c then Inl InvalidSignatures
      else
        and_then (map_err InvalidAuthorizer (lookup_authorizing_identity R (ch_authorizing_identity_commit c))) (\<lambda>referenced.
        if authorizer_urn referenced \<noteq> authorizer_urn authorizing then Inl WrongAuthorizer
        else
          and_then (map_err (ErrorFindingAuthor (ch_author_commit c)) (lookup_person R (ch_author_commit c))) (\<lambda>author.
          and_then (ok_or (MissingAuthor (ch_author_commit c)) author) (\<lambda>author.
          case check_authorization referenced author of
            NotAuthorized \<Rightarrow> Inl Unauthorized
          | Authorized \<Rightarrow>
              Inr \<lparr>he_id = ch_commit c, he_author = vp_urn author, he_children = child_commits, he_contents = ch_contents c\<rparr>))))"

section \<open>What acceptance means\<close>

text \<open>A change that its signatures, its identities and the authorisation admit.\<close>

definition change_authorized :: "'o cob_repo \<Rightarrow> 'o authorizing_identity \<Rightarrow> 'o change \<Rightarrow> 'o verified_person \<Rightarrow> bool" where
  "change_authorized R authorizing c author =
     ((\<forall>(key, sig) \<in> set (ch_signatures c). rp_verify R key sig (ch_revision c))
      \<and> (\<exists>a. lookup_authorizing_identity R (ch_authorizing_identity_commit c) = Inr a
           \<and> authorizer_content_id a = ch_authorizing_identity_commit c
           \<and> authorizer_urn a = authorizer_urn authorizing
           \<and> rp_verify_person R (ch_author_commit c) = Inr author
           \<and> check_authorization a author = Authorized))"

lemma lookup_tip: "lookup_authorizing_identity R oid = Inr a \<Longrightarrow> authorizer_content_id a = oid"
  by (auto simp: lookup_authorizing_identity_def split: if_splits)

lemma evaluate_change_Inr:
  "evaluate_change R authorizing c kids = Inr e \<longleftrightarrow>
     (\<exists>author. change_authorized R authorizing c author
        \<and> e = \<lparr>he_id = ch_commit c, he_author = vp_urn author, he_children = kids, he_contents = ch_contents c\<rparr>)"
proof (cases "lookup_authorizing_identity R (ch_authorizing_identity_commit c)")
  case (Inr a)
  show ?thesis
  proof (cases "rp_verify_person R (ch_author_commit c)")
    case (Inr p)
    then show ?thesis using \<open>lookup_authorizing_identity _ _ = Inr a\<close> lookup_tip [OF \<open>lookup_authorizing_identity _ _ = Inr a\<close>]
      by (cases "check_authorization a p")
        (auto simp: evaluate_change_def change_authorized_def valid_signatures_def lookup_person_def list_all_iff)
  qed (use Inr in \<open>simp add: evaluate_change_def change_authorized_def lookup_person_def\<close>)
qed (simp add: evaluate_change_def change_authorized_def)

text \<open>A change without any signature is accepted as one of whichever author it names.\<close>

lemma unsigned_change_accepted:
  assumes "evaluate_change R authorizing c kids = Inr e"
  shows "evaluate_change R authorizing (c\<lparr>ch_signatures := []\<rparr>) kids = Inr e"
  using assms by (simp add: evaluate_change_Inr change_authorized_def)

lemma no_signatures_loaded: "\<forall>t \<in> set trailers. tr_token t \<noteq> ''X-Rad-Signature'' \<Longrightarrow> signatures_try_from M trailers = Inr []"
  by (simp add: signatures_try_from_def bmap_from_iter_def bmap_empty_def filter_False)

end
