(* ===== verification/Petgraph.thy ===== *)
theory Petgraph
  imports Main
begin

text \<open>
  The directed graphs of the crate \<open>petgraph\<close>, which the history of a collaborative object is built
  on. The crate is a parameter: \<open>petgraph\<close> holds the operations that are called, and
  \<open>petgraph_ok\<close> what their documentation says, for graphs whose indices do not overflow.
  A graph has its nodes in the order in which they were added, which is their index, and its edges.
\<close>

datatype direction = Incoming | Outgoing

record ('g, 'n) petgraph =
  pg_nodes :: "'g \<Rightarrow> 'n list"
  pg_edges :: "'g \<Rightarrow> (nat \<times> nat) list"
  pg_new :: 'g
  pg_add_node :: "'g \<Rightarrow> 'n \<Rightarrow> nat \<times> 'g"
  pg_update_edge :: "'g \<Rightarrow> nat \<Rightarrow> nat \<Rightarrow> 'g option"
  pg_contains_edge :: "'g \<Rightarrow> nat \<Rightarrow> nat \<Rightarrow> bool"
  pg_externals :: "'g \<Rightarrow> direction \<Rightarrow> nat list"
  pg_targets :: "'g \<Rightarrow> nat \<Rightarrow> nat list"
  pg_topo :: "'g \<Rightarrow> nat list"

text \<open>\<open>graph[index]\<close>, which panics when there is no such node.\<close>

definition pg_node :: "('g, 'n) petgraph \<Rightarrow> 'g \<Rightarrow> nat \<Rightarrow> 'n option" where
  "pg_node P g i = (if i < length (pg_nodes P g) then Some (pg_nodes P g ! i) else None)"

definition pg_wf :: "('g, 'n) petgraph \<Rightarrow> 'g \<Rightarrow> bool" where
  "pg_wf P g = (\<forall>(a, b) \<in> set (pg_edges P g). a < length (pg_nodes P g) \<and> b < length (pg_nodes P g))"

definition topo_of :: "(nat \<times> nat) set \<Rightarrow> nat \<Rightarrow> nat list \<Rightarrow> bool" where
  "topo_of edges n order =
     (distinct order \<and> set order = {..<n} \<and> (\<forall>xs b ys a. order = xs @ b # ys \<longrightarrow> (a, b) \<in> edges \<longrightarrow> a \<in> set xs))"

definition pg_building_ok :: "('g, 'n) petgraph \<Rightarrow> bool" where
  "pg_building_ok P =
     (pg_nodes P (pg_new P) = [] \<and> pg_edges P (pg_new P) = []
      \<and> (\<forall>g n. fst (pg_add_node P g n) = length (pg_nodes P g)
           \<and> pg_nodes P (snd (pg_add_node P g n)) = pg_nodes P g @ [n]
           \<and> set (pg_edges P (snd (pg_add_node P g n))) = set (pg_edges P g)))"

definition pg_connecting_ok :: "('g, 'n) petgraph \<Rightarrow> bool" where
  "pg_connecting_ok P =
     (\<forall>g a b. a < length (pg_nodes P g) \<longrightarrow> b < length (pg_nodes P g) \<longrightarrow>
        (\<exists>g'. pg_update_edge P g a b = Some g' \<and> pg_nodes P g' = pg_nodes P g
           \<and> set (pg_edges P g') = insert (a, b) (set (pg_edges P g))))"

definition pg_reading_ok :: "('g, 'n) petgraph \<Rightarrow> bool" where
  "pg_reading_ok P =
     ((\<forall>g a b. pg_contains_edge P g a b \<longleftrightarrow> (a, b) \<in> set (pg_edges P g))
      \<and> (\<forall>g. set (pg_externals P g Incoming) = {i. i < length (pg_nodes P g) \<and> (\<forall>a. (a, i) \<notin> set (pg_edges P g))})
      \<and> (\<forall>g. set (pg_externals P g Outgoing) = {i. i < length (pg_nodes P g) \<and> (\<forall>b. (i, b) \<notin> set (pg_edges P g))})
      \<and> (\<forall>g a. a < length (pg_nodes P g) \<longrightarrow> set (pg_targets P g a) = {b. (a, b) \<in> set (pg_edges P g)}))"

definition pg_sorting_ok :: "('g, 'n) petgraph \<Rightarrow> bool" where
  "pg_sorting_ok P =
     (\<forall>g. pg_wf P g \<longrightarrow> acyclic (set (pg_edges P g)) \<longrightarrow>
        topo_of (set (pg_edges P g)) (length (pg_nodes P g)) (pg_topo P g))"

definition petgraph_ok :: "('g, 'n) petgraph \<Rightarrow> bool" where
  "petgraph_ok P = (pg_building_ok P \<and> pg_connecting_ok P \<and> pg_reading_ok P \<and> pg_sorting_ok P)"

lemma petgraph_building:
  assumes "petgraph_ok P"
  shows "pg_nodes P (pg_new P) = []" "pg_edges P (pg_new P) = []"
    "fst (pg_add_node P g n) = length (pg_nodes P g)"
    "pg_nodes P (snd (pg_add_node P g n)) = pg_nodes P g @ [n]"
    "set (pg_edges P (snd (pg_add_node P g n))) = set (pg_edges P g)"
  using assms by (simp_all add: petgraph_ok_def pg_building_ok_def)

lemma petgraph_reading:
  assumes "petgraph_ok P"
  shows "pg_contains_edge P g a b \<longleftrightarrow> (a, b) \<in> set (pg_edges P g)"
    "set (pg_externals P g Incoming) = {i. i < length (pg_nodes P g) \<and> (\<forall>a. (a, i) \<notin> set (pg_edges P g))}"
    "set (pg_externals P g Outgoing) = {i. i < length (pg_nodes P g) \<and> (\<forall>b. (i, b) \<notin> set (pg_edges P g))}"
    "a < length (pg_nodes P g) \<Longrightarrow> set (pg_targets P g a) = {b. (a, b) \<in> set (pg_edges P g)}"
  using assms by (simp_all add: petgraph_ok_def pg_reading_ok_def)

lemma petgraph_sorting:
  assumes "petgraph_ok P" "pg_wf P g" "acyclic (set (pg_edges P g))"
  shows "topo_of (set (pg_edges P g)) (length (pg_nodes P g)) (pg_topo P g)"
  using assms by (simp add: petgraph_ok_def pg_sorting_ok_def)

lemma update_edgeE:
  assumes "petgraph_ok P" "a < length (pg_nodes P g)" "b < length (pg_nodes P g)"
  obtains g' where "pg_update_edge P g a b = Some g'" "pg_nodes P g' = pg_nodes P g"
    "set (pg_edges P g') = insert (a, b) (set (pg_edges P g))"
  using assms unfolding petgraph_ok_def pg_connecting_ok_def by blast

section \<open>An instance\<close>

text \<open>Lists of nodes and edges, sorted topologically by taking the first node without a predecessor that is left.\<close>

fun list_topo :: "(nat \<times> nat) list \<Rightarrow> nat \<Rightarrow> nat list \<Rightarrow> nat list" where
  "list_topo edges 0 left = []"
| "list_topo edges (Suc k) left =
     (case filter (\<lambda>i. list_all (\<lambda>(a, b). b = i \<longrightarrow> a \<notin> set left) edges) left of
        [] \<Rightarrow> []
      | i # _ \<Rightarrow> i # list_topo edges k (remove1 i left))"

definition list_petgraph :: "('n list \<times> (nat \<times> nat) list, 'n) petgraph" where
  "list_petgraph =
     \<lparr>pg_nodes = fst, pg_edges = snd, pg_new = ([], []),
      pg_add_node = \<lambda>(ns, es) n. (length ns, ns @ [n], es),
      pg_update_edge = \<lambda>(ns, es) a b. if a < length ns \<and> b < length ns then Some (ns, List.insert (a, b) es) else None,
      pg_contains_edge = \<lambda>(ns, es) a b. (a, b) \<in> set es,
      pg_externals = \<lambda>(ns, es) dir. filter (\<lambda>i. i \<notin> set (map (if dir = Incoming then snd else fst) es)) [0..<length ns],
      pg_targets = \<lambda>(ns, es) a. map snd (filter (\<lambda>e. fst e = a) es),
      pg_topo = \<lambda>(ns, es). list_topo es (length ns) [0..<length ns]\<rparr>"

lemma minimal_node:
  assumes "acyclic (set es)" "left \<noteq> []"
  obtains i where "i \<in> set left" "\<And>a. (a, i) \<in> set es \<Longrightarrow> a \<notin> set left"
proof -
  have "wf (set es)" using assms(1) by (simp add: wf_iff_acyclic_if_finite)
  then show thesis using that assms(2) by (metis ex_in_conv set_empty wfE_min)
qed

lemma list_topo_ok:
  assumes "acyclic (set es)" "distinct left" "length left = k"
  shows "distinct (list_topo es k left) \<and> set (list_topo es k left) = set left
    \<and> (\<forall>xs b ys a. list_topo es k left = xs @ b # ys \<longrightarrow> (a, b) \<in> set es \<longrightarrow> a \<in> set left \<longrightarrow> a \<in> set xs)"
  using assms(2,3)
proof (induction k arbitrary: left)
  case (Suc k)
  let ?c = "filter (\<lambda>i. list_all (\<lambda>(a, b). b = i \<longrightarrow> a \<notin> set left) es) left"
  have "left \<noteq> []" using Suc.prems(2) by auto
  then obtain j where "j \<in> set left" "\<And>a. (a, j) \<in> set es \<Longrightarrow> a \<notin> set left" using minimal_node [OF assms(1)] by blast
  then have "j \<in> set ?c" by (auto simp: list_all_iff)
  then obtain i rest where c: "?c = i # rest" by (cases ?c) auto
  then have "i \<in> set ?c" by simp
  then have i: "i \<in> set left" "\<And>a. (a, i) \<in> set es \<Longrightarrow> a \<notin> set left" by (auto simp: list_all_iff)
  have IH: "distinct (list_topo es k (remove1 i left))" "set (list_topo es k (remove1 i left)) = set left - {i}"
    "\<And>xs b ys a. list_topo es k (remove1 i left) = xs @ b # ys \<Longrightarrow> (a, b) \<in> set es \<Longrightarrow> a \<in> set left - {i} \<Longrightarrow> a \<in> set xs"
    using Suc.IH [of "remove1 i left"] Suc.prems i(1) by (simp_all add: length_remove1)
  have t: "list_topo es (Suc k) left = i # list_topo es k (remove1 i left)" using c by simp
  have "a \<in> set xs" if "i # list_topo es k (remove1 i left) = xs @ b # ys" "(a, b) \<in> set es" "a \<in> set left" for xs b ys a
    using that i(2) [of a] IH(3) [of "tl xs" b ys a] by (cases "a = i") (auto simp: Cons_eq_append_conv)
  then show ?case unfolding t using IH(1,2) i(1) by auto
qed simp

lemma list_petgraph_ok: "petgraph_ok list_petgraph"
proof -
  have "topo_of (set es) (length ns) (list_topo es (length ns) [0..<length ns])"
    if "\<forall>(a, b) \<in> set es. a < length ns \<and> b < length ns" "acyclic (set es)" for ns :: "'a list" and es
    using list_topo_ok [OF that(2), of "[0..<length ns]" "length ns"] that(1) by (fastforce simp: topo_of_def atLeast0LessThan)
  then have "pg_sorting_ok (list_petgraph :: ('a list \<times> (nat \<times> nat) list, 'a) petgraph)"
    by (simp add: pg_sorting_ok_def list_petgraph_def pg_wf_def split: prod.splits)
  moreover have "pg_building_ok list_petgraph" "pg_connecting_ok list_petgraph"
    by (simp_all add: pg_building_ok_def pg_connecting_ok_def list_petgraph_def)
  moreover have "pg_reading_ok list_petgraph"
    by (auto simp: pg_reading_ok_def list_petgraph_def image_iff)
  ultimately show ?thesis by (simp add: petgraph_ok_def)
qed

end
