(* ===== verification/Cob_History.thy ===== *)
theory Cob_History
  imports Cob_Fold Cob_Change Petgraph "HOL-Library.Monad_Syntax"
begin

text \<open>
  The history of a collaborative object (\<open>cob/src/history.rs\<close>) and its cached form
  (\<open>cob/src/cache/cached_change_graph.rs\<close>). A panic is \<open>None\<close>. Building the graph of a history loops
  over what is left to process; its result is an option of an option, where the outer \<open>None\<close> says
  that the loop does not end and the inner one that it panics.
\<close>

section \<open>Histories\<close>

record ('g, 'o) history =
  hi_root :: 'o
  hi_entries :: "('o, 'o history_entry) bmap"
  hi_indices :: "('o, nat) bmap"
  hi_graph :: 'g

datatype create_error = MissingRoot

type_synonym ('g, 'o) new_graph = "'g \<times> ('o, nat) bmap"

text \<open>The children of an entry: each becomes a new node, is connected, and is left to process.\<close>

fun create_children ::
  "('g, 'o history_entry) petgraph \<Rightarrow> ('o::linorder, 'o history_entry) bmap \<Rightarrow> nat \<Rightarrow> 'o list \<Rightarrow>
   ('g, 'o) new_graph \<Rightarrow> 'o history_entry list \<Rightarrow> (('g, 'o) new_graph \<times> 'o history_entry list) option" where
  "create_children P entries entry_ix [] G to_process = Some (G, to_process)"
| "create_children P entries entry_ix (child_id # ids) (graph, indices) to_process =
     do {
       child \<leftarrow> bmap_get entries child_id;
       let (child_ix, graph) = pg_add_node P graph child;
       let indices = bmap_insert (he_id child) child_ix indices;
       graph \<leftarrow> pg_update_edge P graph entry_ix child_ix;
       create_children P entries entry_ix ids (graph, indices) (child # to_process)
     }"

text \<open>What is left to process is a stack; its head is the last element of the vector.\<close>

partial_function (option) create_loop ::
  "('g, 'o history_entry) petgraph \<Rightarrow> ('o::linorder, 'o history_entry) bmap \<Rightarrow> ('g, 'o) new_graph \<Rightarrow>
   'o history_entry list \<Rightarrow> ('g, 'o) new_graph option option" where
  "create_loop P entries G to_process =
     (case to_process of
        [] \<Rightarrow> Some (Some G)
      | entry # to_process \<Rightarrow>
          (case Option.bind (bmap_get (snd G) (he_id entry)) (\<lambda>ix. create_children P entries ix (he_children entry) G to_process) of
             None \<Rightarrow> Some None
           | Some (G, to_process) \<Rightarrow> create_loop P entries G to_process))"

declare create_loop.simps [code]

definition create_petgraph ::
  "('g, 'o history_entry) petgraph \<Rightarrow> 'o \<Rightarrow> ('o::linorder, 'o history_entry) bmap \<Rightarrow> ('g, 'o) new_graph option option" where
  "create_petgraph P root entries =
     (case bmap_get entries root of
        None \<Rightarrow> Some None
      | Some root \<Rightarrow>
          (let (root_ix, graph) = pg_add_node P (pg_new P) root in
           create_loop P entries (graph, bmap_insert (he_id root) root_ix bmap_empty) [root]))"

definition history_new ::
  "('g, 'o history_entry) petgraph \<Rightarrow> 'o \<Rightarrow> ('o::linorder, 'o history_entry) bmap \<Rightarrow>
   (create_error + ('g, 'o) history) option option" where
  "history_new P root entries =
     (if bmap_get entries root = None then Some (Some (Inl MissingRoot))
      else map_option (map_option (\<lambda>(graph, indices).
          Inr \<lparr>hi_root = root, hi_entries = entries, hi_indices = indices, hi_graph = graph\<rparr>))
        (create_petgraph P root entries))"

definition history_new_from_root ::
  "('g, 'o history_entry) petgraph \<Rightarrow> 'o::linorder \<Rightarrow> 'o urn \<Rightarrow> entry_contents \<Rightarrow> ('g, 'o) history option option" where
  "history_new_from_root P i author contents =
     (let entry = \<lparr>he_id = i, he_author = author, he_children = [], he_contents = contents\<rparr>;
          entries = bmap_insert i entry bmap_empty in
      map_option (map_option (\<lambda>(graph, indices).
          \<lparr>hi_root = i, hi_entries = entries, hi_indices = indices, hi_graph = graph\<rparr>))
        (create_petgraph P i entries))"

definition history_traverse ::
  "('g, 'o::linorder history_entry) petgraph \<Rightarrow> ('g, 'o) history \<Rightarrow> 's \<Rightarrow> ('s \<Rightarrow> 'o history_entry \<Rightarrow> 's control_flow) \<Rightarrow> 's option" where
  "history_traverse P h init f =
     map_option (\<lambda>items. pruning_fold he_id he_children init items f)
       (those (map (pg_node P (hi_graph h)) (pg_topo P (hi_graph h))))"

definition history_tips :: "('g, 'o::linorder history_entry) petgraph \<Rightarrow> ('g, 'o) history \<Rightarrow> 'o bset option" where
  "history_tips P h =
     map_option (\<lambda>tips. bset_from_iter (map he_id tips))
       (those (map (pg_node P (hi_graph h)) (pg_externals P (hi_graph h) Outgoing)))"

fun extend_tips ::
  "('g, 'o history_entry) petgraph \<Rightarrow> 'o::linorder \<Rightarrow> nat \<Rightarrow> ('o, nat) bmap \<Rightarrow> 'o list \<Rightarrow>
   'g \<times> ('o, 'o history_entry) bmap \<Rightarrow> ('g \<times> ('o, 'o history_entry) bmap) option" where
  "extend_tips P new_id new_ix indices [] st = Some st"
| "extend_tips P new_id new_ix indices (tip # tips) (graph, entries) =
     (let entries = (case bmap_get entries tip of
          Some tip_entry \<Rightarrow> bmap_insert tip (tip_entry\<lparr>he_children := he_children tip_entry @ [new_id]\<rparr>) entries
        | None \<Rightarrow> entries) in
      do {
        tip_ix \<leftarrow> bmap_get indices tip;
        graph \<leftarrow> pg_update_edge P graph tip_ix new_ix;
        extend_tips P new_id new_ix indices tips (graph, entries)
      })"

definition history_extend ::
  "('g, 'o history_entry) petgraph \<Rightarrow> ('g, 'o) history \<Rightarrow> 'o::linorder \<Rightarrow> 'o urn \<Rightarrow> entry_contents \<Rightarrow> ('g, 'o) history option" where
  "history_extend P h new_id new_author new_contents =
     do {
       tips \<leftarrow> history_tips P h;
       let new_entry = \<lparr>he_id = new_id, he_author = new_author, he_children = [], he_contents = new_contents\<rparr>;
       let (new_ix, graph) = pg_add_node P (hi_graph h) new_entry;
       (graph, entries) \<leftarrow> extend_tips P new_id new_ix (hi_indices h) tips (graph, bmap_insert new_id new_entry (hi_entries h));
       Some (h\<lparr>hi_graph := graph, hi_entries := entries\<rparr>)
     }"

section \<open>Cached change graphs\<close>

record ('g, 'o) cached_change_graph =
  cg_history :: "('g, 'o) history"
  cg_refs :: "'o bset"
  cg_typename :: string
  cg_object_id :: 'o
  cg_authorizing_identity_urn :: "'o urn"

definition cached_new :: "'o::linorder list \<Rightarrow> ('g, 'o) history \<Rightarrow> string \<Rightarrow> 'o \<Rightarrow> 'o urn \<Rightarrow> ('g, 'o) cached_change_graph" where
  "cached_new tips h typename object_id u =
     \<lparr>cg_history = h, cg_refs = bset_from_iter tips, cg_typename = typename, cg_object_id = object_id,
      cg_authorizing_identity_urn = u\<rparr>"

definition cached_update_ref ::
  "('g, 'o history_entry) petgraph \<Rightarrow> ('g, 'o) cached_change_graph \<Rightarrow> 'o option \<Rightarrow> 'o::linorder \<Rightarrow> 'o urn \<Rightarrow> entry_contents \<Rightarrow>
   ('g, 'o) cached_change_graph option" where
  "cached_update_ref P g previous new author changes =
     (let refs = (case previous of Some previous \<Rightarrow> filter (\<lambda>x. x \<noteq> previous) (cg_refs g) | None \<Rightarrow> cg_refs g);
          refs = snd (bset_insert new refs) in
      map_option (\<lambda>h. g\<lparr>cg_refs := refs, cg_history := h\<rparr>) (history_extend P (cg_history g) new author changes))"

section \<open>Building the graph of a history\<close>

text \<open>An entry from which a child is reached that there is no entry for.\<close>

inductive dangling :: "('o, 'o history_entry) bmap \<Rightarrow> 'o history_entry \<Rightarrow> bool" for entries where
  dangling_here: "c \<in> set (he_children e) \<Longrightarrow> bmap_get entries c = None \<Longrightarrow> dangling entries e"
| dangling_child: "c \<in> set (he_children e) \<Longrightarrow> bmap_get entries c = Some d \<Longrightarrow> dangling entries d \<Longrightarrow> dangling entries e"

inductive_simps dangling_iff: "dangling entries e"

definition indices_ok :: "('g, 'n) petgraph \<Rightarrow> ('g, 'o::linorder) new_graph \<Rightarrow> bool" where
  "indices_ok P G =
     (bmap_ok (snd G) \<and> (\<forall>k i. bmap_get (snd G) k = Some i \<longrightarrow> i < length (pg_nodes P (fst G))))"

lemma create_children_spec:
  assumes "petgraph_ok P" "indices_ok P G" "ix < length (pg_nodes P (fst G))"
  shows "if \<exists>c \<in> set ids. bmap_get entries c = None then create_children P entries ix ids G st = None
    else \<exists>G'. create_children P entries ix ids G st = Some (G', rev (map (\<lambda>c. the (bmap_get entries c)) ids) @ st)
      \<and> indices_ok P G' \<and> dom (bmap_get (snd G)) \<subseteq> dom (bmap_get (snd G'))
      \<and> (\<forall>c \<in> set ids. he_id (the (bmap_get entries c)) \<in> dom (bmap_get (snd G')))"
  using assms(2,3)
proof (induction ids arbitrary: G st)
  case (Cons c ids)
  obtain graph indices where G: "G = (graph, indices)" by (cases G)
  show ?case
  proof (cases "bmap_get entries c")
    case (Some d)
    let ?ix = "fst (pg_add_node P graph d)" and ?g = "snd (pg_add_node P graph d)"
    note add = petgraph_building(3,4) [OF assms(1), of graph d]
    have "ix < length (pg_nodes P ?g)" "?ix < length (pg_nodes P ?g)" using Cons.prems(2) add G by simp_all
    from update_edgeE [OF assms(1) this] obtain g' where g': "pg_update_edge P ?g ix ?ix = Some g'" "pg_nodes P g' = pg_nodes P ?g"
      by blast
    let ?G = "(g', bmap_insert (he_id d) ?ix indices)"
    have "indices_ok P ?G" "ix < length (pg_nodes P (fst ?G))"
      using Cons.prems g' add G by (auto simp: indices_ok_def bmap.lookup_insert less_Suc_eq split: if_splits)
    note IH = Cons.IH [OF this, of "d # st"]
    have step: "create_children P entries ix (c # ids) G st = create_children P entries ix ids ?G (d # st)"
      using Some g'(1) G by (cases "pg_add_node P graph d") simp
    have dom: "dom (bmap_get indices) \<subseteq> dom (bmap_get (snd ?G))" "he_id d \<in> dom (bmap_get (snd ?G))"
      using Cons.prems(1) G by (auto simp: indices_ok_def bmap.lookup_insert)
    show ?thesis
    proof (cases "\<exists>c \<in> set ids. bmap_get entries c = None")
      case True
      then show ?thesis unfolding step using IH by simp
    next
      case False
      then obtain G' where G': "create_children P entries ix ids ?G (d # st) = Some (G', rev (map (\<lambda>c. the (bmap_get entries c)) ids) @ d # st)"
        "indices_ok P G'" "dom (bmap_get (snd ?G)) \<subseteq> dom (bmap_get (snd G'))"
        "\<forall>c \<in> set ids. he_id (the (bmap_get entries c)) \<in> dom (bmap_get (snd G'))"
        using IH unfolding if_not_P [OF False] by blast
      have "dom (bmap_get (snd G)) \<subseteq> dom (bmap_get (snd G'))" "he_id d \<in> dom (bmap_get (snd G'))"
        using dom G'(3) G by auto
      moreover have no: "\<not> (\<exists>c \<in> set (c # ids). bmap_get entries c = None)" using False Some by simp
      ultimately show ?thesis unfolding step if_not_P [OF no] using G' Some by auto
    qed
  qed (simp add: G)
qed simp

lemma create_loop_simps:
  "create_loop P entries G [] = Some (Some G)"
  "create_loop P entries G (e # st) =
     (case Option.bind (bmap_get (snd G) (he_id e)) (\<lambda>ix. create_children P entries ix (he_children e) G st) of
        None \<Rightarrow> Some None | Some (G, st) \<Rightarrow> create_loop P entries G st)"
  by (simp_all add: create_loop.simps [of P entries G "[]"] create_loop.simps [of P entries G "e # st"])

definition ranked :: "('o \<Rightarrow> nat) \<Rightarrow> ('o, 'o history_entry) bmap \<Rightarrow> bool" where
  "ranked rank entries = (\<forall>k e. bmap_get entries k = Some e \<longrightarrow> he_id e = k \<and> (\<forall>c \<in> set (he_children e). rank c < rank k))"

text \<open>Processing entries processes everything below them, and then what was left before.\<close>

definition processes ::
  "('g, 'o history_entry) petgraph \<Rightarrow> ('o::linorder, 'o history_entry) bmap \<Rightarrow> ('g, 'o) new_graph \<Rightarrow>
   'o history_entry list \<Rightarrow> 'o history_entry list \<Rightarrow> bool" where
  "processes P entries G es st =
     (if list_all (\<lambda>e. \<not> dangling entries e) es
      then \<exists>G'. create_loop P entries G (es @ st) = create_loop P entries G' st \<and> indices_ok P G'
        \<and> dom (bmap_get (snd G)) \<subseteq> dom (bmap_get (snd G'))
      else create_loop P entries G (es @ st) = Some None)"

lemma processes_append:
  assumes "indices_ok P G" "\<forall>e \<in> set es. he_id e \<in> dom (bmap_get (snd G))"
    and "\<And>e G st. e \<in> set es \<Longrightarrow> indices_ok P G \<Longrightarrow> he_id e \<in> dom (bmap_get (snd G)) \<Longrightarrow> processes P entries G [e] st"
  shows "processes P entries G es st"
  using assms
proof (induction es arbitrary: G)
  case (Cons e es)
  have one: "processes P entries G [e] (es @ st)" using Cons.prems by simp
  show ?case
  proof (cases "dangling entries e")
    case False
    then obtain G1 where G1: "create_loop P entries G (e # es @ st) = create_loop P entries G1 (es @ st)" "indices_ok P G1"
      "dom (bmap_get (snd G)) \<subseteq> dom (bmap_get (snd G1))"
      using one by (auto simp: processes_def)
    have "\<forall>x \<in> set es. he_id x \<in> dom (bmap_get (snd G1))" using Cons.prems(2) G1(3) by (meson in_mono list.set_intros(2))
    then have "processes P entries G1 es st" using Cons.IH [OF G1(2)] Cons.prems(3) by simp
    then show ?thesis using False G1(1,3) by (fastforce simp: processes_def)
  qed (use one in \<open>simp add: processes_def\<close>)
next
  case Nil
  have "list_all (\<lambda>e. \<not> dangling entries e) []" by simp
  then show ?case using Nil.prems(1) unfolding processes_def append_Nil by (subst if_P) blast+
qed

lemma create_loop_entry:
  assumes "petgraph_ok P" "ranked rank entries" "bmap_get entries (he_id e) = Some e"
    and "indices_ok P G" "he_id e \<in> dom (bmap_get (snd G))"
  shows "processes P entries G [e] st"
  using assms(3-)
proof (induction "rank (he_id e)" arbitrary: e G st rule: less_induct)
  case (less e G st)
  obtain ix where ix: "bmap_get (snd G) (he_id e) = Some ix" using less.prems(3) by blast
  then have "ix < length (pg_nodes P (fst G))" using less.prems(2) by (simp add: indices_ok_def)
  note kids = create_children_spec [OF assms(1) less.prems(2) this, of "he_children e" entries st]
  show ?case
  proof (cases "\<exists>c \<in> set (he_children e). bmap_get entries c = None")
    case True
    then have "dangling entries e" by (auto intro: dangling_here)
    then show ?thesis using kids True ix by (simp add: create_loop_simps processes_def)
  next
    case False
    let ?ds = "map (\<lambda>c. the (bmap_get entries c)) (he_children e)"
    obtain G1 where G1: "create_children P entries ix (he_children e) G st = Some (G1, rev ?ds @ st)" "indices_ok P G1"
      "dom (bmap_get (snd G)) \<subseteq> dom (bmap_get (snd G1))" "\<forall>d \<in> set ?ds. he_id d \<in> dom (bmap_get (snd G1))"
      using kids unfolding if_not_P [OF False] by auto
    have loop: "create_loop P entries G (e # st) = create_loop P entries G1 (rev ?ds @ st)"
      using G1(1) ix by (simp add: create_loop_simps)
    have ds: "bmap_get entries (he_id d) = Some d \<and> rank (he_id d) < rank (he_id e)" if d: "d \<in> set ?ds" for d
    proof -
      obtain c where c: "c \<in> set (he_children e)" "bmap_get entries c = Some d" using d False by auto
      have "he_id d = c" using assms(2) c(2) unfolding ranked_def by blast
      moreover have "rank c < rank (he_id e)" using assms(2) less.prems(1) c(1) unfolding ranked_def by blast
      ultimately show ?thesis using c(2) by simp
    qed
    have dang: "dangling entries e \<longleftrightarrow> (\<exists>d \<in> set ?ds. dangling entries d)"
    proof
      assume "dangling entries e"
      then show "\<exists>d \<in> set ?ds. dangling entries d"
      proof cases
        case (dangling_here c)
        then show ?thesis using False by blast
      next
        case (dangling_child c d)
        then show ?thesis by (intro bexI [of _ d]) (auto intro!: image_eqI [of _ _ c])
      qed
    next
      assume "\<exists>d \<in> set ?ds. dangling entries d"
      then obtain c where c: "c \<in> set (he_children e)" "dangling entries (the (bmap_get entries c))" by auto
      then obtain d where "bmap_get entries c = Some d" using False by (cases "bmap_get entries c") auto
      with c show "dangling entries e" by (auto intro: dangling_child)
    qed
    have "processes P entries G1 (rev ?ds) st"
    proof (rule processes_append [OF G1(2)])
      show "\<forall>x \<in> set (rev ?ds). he_id x \<in> dom (bmap_get (snd G1))" using G1(4) by simp
      fix d G' st' assume "d \<in> set (rev ?ds)" "indices_ok P G'" "he_id d \<in> dom (bmap_get (snd G'))"
      then show "processes P entries G' [d] st'" using less.hyps [of d G' st'] ds [of d] by simp
    qed
    moreover have "list_all (\<lambda>e. \<not> dangling entries e) (rev ?ds) \<longleftrightarrow> \<not> dangling entries e"
      unfolding dang by (simp add: list_all_iff)
    ultimately show ?thesis
    proof (cases "dangling entries e")
      case False
      with \<open>processes P entries G1 (rev ?ds) st\<close> \<open>list_all _ _ \<longleftrightarrow> _\<close>
      obtain G' where "create_loop P entries G1 (rev ?ds @ st) = create_loop P entries G' st" "indices_ok P G'"
        "dom (bmap_get (snd G1)) \<subseteq> dom (bmap_get (snd G'))"
        unfolding processes_def by (simp del: split_paired_Ex) blast
      then have "create_loop P entries G ([e] @ st) = create_loop P entries G' st \<and> indices_ok P G'
          \<and> dom (bmap_get (snd G)) \<subseteq> dom (bmap_get (snd G'))"
        using loop G1(3) by auto
      moreover have "list_all (\<lambda>e. \<not> dangling entries e) [e]" using False by simp
      ultimately show ?thesis unfolding processes_def by (subst if_P) blast+
    qed (use loop in \<open>simp add: processes_def\<close>)
  qed
qed

text \<open>
  A history is built unless there is no entry for the root, or some entry below the root has a
  child without one, which panics.
\<close>

lemma history_new_spec:
  assumes "petgraph_ok P" "ranked rank entries"
  shows "bmap_get entries root = None \<Longrightarrow> history_new P root entries = Some (Some (Inl MissingRoot))"
    and "bmap_get entries root = Some e \<Longrightarrow> dangling entries e \<Longrightarrow> history_new P root entries = Some None"
    and "bmap_get entries root = Some e \<Longrightarrow> \<not> dangling entries e \<Longrightarrow>
      \<exists>h. history_new P root entries = Some (Some (Inr h)) \<and> hi_root h = root \<and> hi_entries h = entries"
proof -
  assume e: "bmap_get entries root = Some e"
  have i: "he_id e = root" using assms(2) e by (simp add: ranked_def)
  let ?g = "pg_add_node P (pg_new P) e"
  let ?G = "(snd ?g, bmap_insert (he_id e) (fst ?g) bmap_empty)"
  have "indices_ok P ?G" "he_id e \<in> dom (bmap_get (snd ?G))"
    using petgraph_building [OF assms(1)] by (auto simp: indices_ok_def bmap.lookup_insert bmap.lookup_empty split: if_splits)
  note l = create_loop_entry [OF assms(1,2) _ this, of "[]"]
  have c: "create_petgraph P root entries = create_loop P entries ?G [e]"
    using e by (simp add: create_petgraph_def split: prod.splits)
  show "dangling entries e \<Longrightarrow> history_new P root entries = Some None"
    using l e i by (simp add: history_new_def c processes_def)
  show "\<not> dangling entries e \<Longrightarrow>
      \<exists>h. history_new P root entries = Some (Some (Inr h)) \<and> hi_root h = root \<and> hi_entries h = entries"
    using l e i by (auto simp: history_new_def c create_loop_simps processes_def)
qed (simp add: history_new_def)

section \<open>Two defects\<close>

text \<open>
  The node of an extension is not entered into the indices, so that a history that was extended
  once cannot be extended again.
\<close>

lemma extend_twice_panics:
  "case history_new_from_root list_petgraph (1::nat) (Urn 0 None) (Automerge ''a'') of
     Some (Some h) \<Rightarrow>
       (case history_extend list_petgraph h 2 (Urn 0 None) (Automerge ''b'') of
          Some h' \<Rightarrow> history_extend list_petgraph h' 3 (Urn 0 None) (Automerge ''c'') = None
        | None \<Rightarrow> False)
   | _ \<Rightarrow> False"
  by code_simp

text \<open>An entry with two parents gets a node for each, and a traversal folds it twice.\<close>

definition diamond :: "(nat, nat history_entry) bmap" where
  "diamond =
     map (\<lambda>(i, children). (i, \<lparr>he_id = i, he_author = Urn 0 None, he_children = children, he_contents = Automerge ''a''\<rparr>))
       [(1, [2, 3]), (2, [4]), (3, [4]), (4, [])]"

lemma diamond_folded_twice:
  "case history_new list_petgraph 1 diamond of
     Some (Some (Inr h)) \<Rightarrow>
       (case history_traverse list_petgraph h [] (\<lambda>ids e. Continue (he_id e # ids)) of
          Some ids \<Rightarrow> count_list ids 4 = 2
        | None \<Rightarrow> False)
   | _ \<Rightarrow> False"
  by code_simp

end
