(* ===== verification/Cob_Graph.thy ===== *)
theory Cob_Graph
  imports Cob_History
begin

text \<open>
  The change graph of a collaborative object (\<open>cob/src/change_graph.rs\<close>): it is loaded by
  walking backwards from the references to the object, and evaluated
  (\<open>cob/src/change_graph/evaluation.rs\<close>) by folding over it from the root, leaving out the
  changes that are not admitted and whatever depends on them.
\<close>

section \<open>Building a graph\<close>

record ('g, 'o) graph_builder =
  gb_indices :: "('o, nat) bmap"
  gb_graph :: 'g

definition builder_default :: "('g, 'o change) petgraph \<Rightarrow> ('g, 'o) graph_builder" where
  "builder_default P = \<lparr>gb_indices = bmap_empty, gb_graph = pg_new P\<rparr>"

definition has_edge :: "('g, 'o change) petgraph \<Rightarrow> ('g, 'o) graph_builder \<Rightarrow> 'o \<Rightarrow> 'o \<Rightarrow> bool" where
  "has_edge P b parent_id child_id =
     (case (bmap_get (gb_indices b) parent_id, bmap_get (gb_indices b) child_id) of
        (Some parent_ix, Some child_ix) \<Rightarrow> pg_contains_edge P (gb_graph b) parent_ix child_ix
      | _ \<Rightarrow> False)"

text \<open>The parents of a commit that are changes: neither the author, the schema nor the authorising identity.\<close>

definition change_parents :: "'o cob_repo \<Rightarrow> 'o \<Rightarrow> 'o change \<Rightarrow> 'o list" where
  "change_parents R commit c =
     filter (\<lambda>p. p \<noteq> ch_author_commit c \<and> Some p \<noteq> ch_schema_commit c \<and> p \<noteq> ch_authorizing_identity_commit c)
       (rp_parents R commit)"

definition add_change ::
  "('g, 'o change) petgraph \<Rightarrow> 'o cob_repo \<Rightarrow> ('g, 'o::linorder) graph_builder \<Rightarrow> 'o \<Rightarrow> 'o change \<Rightarrow>
   ('g, 'o) graph_builder \<times> ('o \<times> 'o) list" where
  "add_change P R b commit c =
     (let b = (if bmap_get (gb_indices b) commit = None then
           (let (ix, g) = pg_add_node P (gb_graph b) c in
            \<lparr>gb_indices = bmap_insert commit ix (gb_indices b), gb_graph = g\<rparr>)
         else b) in
      (b, map (\<lambda>p. (p, commit)) (filter (\<lambda>p. \<not> has_edge P b p commit) (change_parents R commit c))))"

definition add_edge ::
  "('g, 'o change) petgraph \<Rightarrow> ('g, 'o) graph_builder \<Rightarrow> 'o \<Rightarrow> 'o \<Rightarrow> ('g, 'o) graph_builder option" where
  "add_edge P b child parent =
     do {
       child_id \<leftarrow> bmap_get (gb_indices b) child;
       parent_id \<leftarrow> bmap_get (gb_indices b) parent;
       g \<leftarrow> pg_update_edge P (gb_graph b) parent_id child_id;
       Some (b\<lparr>gb_graph := g\<rparr>)
     }"

section \<open>Loading\<close>

datatype 'o graph_error = MissingRevision 'o | Graph_Git string

text \<open>The references: each is peeled to its commit, which may fail. The edges to process are a stack.\<close>

fun load_tips ::
  "('g, 'o change) petgraph \<Rightarrow> ('o, 'b) urn_env \<Rightarrow> multibase \<Rightarrow> 'o cob_repo \<Rightarrow> (string + 'o) list \<Rightarrow>
   ('g, 'o::linorder) graph_builder \<times> ('o \<times> 'o) list \<Rightarrow> 'o graph_error + ('g, 'o) graph_builder \<times> ('o \<times> 'o) list" where
  "load_tips P E M R [] st = Inr st"
| "load_tips P E M R (Inl e # refs) st = Inl (Graph_Git e)"
| "load_tips P E M R (Inr commit # refs) (b, edges) =
     (case change_load E M R commit of
        Inr c \<Rightarrow> (let (b, new_edges) = add_change P R b commit c in load_tips P E M R refs (b, rev new_edges @ edges))
      | Inl _ \<Rightarrow> load_tips P E M R refs (b, edges))"

text \<open>\<open>None\<close> when the loop does not end, \<open>Some None\<close> when it panics.\<close>

partial_function (option) load_loop ::
  "('g, 'o change) petgraph \<Rightarrow> ('o, 'b) urn_env \<Rightarrow> multibase \<Rightarrow> 'o cob_repo \<Rightarrow> ('g, 'o::linorder) graph_builder \<Rightarrow>
   ('o \<times> 'o) list \<Rightarrow> ('g, 'o) graph_builder option option" where
  "load_loop P E M R b edges =
     (case edges of
        [] \<Rightarrow> Some (Some b)
      | edge # edges \<Rightarrow>
          (case change_load E M R (fst edge) of
             Inl _ \<Rightarrow> load_loop P E M R b edges
           | Inr c \<Rightarrow>
               (case add_edge P (fst (add_change P R b (fst edge) c)) (snd edge) (fst edge) of
                  None \<Rightarrow> Some None
                | Some b' \<Rightarrow> load_loop P E M R b' (rev (snd (add_change P R b (fst edge) c)) @ edges))))"

definition graph_build :: "('g, 'o change) petgraph \<Rightarrow> ('g, 'o) graph_builder \<Rightarrow> 'g option" where
  "graph_build P b = (if pg_externals P (gb_graph b) Incoming \<noteq> [] then Some (gb_graph b) else None)"

definition change_graph_load ::
  "('g, 'o change) petgraph \<Rightarrow> ('o, 'b) urn_env \<Rightarrow> multibase \<Rightarrow> 'o cob_repo \<Rightarrow> (string + 'o::linorder) list \<Rightarrow>
   ('o graph_error + 'g option) option option" where
  "change_graph_load P E M R tip_refs =
     (case load_tips P E M R tip_refs (builder_default P, []) of
        Inl e \<Rightarrow> Some (Some (Inl e))
      | Inr (b, edges) \<Rightarrow> map_option (map_option (\<lambda>b. Inr (graph_build P b))) (load_loop P E M R b edges))"

section \<open>Evaluating\<close>

record 'o change_with_children =
  cc_change :: "'o change"
  cc_children :: "'o list"

definition evaluate_entries ::
  "'o cob_repo \<Rightarrow> 'o authorizing_identity \<Rightarrow> 'o::linorder change_with_children list \<Rightarrow> ('o, 'o history_entry) bmap" where
  "evaluate_entries R authorizing items =
     pruning_fold (\<lambda>c. ch_commit (cc_change c)) cc_children bmap_empty items
       (\<lambda>entries c. case evaluate_change R authorizing (cc_change c) (cc_children c) of
          Inl _ \<Rightarrow> Break entries
        | Inr entry \<Rightarrow> Continue (bmap_insert (ch_commit (cc_change c)) entry entries))"

text \<open>\<open>Evaluating::evaluate\<close>, whose \<open>unwrap\<close> panics when the root is rejected.\<close>

definition evaluating_evaluate ::
  "('h, 'o history_entry) petgraph \<Rightarrow> 'o cob_repo \<Rightarrow> 'o authorizing_identity \<Rightarrow> 'o::linorder \<Rightarrow> 'o change_with_children list \<Rightarrow>
   ('h, 'o) history option option" where
  "evaluating_evaluate Q R authorizing root items =
     map_option (\<lambda>r. case r of Some (Inr h) \<Rightarrow> Some h | _ \<Rightarrow> None)
       (history_new Q root (evaluate_entries R authorizing items))"

record ('h, 'o) collaborative_object =
  co_authorizing_identity_urn :: "'o urn"
  co_typename :: string
  co_history :: "('h, 'o) history"
  co_id :: 'o

definition graph_item :: "('g, 'o change) petgraph \<Rightarrow> 'g \<Rightarrow> nat \<Rightarrow> 'o change_with_children option" where
  "graph_item P g idx =
     do {
       node \<leftarrow> pg_node P g idx;
       children \<leftarrow> those (map (pg_node P g) (pg_targets P g idx));
       Some \<lparr>cc_change = node, cc_children = map ch_commit children\<rparr>
     }"

definition change_graph_evaluate ::
  "('g, 'o change) petgraph \<Rightarrow> ('h, 'o history_entry) petgraph \<Rightarrow> 'o cob_repo \<Rightarrow> 'o authorizing_identity \<Rightarrow> 'o::linorder \<Rightarrow> 'g \<Rightarrow>
   ('h, 'o) collaborative_object option option" where
  "change_graph_evaluate P Q R authorizing object_id g =
     (case sort (pg_externals P g Incoming) of
        [] \<Rightarrow> Some None
      | root # _ \<Rightarrow>
          (case (pg_node P g root, those (map (graph_item P g) (pg_topo P g))) of
             (Some root, Some items) \<Rightarrow>
               map_option (map_option (\<lambda>h.
                   \<lparr>co_authorizing_identity_urn = authorizer_urn authorizing, co_typename = mf_typename (ch_manifest root),
                    co_history = h, co_id = object_id\<rparr>))
                 (evaluating_evaluate Q R authorizing (ch_commit root) items)
           | _ \<Rightarrow> Some None))"

definition change_graph_tips :: "('g, 'o change) petgraph \<Rightarrow> 'g \<Rightarrow> 'o::linorder bset option" where
  "change_graph_tips P g =
     map_option (\<lambda>tips. bset_from_iter (map ch_commit tips))
       (those (map (pg_node P g) (pg_externals P g Outgoing)))"

section \<open>What is loaded\<close>

text \<open>
  The history of a commit in terms of the repository: its parents that are changes, and what is
  reached from the tips through changes that can be loaded.
\<close>

definition loadable :: "('o, 'b) urn_env \<Rightarrow> multibase \<Rightarrow> 'o cob_repo \<Rightarrow> 'o \<Rightarrow> bool" where
  "loadable E M R c = is_ok (change_load E M R c)"

definition parents_of :: "('o, 'b) urn_env \<Rightarrow> multibase \<Rightarrow> 'o cob_repo \<Rightarrow> 'o \<Rightarrow> 'o set" where
  "parents_of E M R c =
     {p \<in> set (rp_parents R c). \<exists>ch. change_load E M R c = Inr ch \<and> p \<noteq> ch_author_commit ch
        \<and> ch_schema_commit ch \<noteq> Some p \<and> p \<noteq> ch_authorizing_identity_commit ch \<and> loadable E M R p}"

lemma parents_of_loaded:
  "parents_of E M R c =
     (case change_load E M R c of Inr ch \<Rightarrow> {p \<in> set (change_parents R c ch). loadable E M R p} | Inl _ \<Rightarrow> {})"
  by (auto simp: parents_of_def change_parents_def split: sum.splits)

inductive reached :: "('o, 'b) urn_env \<Rightarrow> multibase \<Rightarrow> 'o cob_repo \<Rightarrow> (string + 'o) list \<Rightarrow> 'o \<Rightarrow> bool"
  for E M R tips where
  reached_tip: "Inr c \<in> set tips \<Longrightarrow> loadable E M R c \<Longrightarrow> reached E M R tips c"
| reached_parent: "reached E M R tips c \<Longrightarrow> p \<in> parents_of E M R c \<Longrightarrow> reached E M R tips p"

text \<open>Commits have no cycles.\<close>

definition acyclic_repo :: "'o cob_repo \<Rightarrow> ('o \<Rightarrow> nat) \<Rightarrow> bool" where
  "acyclic_repo R rank = (\<forall>c. \<forall>p \<in> set (rp_parents R c). rank p < rank c)"

lemma parents_of_rank: "acyclic_repo R rank \<Longrightarrow> p \<in> parents_of E M R c \<Longrightarrow> rank p < rank c"
  by (auto simp: parents_of_loaded change_parents_def acyclic_repo_def split: sum.splits)

lemma parents_of_loadable: "p \<in> parents_of E M R c \<Longrightarrow> loadable E M R p"
  by (auto simp: parents_of_loaded split: sum.splits)

lemma reached_loadable: "reached E M R tips c \<Longrightarrow> loadable E M R c"
  by (induction rule: reached.induct) (auto dest: parents_of_loadable)

text \<open>A builder whose nodes are loaded changes, indexed by commit, and whose edges go from parents to children.\<close>

definition builder_ok ::
  "('g, 'o change) petgraph \<Rightarrow> ('o, 'b) urn_env \<Rightarrow> multibase \<Rightarrow> 'o cob_repo \<Rightarrow> ('g, 'o::linorder) graph_builder \<Rightarrow> bool" where
  "builder_ok P E M R b =
     (bmap_ok (gb_indices b) \<and> pg_wf P (gb_graph b)
      \<and> (\<forall>c i. bmap_get (gb_indices b) c = Some i \<longleftrightarrow> pg_node P (gb_graph b) i \<noteq> None \<and> ch_commit (pg_nodes P (gb_graph b) ! i) = c)
      \<and> (\<forall>c \<in> set (pg_nodes P (gb_graph b)). change_load E M R (ch_commit c) = Inr c)
      \<and> (\<forall>p c. has_edge P b p c \<longrightarrow> p \<in> parents_of E M R c))"

definition builder_commits :: "('g, 'o) graph_builder \<Rightarrow> 'o set" where
  "builder_commits b = dom (bmap_get (gb_indices b))"

lemma builder_default_ok:
  assumes "petgraph_ok P"
  shows "builder_ok P E M R (builder_default P)" "builder_commits (builder_default P) = {}"
  using petgraph_building(1,2) [OF assms]
  by (auto simp: builder_ok_def builder_default_def builder_commits_def pg_wf_def pg_node_def has_edge_def bmap.lookup_empty)

lemma change_load_commit: "change_load E M R commit = Inr c \<Longrightarrow> ch_commit c = commit"
  by (auto simp: change_load_def)

lemma pg_node_add:
  assumes "petgraph_ok P"
  shows "pg_node P (snd (pg_add_node P g n)) i = (if i = length (pg_nodes P g) then Some n else pg_node P g i)"
  using petgraph_building(4) [OF assms, of g n] by (auto simp: pg_node_def nth_append)

lemma builder_ok_indices:
  "builder_ok P E M R b \<Longrightarrow> bmap_get (gb_indices b) c = Some i \<Longrightarrow> i < length (pg_nodes P (gb_graph b))"
  unfolding builder_ok_def pg_node_def by (metis option.distinct(1))

lemma add_change_spec:
  assumes "petgraph_ok P" "builder_ok P E M R b" "change_load E M R commit = Inr c" "add_change P R b commit c = (b', new)"
  shows "builder_ok P E M R b'" "builder_commits b' = insert commit (builder_commits b)" "has_edge P b' = has_edge P b"
    "new = map (\<lambda>p. (p, commit)) (filter (\<lambda>p. \<not> has_edge P b p commit) (change_parents R commit c))"
proof -
  let ?g = "gb_graph b" and ?n = "length (pg_nodes P (gb_graph b))"
  have c: "ch_commit c = commit" using change_load_commit [OF assms(3)] .
  note new = petgraph_building(3-5) [OF assms(1), of ?g c]
  have ok: "bmap_ok (gb_indices b)" "pg_wf P ?g"
    "\<And>c i. bmap_get (gb_indices b) c = Some i \<longleftrightarrow> pg_node P ?g i \<noteq> None \<and> ch_commit (pg_nodes P ?g ! i) = c"
    "\<And>c. c \<in> set (pg_nodes P ?g) \<Longrightarrow> change_load E M R (ch_commit c) = Inr c"
    "\<And>p c. has_edge P b p c \<Longrightarrow> p \<in> parents_of E M R c"
    using assms(2) by (auto simp: builder_ok_def)
  have all: "builder_ok P E M R b' \<and> builder_commits b' = insert commit (builder_commits b) \<and> has_edge P b' = has_edge P b"
  proof (cases "bmap_get (gb_indices b) commit")
    case None
    then have b': "b' = \<lparr>gb_indices = bmap_insert commit ?n (gb_indices b), gb_graph = snd (pg_add_node P ?g c)\<rparr>"
      using assms(4) new(1) by (auto simp: add_change_def Let_def split: prod.splits)
    have lk: "bmap_get (gb_indices b') = (bmap_get (gb_indices b))(commit \<mapsto> ?n)"
      using ok(1) by (auto simp: b' bmap.lookup_insert)
    have ne: "(i, ?n) \<notin> set (pg_edges P ?g)" "(?n, i) \<notin> set (pg_edges P ?g)" for i
      using ok(2) by (auto simp: pg_wf_def)
    have h: "has_edge P b' = has_edge P b"
      unfolding has_edge_def lk using new(3) ne None petgraph_reading(1) [OF assms(1)]
      by (intro ext) (auto simp: b' split: option.splits)
    have "pg_wf P (gb_graph b')" using ok(2) new by (fastforce simp: pg_wf_def b')
    moreover have "bmap_get (gb_indices b') x = Some i \<longleftrightarrow>
        pg_node P (gb_graph b') i \<noteq> None \<and> ch_commit (pg_nodes P (gb_graph b') ! i) = x" for x i
      using ok(3) [of x i] ok(3) [of x ?n] None new(2) c unfolding lk
      by (auto simp: b' pg_node_add [OF assms(1)] nth_append pg_node_def split: if_splits)
    moreover have "\<forall>x \<in> set (pg_nodes P (gb_graph b')). change_load E M R (ch_commit x) = Inr x"
      using ok(4) new(2) assms(3) c by (auto simp: b')
    ultimately have "builder_ok P E M R b'" using ok(1,5) h by (simp add: builder_ok_def b')
    then show ?thesis using h lk by (auto simp: builder_commits_def)
  next
    case (Some i)
    then show ?thesis using assms(2,4) by (auto simp: add_change_def builder_commits_def)
  qed
  then show "builder_ok P E M R b'" "builder_commits b' = insert commit (builder_commits b)" "has_edge P b' = has_edge P b" by simp_all
  show "new = map (\<lambda>p. (p, commit)) (filter (\<lambda>p. \<not> has_edge P b p commit) (change_parents R commit c))"
    using assms(4) all by (auto simp: add_change_def Let_def)
qed

lemma add_edge_spec:
  assumes "petgraph_ok P" "builder_ok P E M R b" "child \<in> builder_commits b" "parent \<in> builder_commits b"
    and "parent \<in> parents_of E M R child"
  obtains b' where "add_edge P b child parent = Some b'" "builder_ok P E M R b'" "builder_commits b' = builder_commits b"
    "\<And>p c. has_edge P b' p c \<longleftrightarrow> has_edge P b p c \<or> p = parent \<and> c = child"
proof -
  obtain i j where ij: "bmap_get (gb_indices b) parent = Some i" "bmap_get (gb_indices b) child = Some j"
    using assms(3,4) by (auto simp: builder_commits_def)
  have r: "i < length (pg_nodes P (gb_graph b))" "j < length (pg_nodes P (gb_graph b))"
    using builder_ok_indices [OF assms(2)] ij by blast+
  obtain g where g: "pg_update_edge P (gb_graph b) i j = Some g" "pg_nodes P g = pg_nodes P (gb_graph b)"
    "set (pg_edges P g) = insert (i, j) (set (pg_edges P (gb_graph b)))"
    using update_edgeE [OF assms(1) r] by blast
  let ?b = "b\<lparr>gb_graph := g\<rparr>"
  have inj: "p = parent" if "bmap_get (gb_indices b) p = Some i" for p
    using that ij(1) assms(2) unfolding builder_ok_def by metis
  have inj': "c = child" if "bmap_get (gb_indices b) c = Some j" for c
    using that ij(2) assms(2) unfolding builder_ok_def by metis
  have h: "has_edge P ?b p c \<longleftrightarrow> has_edge P b p c \<or> p = parent \<and> c = child" for p c
    using ij inj [of p] inj' [of c] g(3) petgraph_reading(1) [OF assms(1)]
    by (cases "bmap_get (gb_indices b) p"; cases "bmap_get (gb_indices b) c") (auto simp: has_edge_def)
  have "pg_wf P g" using assms(2) g r by (auto simp: builder_ok_def pg_wf_def)
  then have "builder_ok P E M R ?b"
    using assms(2,5) h g(2) by (simp add: builder_ok_def pg_node_def)
  then show thesis using that [of ?b] ij g(1) h by (simp add: add_edge_def builder_commits_def)
qed

text \<open>
  While loading, everything found so far is reached, and what is missing of the parents of a node
  is still to be processed.
\<close>

definition load_inv ::
  "('g, 'o change) petgraph \<Rightarrow> ('o, 'b) urn_env \<Rightarrow> multibase \<Rightarrow> 'o cob_repo \<Rightarrow> (string + 'o) list \<Rightarrow> ('o \<Rightarrow> bool) \<Rightarrow>
   ('g, 'o::linorder) graph_builder \<Rightarrow> ('o \<times> 'o) list \<Rightarrow> bool" where
  "load_inv P E M R tips found b edges =
     (builder_ok P E M R b \<and> (\<forall>c \<in> builder_commits b. reached E M R tips c)
      \<and> (\<forall>c. found c \<longrightarrow> loadable E M R c \<longrightarrow> c \<in> builder_commits b)
      \<and> (\<forall>(p, c) \<in> set edges. c \<in> builder_commits b \<and> (loadable E M R p \<longrightarrow> p \<in> parents_of E M R c))
      \<and> (\<forall>c \<in> builder_commits b. \<forall>p \<in> parents_of E M R c. has_edge P b p c \<or> (p, c) \<in> set edges))"

lemma has_edge_commits: "has_edge P b p c \<Longrightarrow> p \<in> builder_commits b \<and> c \<in> builder_commits b"
  by (auto simp: has_edge_def builder_commits_def split: option.splits)

lemma new_edges:
  assumes "change_load E M R commit = Inr c" "new = map (\<lambda>p. (p, commit)) (filter (\<lambda>p. \<not> has_edge P b p commit) (change_parents R commit c))"
  shows "\<And>p c'. (p, c') \<in> set new \<Longrightarrow> c' = commit \<and> (loadable E M R p \<longrightarrow> p \<in> parents_of E M R commit)"
    "\<And>p. p \<in> parents_of E M R commit \<Longrightarrow> has_edge P b p commit \<or> (p, commit) \<in> set new"
  using assms by (auto simp: parents_of_loaded)

lemma load_inv_add:
  assumes "petgraph_ok P" "load_inv P E M R tips found b edges" "change_load E M R commit = Inr c" "reached E M R tips commit"
    and "add_change P R b commit c = (b', new)"
  shows "load_inv P E M R tips (\<lambda>x. found x \<or> x = commit) b' (rev new @ edges)"
proof -
  have ok: "builder_ok P E M R b" using assms(2) by (simp add: load_inv_def)
  note spec = add_change_spec [OF assms(1) ok assms(3,5)]
  note new = new_edges [OF assms(3) spec(4)]
  show ?thesis
    using assms(2,4) spec(1-3) new unfolding load_inv_def by (auto split: prod.splits)
qed

lemma load_inv_weaken: "load_inv P E M R tips found b edges \<Longrightarrow> (\<And>x. found' x \<Longrightarrow> found x) \<Longrightarrow> load_inv P E M R tips found' b edges"
  unfolding load_inv_def by blast

lemma load_tips_spec:
  assumes "petgraph_ok P" "load_inv P E M R tips found b edges" "set refs \<subseteq> set tips" "Inl ` UNIV \<inter> set refs = {}"
  shows "\<exists>b' edges'. load_tips P E M R refs (b, edges) = Inr (b', edges')
    \<and> load_inv P E M R tips (\<lambda>x. found x \<or> Inr x \<in> set refs) b' edges'"
  using assms(2-)
proof (induction refs arbitrary: b edges found)
  case (Cons r refs)
  then obtain commit where r: "r = Inr commit" by (cases r) auto
  show ?case
  proof (cases "change_load E M R commit")
    case (Inl e)
    then have "load_inv P E M R tips (\<lambda>x. found x \<or> x = commit) b edges"
      using Cons.prems(1) by (auto simp: load_inv_def loadable_def)
    from Cons.IH [OF this] Cons.prems(2,3) Inl r show ?thesis by (auto simp: disj_commute disj_left_commute)
  next
    case (Inr c)
    obtain b' new where a: "add_change P R b commit c = (b', new)" by fastforce
    have "reached E M R tips commit" using Cons.prems(2) r Inr by (auto intro: reached_tip simp: loadable_def)
    from Cons.IH [OF load_inv_add [OF assms(1) Cons.prems(1) Inr this a]] Cons.prems(2,3) Inr r a
    show ?thesis by (auto simp: disj_commute disj_left_commute)
  qed
qed simp

text \<open>Processing an edge processes everything above it, and then what was left before.\<close>

definition loads ::
  "('g, 'o change) petgraph \<Rightarrow> ('o, 'b) urn_env \<Rightarrow> multibase \<Rightarrow> 'o cob_repo \<Rightarrow> (string + 'o) list \<Rightarrow> ('o \<Rightarrow> bool) \<Rightarrow>
   ('o::linorder \<times> 'o) list \<Rightarrow> bool" where
  "loads P E M R tips found xs =
     (\<forall>b st. load_inv P E M R tips found b (xs @ st) \<longrightarrow>
        (\<exists>b'. load_loop P E M R b (xs @ st) = load_loop P E M R b' st \<and> load_inv P E M R tips found b' st))"

lemma loads_list: "(\<And>x. x \<in> set xs \<Longrightarrow> loads P E M R tips found [x]) \<Longrightarrow> loads P E M R tips found xs"
proof (induction xs)
  case (Cons x xs)
  show ?case unfolding loads_def
  proof (intro allI impI)
    fix b st assume "load_inv P E M R tips found b ((x # xs) @ st)"
    moreover have "loads P E M R tips found [x]" using Cons.prems by simp
    ultimately obtain b1 where b1: "load_loop P E M R b (x # xs @ st) = load_loop P E M R b1 (xs @ st)"
      "load_inv P E M R tips found b1 (xs @ st)" unfolding loads_def by fastforce
    moreover have "loads P E M R tips found xs" using Cons by simp
    ultimately show "\<exists>b'. load_loop P E M R b ((x # xs) @ st) = load_loop P E M R b' st \<and> load_inv P E M R tips found b' st"
      unfolding loads_def by fastforce
  qed
qed (auto simp: loads_def)

lemma load_loop_simps:
  "load_loop P E M R b [] = Some (Some b)"
  "load_loop P E M R b (edge # edges) =
     (case change_load E M R (fst edge) of
        Inl _ \<Rightarrow> load_loop P E M R b edges
      | Inr c \<Rightarrow>
          (case add_edge P (fst (add_change P R b (fst edge) c)) (snd edge) (fst edge) of
             None \<Rightarrow> Some None
           | Some b' \<Rightarrow> load_loop P E M R b' (rev (snd (add_change P R b (fst edge) c)) @ edges)))"
  by (simp_all add: load_loop.simps [of P E M R b "[]"] load_loop.simps [of P E M R b "edge # edges"])

lemma loads_edge:
  assumes "petgraph_ok P" "acyclic_repo R rank"
  shows "loads P E M R tips found [(p, c)]"
proof (induction "rank p" arbitrary: p c rule: less_induct)
  case less
  show ?case unfolding loads_def append_Cons append_Nil
  proof (intro allI impI)
    fix b st assume inv: "load_inv P E M R tips found b ((p, c) # st)"
    then have ok: "builder_ok P E M R b" and c: "c \<in> builder_commits b" by (simp_all add: load_inv_def)
    show "\<exists>b'. load_loop P E M R b ((p, c) # st) = load_loop P E M R b' st \<and> load_inv P E M R tips found b' st"
    proof (cases "change_load E M R p")
      case (Inl e)
      have "\<not> loadable E M R p" using Inl by (simp add: loadable_def)
      then have "\<forall>x \<in> builder_commits b. \<forall>q \<in> parents_of E M R x. has_edge P b q x \<or> (q, x) \<in> set st"
        using inv parents_of_loadable unfolding load_inv_def by (metis Pair_inject set_ConsD)
      then have "load_inv P E M R tips found b st" using inv by (simp add: load_inv_def)
      then show ?thesis using Inl by (auto simp: load_loop_simps)
    next
      case (Inr ch)
      then have l: "loadable E M R p" by (simp add: loadable_def)
      then have pc: "p \<in> parents_of E M R c" and rc: "reached E M R tips c" using inv c by (auto simp: load_inv_def)
      obtain b1 new where a: "add_change P R b p ch = (b1, new)" by fastforce
      note spec = add_change_spec [OF assms(1) ok Inr a]
      note i1 = load_inv_add [OF assms(1) inv Inr reached_parent [OF rc pc] a]
      obtain b2 where b2: "add_edge P b1 c p = Some b2" "builder_ok P E M R b2" "builder_commits b2 = builder_commits b1"
        "\<And>p' c'. has_edge P b2 p' c' \<longleftrightarrow> has_edge P b1 p' c' \<or> p' = p \<and> c' = c"
        using add_edge_spec [OF assms(1) spec(1) _ _ pc] c spec(2) by blast
      have i2: "load_inv P E M R tips found b2 (rev new @ st)"
        using i1 b2(2-4) unfolding load_inv_def by auto
      have "loads P E M R tips found (rev new)"
      proof (rule loads_list)
        fix x assume "x \<in> set (rev new)"
        then obtain q where x: "x = (q, p)" "q \<in> set (rp_parents R p)" using spec(4) by (auto simp: change_parents_def)
        then have "rank q < rank p" using assms(2) by (simp add: acyclic_repo_def)
        then show "loads P E M R tips found [x]" using less.hyps x(1) by simp
      qed
      then obtain b3 where "load_loop P E M R b2 (rev new @ st) = load_loop P E M R b3 st" "load_inv P E M R tips found b3 st"
        using i2 unfolding loads_def by blast
      then show ?thesis using Inr a b2(1) by (auto simp: load_loop_simps)
    qed
  qed
qed

text \<open>The graph of everything reached from the tips.\<close>

definition graph_of ::
  "('g, 'o change) petgraph \<Rightarrow> ('o, 'b) urn_env \<Rightarrow> multibase \<Rightarrow> 'o cob_repo \<Rightarrow> (string + 'o) list \<Rightarrow> 'g \<Rightarrow> bool" where
  "graph_of P E M R tips g =
     (distinct (map ch_commit (pg_nodes P g))
      \<and> (\<forall>c. c \<in> set (pg_nodes P g) \<longleftrightarrow> reached E M R tips (ch_commit c) \<and> change_load E M R (ch_commit c) = Inr c)
      \<and> (\<forall>i j. (i, j) \<in> set (pg_edges P g) \<longleftrightarrow> i < length (pg_nodes P g) \<and> j < length (pg_nodes P g)
           \<and> ch_commit (pg_nodes P g ! i) \<in> parents_of E M R (ch_commit (pg_nodes P g ! j))))"

lemma load_inv_complete:
  assumes "load_inv P E M R tips (\<lambda>x. Inr x \<in> set tips) b []" "reached E M R tips c"
  shows "c \<in> builder_commits b"
  using assms(2)
proof (induction rule: reached.induct)
  case (reached_tip c)
  then show ?case using assms(1) by (simp add: load_inv_def)
next
  case (reached_parent c p)
  then have "has_edge P b p c" using assms(1) by (simp add: load_inv_def)
  then show ?case by (rule has_edge_commits [THEN conjunct1])
qed

lemma load_inv_graph:
  assumes "petgraph_ok P" "load_inv P E M R tips (\<lambda>x. Inr x \<in> set tips) b []"
  shows "graph_of P E M R tips (gb_graph b)"
proof -
  let ?ns = "pg_nodes P (gb_graph b)" and ?es = "set (pg_edges P (gb_graph b))"
  have ok: "pg_wf P (gb_graph b)" "\<And>c i. bmap_get (gb_indices b) c = Some i \<longleftrightarrow> i < length ?ns \<and> ch_commit (?ns ! i) = c"
    "\<And>c. c \<in> set ?ns \<Longrightarrow> change_load E M R (ch_commit c) = Inr c" "\<And>p c. has_edge P b p c \<Longrightarrow> p \<in> parents_of E M R c"
    using assms(2) by (auto simp: load_inv_def builder_ok_def pg_node_def)
  have reach: "c \<in> builder_commits b \<longleftrightarrow> reached E M R tips c" for c
    using assms(2) load_inv_complete [OF assms(2)] by (auto simp: load_inv_def)
  have idx: "bmap_get (gb_indices b) (ch_commit (?ns ! i)) = Some i" if "i < length ?ns" for i
    using ok(2) that by blast
  have "distinct (map ch_commit ?ns)"
    unfolding distinct_conv_nth using idx by (metis length_map nth_map option.inject)
  moreover have "c \<in> set ?ns \<longleftrightarrow> reached E M R tips (ch_commit c) \<and> change_load E M R (ch_commit c) = Inr c" for c
  proof
    assume c: "c \<in> set ?ns"
    then obtain i where "i < length ?ns" "?ns ! i = c" by (auto simp: in_set_conv_nth)
    then have "ch_commit c \<in> builder_commits b" using idx by (auto simp: builder_commits_def)
    then show "reached E M R tips (ch_commit c) \<and> change_load E M R (ch_commit c) = Inr c" using reach ok(3) c by simp
  next
    assume c: "reached E M R tips (ch_commit c) \<and> change_load E M R (ch_commit c) = Inr c"
    then obtain i where "i < length ?ns" "ch_commit (?ns ! i) = ch_commit c"
      using reach [of "ch_commit c"] ok(2) by (auto simp: builder_commits_def)
    then show "c \<in> set ?ns" using ok(3) [of "?ns ! i"] c by (metis nth_mem sum.inject(2))
  qed
  moreover have "(i, j) \<in> ?es \<longleftrightarrow> i < length ?ns \<and> j < length ?ns
      \<and> ch_commit (?ns ! i) \<in> parents_of E M R (ch_commit (?ns ! j))" for i j
  proof (cases "i < length ?ns \<and> j < length ?ns")
    case True
    then have h: "has_edge P b (ch_commit (?ns ! i)) (ch_commit (?ns ! j)) \<longleftrightarrow> (i, j) \<in> ?es"
      using idx petgraph_reading(1) [OF assms(1)] by (simp add: has_edge_def)
    have "ch_commit (?ns ! j) \<in> builder_commits b" using idx True by (auto simp: builder_commits_def)
    then show ?thesis using True h ok(4) assms(2) by (auto simp: load_inv_def)
  next
    case False
    then show ?thesis using ok(1) by (auto simp: pg_wf_def)
  qed
  ultimately show ?thesis unfolding graph_of_def by blast
qed

lemma graph_of_wf: "graph_of P E M R tips g \<Longrightarrow> pg_wf P g"
  by (auto simp: graph_of_def pg_wf_def)

lemma graph_of_acyclic:
  assumes "graph_of P E M R tips g" "acyclic_repo R rank"
  shows "acyclic (set (pg_edges P g))"
proof -
  have "rank (ch_commit (pg_nodes P g ! i)) < rank (ch_commit (pg_nodes P g ! j))" if "(i, j) \<in> set (pg_edges P g)" for i j
  proof -
    have "ch_commit (pg_nodes P g ! i) \<in> parents_of E M R (ch_commit (pg_nodes P g ! j))"
      using that assms(1) by (simp add: graph_of_def)
    then show ?thesis by (rule parents_of_rank [OF assms(2)])
  qed
  then have "acyclic ((set (pg_edges P g))\<inverse>)"
    by (intro acyclicI_order [where f = "\<lambda>i. rank (ch_commit (pg_nodes P g ! i))"]) simp
  then show ?thesis by simp
qed

text \<open>An acyclic graph with nodes has one without predecessors.\<close>

lemma graph_root:
  assumes "petgraph_ok P" "pg_wf P g" "acyclic (set (pg_edges P g))"
  shows "pg_externals P g Incoming = [] \<longleftrightarrow> pg_nodes P g = []"
proof -
  have "\<exists>i < length (pg_nodes P g). \<forall>a. (a, i) \<notin> set (pg_edges P g)" if "pg_nodes P g \<noteq> []"
  proof -
    have "[0..<length (pg_nodes P g)] \<noteq> []" using that by simp
    then obtain i where "i < length (pg_nodes P g)" "\<And>a. (a, i) \<in> set (pg_edges P g) \<Longrightarrow> \<not> a < length (pg_nodes P g)"
      using minimal_node [OF assms(3), of "[0..<length (pg_nodes P g)]"] by auto
    then show ?thesis using assms(2) unfolding pg_wf_def by (metis (no_types, lifting) case_prodD)
  qed
  moreover have "pg_externals P g Incoming = [] \<longleftrightarrow> set (pg_externals P g Incoming) = {}" by simp
  ultimately show ?thesis unfolding petgraph_reading(2) [OF assms(1)] by auto
qed

lemma load_tips_error: "Inl x \<in> set refs \<Longrightarrow> \<exists>e. load_tips P E M R refs st = Inl e"
proof (induction refs arbitrary: st)
  case (Cons r refs)
  then show ?case by (cases r; cases st) (auto split: sum.splits prod.splits)
qed simp

lemma change_graph_loaded:
  assumes "petgraph_ok P" "acyclic_repo R rank" "Inl ` UNIV \<inter> set tips = {}"
  obtains b where "change_graph_load P E M R tips = Some (Some (Inr (graph_build P b)))" "graph_of P E M R tips (gb_graph b)"
proof -
  have "load_inv P E M R tips (\<lambda>_. False) (builder_default P) []"
    using builder_default_ok [OF assms(1)] by (simp add: load_inv_def)
  from load_tips_spec [OF assms(1) this subset_refl assms(3)] obtain b edges
    where t: "load_tips P E M R tips (builder_default P, []) = Inr (b, edges)" "load_inv P E M R tips (\<lambda>x. Inr x \<in> set tips) b edges"
    by auto
  have "loads P E M R tips (\<lambda>x. Inr x \<in> set tips) edges"
    by (rule loads_list) (metis loads_edge [OF assms(1,2)] surj_pair)
  then obtain b' where b': "load_loop P E M R b edges = load_loop P E M R b' []" "load_inv P E M R tips (\<lambda>x. Inr x \<in> set tips) b' []"
    using t(2) unfolding loads_def by (metis append_Nil2)
  show thesis using that [of b'] load_inv_graph [OF assms(1) b'(2)] b'(1) t(1) by (simp add: change_graph_load_def load_loop_simps)
qed

section \<open>What is evaluated\<close>

text \<open>
  Acceptance in terms of the repository: a change is admitted on its own, and accepted when all
  its ancestors are admitted as well.
\<close>

inductive ancestor :: "('o, 'b) urn_env \<Rightarrow> multibase \<Rightarrow> 'o cob_repo \<Rightarrow> 'o \<Rightarrow> 'o \<Rightarrow> bool" for E M R where
  ancestor_parent: "d \<in> parents_of E M R c \<Longrightarrow> ancestor E M R d c"
| ancestor_step: "ancestor E M R d e \<Longrightarrow> e \<in> parents_of E M R c \<Longrightarrow> ancestor E M R d c"

lemma ancestor_trans: "ancestor E M R d e \<Longrightarrow> ancestor E M R e c \<Longrightarrow> ancestor E M R d c"
  by (rotate_tac, induction rule: ancestor.induct) (auto intro: ancestor.intros)

definition admitted :: "('o, 'b) urn_env \<Rightarrow> multibase \<Rightarrow> 'o cob_repo \<Rightarrow> 'o authorizing_identity \<Rightarrow> 'o \<Rightarrow> bool" where
  "admitted E M R a c = (\<exists>ch author. change_load E M R c = Inr ch \<and> change_authorized R a ch author)"

definition accepted :: "('o, 'b) urn_env \<Rightarrow> multibase \<Rightarrow> 'o cob_repo \<Rightarrow> 'o authorizing_identity \<Rightarrow> 'o \<Rightarrow> bool" where
  "accepted E M R a c = (admitted E M R a c \<and> (\<forall>d. ancestor E M R d c \<longrightarrow> admitted E M R a d))"

lemma accepted_ancestor: "accepted E M R a c \<Longrightarrow> ancestor E M R d c \<Longrightarrow> accepted E M R a d"
  using ancestor_trans [of E M R _ d c] by (auto simp: accepted_def)

text \<open>The nodes with their children, in topological order.\<close>

definition item_at :: "('g, 'o change) petgraph \<Rightarrow> 'g \<Rightarrow> nat \<Rightarrow> 'o change_with_children" where
  "item_at P g i =
     \<lparr>cc_change = pg_nodes P g ! i, cc_children = map (\<lambda>j. ch_commit (pg_nodes P g ! j)) (pg_targets P g i)\<rparr>"

lemma those_map: "(\<And>x. x \<in> set xs \<Longrightarrow> f x = Some (h x)) \<Longrightarrow> those (map f xs) = Some (map h xs)"
  by (induction xs) auto

lemma graph_items:
  assumes "petgraph_ok P" "pg_wf P g" "set order \<subseteq> {..<length (pg_nodes P g)}"
  shows "those (map (graph_item P g) order) = Some (map (item_at P g) order)"
proof (rule those_map)
  fix i assume "i \<in> set order"
  then have i: "i < length (pg_nodes P g)" using assms(3) by auto
  then have "j < length (pg_nodes P g)" if "j \<in> set (pg_targets P g i)" for j
    using that petgraph_reading(4) [OF assms(1) i] assms(2) by (auto simp: pg_wf_def)
  then have "those (map (pg_node P g) (pg_targets P g i)) = Some (map (\<lambda>j. pg_nodes P g ! j) (pg_targets P g i))"
    by (intro those_map) (simp add: pg_node_def)
  then show "graph_item P g i = Some (item_at P g i)" using i by (simp add: graph_item_def item_at_def pg_node_def comp_def)
qed

lemma topo_orderedI:
  assumes "distinct (map ident items)"
    and "\<And>xs n ys m. items = xs @ n # ys \<Longrightarrow> m \<in> set (n # ys) \<Longrightarrow> ident n \<notin> set (child_ids m)"
  shows "topo_ordered ident child_ids items"
  using assms
proof (induction items)
  case (Cons x items)
  have "topo_ordered ident child_ids items"
  proof (rule Cons.IH)
    show "distinct (map ident items)" using Cons.prems(1) by simp
    fix xs n ys m assume "items = xs @ n # ys" "m \<in> set (n # ys)"
    then show "ident n \<notin> set (child_ids m)" using Cons.prems(2) [of "x # xs" n ys m] by simp
  qed
  then show ?case using Cons.prems(1) Cons.prems(2) [of "[]" x items] by auto
qed simp

lemma topo_ordered_distinct: "topo_ordered ident child_ids items \<Longrightarrow> distinct (map ident items)"
  by (induction items) auto

lemma graph_of_nth:
  assumes "graph_of P E M R tips g" "i < length (pg_nodes P g)"
  shows "change_load E M R (ch_commit (pg_nodes P g ! i)) = Inr (pg_nodes P g ! i)" "reached E M R tips (ch_commit (pg_nodes P g ! i))"
  using assms nth_mem by (auto simp: graph_of_def)

lemma graph_of_index:
  assumes "graph_of P E M R tips g" "reached E M R tips c"
  obtains i where "i < length (pg_nodes P g)" "ch_commit (pg_nodes P g ! i) = c"
proof -
  obtain ch where ch: "change_load E M R c = Inr ch"
    using reached_loadable [OF assms(2)] by (cases "change_load E M R c") (auto simp: loadable_def)
  then have "ch \<in> set (pg_nodes P g)" using assms change_load_commit [OF ch] by (simp add: graph_of_def)
  then show thesis using that change_load_commit [OF ch] by (metis in_set_conv_nth)
qed

lemma graph_of_inj:
  assumes "graph_of P E M R tips g" "i < length (pg_nodes P g)" "j < length (pg_nodes P g)"
    and "ch_commit (pg_nodes P g ! i) = ch_commit (pg_nodes P g ! j)"
  shows "i = j"
  using assms by (auto simp: graph_of_def distinct_conv_nth)

lemma item_children:
  assumes "petgraph_ok P" "graph_of P E M R tips g" "i < length (pg_nodes P g)" "j < length (pg_nodes P g)"
  shows "ch_commit (pg_nodes P g ! j) \<in> set (cc_children (item_at P g i))
    \<longleftrightarrow> ch_commit (pg_nodes P g ! i) \<in> parents_of E M R (ch_commit (pg_nodes P g ! j))"
proof -
  have "set (pg_targets P g i) = {b. (i, b) \<in> set (pg_edges P g)}" using petgraph_reading(4) [OF assms(1,3)] .
  moreover have "j' = j" if "ch_commit (pg_nodes P g ! j) = ch_commit (pg_nodes P g ! j')" "(i, j') \<in> set (pg_edges P g)" for j'
  proof -
    have "j' < length (pg_nodes P g)" using that(2) assms(2) by (simp add: graph_of_def)
    then show ?thesis using graph_of_inj [OF assms(2,4)] that(1) by metis
  qed
  ultimately show ?thesis using assms(2,3,4) by (auto simp: item_at_def graph_of_def)
qed

lemma item_children_set:
  assumes "petgraph_ok P" "graph_of P E M R tips g" "i < length (pg_nodes P g)"
  shows "set (cc_children (item_at P g i)) = {k. reached E M R tips k \<and> ch_commit (pg_nodes P g ! i) \<in> parents_of E M R k}"
proof (intro set_eqI iffI)
  fix k assume k: "k \<in> set (cc_children (item_at P g i))"
  then obtain j where j: "k = ch_commit (pg_nodes P g ! j)" "(i, j) \<in> set (pg_edges P g)"
    using petgraph_reading(4) [OF assms(1,3)] by (auto simp: item_at_def)
  then have "j < length (pg_nodes P g)" using assms(2) by (simp add: graph_of_def)
  then show "k \<in> {k. reached E M R tips k \<and> ch_commit (pg_nodes P g ! i) \<in> parents_of E M R k}"
    using item_children [OF assms] k j(1) graph_of_nth(2) [OF assms(2)] by simp
next
  fix k assume k: "k \<in> {k. reached E M R tips k \<and> ch_commit (pg_nodes P g ! i) \<in> parents_of E M R k}"
  then obtain j where "j < length (pg_nodes P g)" "ch_commit (pg_nodes P g ! j) = k" using graph_of_index [OF assms(2)] by blast
  then show "k \<in> set (cc_children (item_at P g i))" using item_children [OF assms] k by blast
qed

lemma items_ordered:
  assumes "petgraph_ok P" "graph_of P E M R tips g" "topo_of (set (pg_edges P g)) (length (pg_nodes P g)) order"
  shows "topo_ordered (\<lambda>c. ch_commit (cc_change c)) cc_children (map (item_at P g) order)"
proof (rule topo_orderedI)
  have o: "distinct order" "set order = {..<length (pg_nodes P g)}"
    "\<And>xs b ys a. order = xs @ b # ys \<Longrightarrow> (a, b) \<in> set (pg_edges P g) \<Longrightarrow> a \<in> set xs"
    using assms(3) by (auto simp: topo_of_def)
  have "inj_on (\<lambda>i. ch_commit (pg_nodes P g ! i)) (set order)"
    unfolding inj_on_def using graph_of_inj [OF assms(2)] o(2) by auto
  then show "distinct (map (\<lambda>c. ch_commit (cc_change c)) (map (item_at P g) order))"
    using o(1) by (simp add: comp_def item_at_def distinct_map)
  fix xs n ys m assume "map (item_at P g) order = xs @ n # ys" "m \<in> set (n # ys)"
  then obtain xs' i ys' where s: "order = xs' @ i # ys'" "n = item_at P g i" "ys = map (item_at P g) ys'"
    by (auto simp: map_eq_append_conv)
  obtain j where j: "j \<in> set (i # ys')" "m = item_at P g j" using \<open>m \<in> set (n # ys)\<close> s(2,3) by auto
  have "i < length (pg_nodes P g)" "j < length (pg_nodes P g)" using o(2) s(1) j(1) by auto
  moreover have "(j, i) \<notin> set (pg_edges P g)" using o(1) o(3) [OF s(1)] s(1) j(1) by auto
  ultimately have "ch_commit (pg_nodes P g ! j) \<notin> parents_of E M R (ch_commit (pg_nodes P g ! i))"
    using assms(2) by (simp add: graph_of_def)
  then show "ch_commit (cc_change n) \<notin> set (cc_children m)"
    using item_children [OF assms(1,2)] \<open>i < _\<close> \<open>j < _\<close> s(2) j(2) by (simp add: item_at_def)
qed

text \<open>A change of the graph is barred when some ancestor of it is not admitted.\<close>

lemma reached_ancestor: "ancestor E M R d c \<Longrightarrow> reached E M R tips c \<Longrightarrow> reached E M R tips d"
  by (induction rule: ancestor.induct) (auto intro: reached_parent)

definition item_ok :: "'o cob_repo \<Rightarrow> 'o authorizing_identity \<Rightarrow> 'o change_with_children \<Rightarrow> bool" where
  "item_ok R a n = is_ok (evaluate_change R a (cc_change n) (cc_children n))"

lemma item_ok_admitted:
  assumes "graph_of P E M R tips g" "i < length (pg_nodes P g)"
  shows "item_ok R a (item_at P g i) \<longleftrightarrow> admitted E M R a (ch_commit (pg_nodes P g ! i))"
proof -
  have "item_ok R a (item_at P g i) \<longleftrightarrow> (\<exists>e. evaluate_change R a (pg_nodes P g ! i) (cc_children (item_at P g i)) = Inr e)"
    unfolding item_ok_def by (cases "evaluate_change R a (pg_nodes P g ! i) (cc_children (item_at P g i))") (simp_all add: item_at_def)
  then show ?thesis using graph_of_nth(1) [OF assms] by (simp add: evaluate_change_Inr admitted_def)
qed

lemma barred_iff_ancestor:
  assumes "petgraph_ok P" "graph_of P E M R tips g" "set order = {..<length (pg_nodes P g)}" "i < length (pg_nodes P g)"
  shows "barred (\<lambda>c. ch_commit (cc_change c)) cc_children (item_ok R a) (map (item_at P g) order) (item_at P g i)
    \<longleftrightarrow> (\<exists>d. ancestor E M R d (ch_commit (pg_nodes P g ! i)) \<and> \<not> admitted E M R a d)"
    (is "barred ?id ?ch ?ok ?items _ \<longleftrightarrow> _")
proof
  have item: "\<exists>j < length (pg_nodes P g). m = item_at P g j" if "m \<in> set ?items" for m
    using that assms(3) by auto
  assume "barred ?id ?ch ?ok ?items (item_at P g i)"
  then show "\<exists>d. ancestor E M R d (ch_commit (pg_nodes P g ! i)) \<and> \<not> admitted E M R a d"
    using assms(4)
  proof (induction "item_at P g i" arbitrary: i rule: barred.induct)
    case (barred_parent m)
    obtain j where j: "j < length (pg_nodes P g)" "m = item_at P g j" using item [OF barred_parent(1)] by blast
    then have "ch_commit (pg_nodes P g ! j) \<in> parents_of E M R (ch_commit (pg_nodes P g ! i))"
      using barred_parent(3,4) item_children [OF assms(1,2)] by (simp add: item_at_def)
    then show ?case using barred_parent(2) item_ok_admitted [OF assms(2) j(1)] j(2) by (auto intro: ancestor_parent)
  next
    case (barred_ancestor m)
    obtain j where j: "j < length (pg_nodes P g)" "m = item_at P g j" using item [OF barred_ancestor(1)] by blast
    then have "ch_commit (pg_nodes P g ! j) \<in> parents_of E M R (ch_commit (pg_nodes P g ! i))"
      using barred_ancestor(4,5) item_children [OF assms(1,2)] by (simp add: item_at_def)
    then show ?case using barred_ancestor(3) [OF j(2) j(1)] by (auto intro: ancestor_step)
  qed
next
  assume "\<exists>d. ancestor E M R d (ch_commit (pg_nodes P g ! i)) \<and> \<not> admitted E M R a d"
  then obtain d where d: "ancestor E M R d (ch_commit (pg_nodes P g ! i))" "\<not> admitted E M R a d" by blast
  have mem: "item_at P g j \<in> set ?items" if "j < length (pg_nodes P g)" for j using that assms(3) by auto
  show "barred ?id ?ch ?ok ?items (item_at P g i)"
    using d assms(4)
  proof (induction d "ch_commit (pg_nodes P g ! i)" arbitrary: i rule: ancestor.induct)
    case (ancestor_parent d)
    have "reached E M R tips d" using reached_parent [OF graph_of_nth(2) [OF assms(2)]] ancestor_parent by blast
    then obtain j where j: "j < length (pg_nodes P g)" "ch_commit (pg_nodes P g ! j) = d" using graph_of_index [OF assms(2)] by blast
    have "\<not> ?ok (item_at P g j)" using item_ok_admitted [OF assms(2) j(1)] j(2) ancestor_parent(2) by simp
    moreover have "?id (item_at P g i) \<in> set (?ch (item_at P g j))"
      using item_children [OF assms(1,2) j(1)] ancestor_parent j(2) by (simp add: item_at_def)
    ultimately show ?case by (rule barred_parent [OF mem [OF j(1)]])
  next
    case (ancestor_step d e)
    have "reached E M R tips e" using reached_parent [OF graph_of_nth(2) [OF assms(2)]] ancestor_step by blast
    then obtain j where j: "j < length (pg_nodes P g)" "ch_commit (pg_nodes P g ! j) = e" using graph_of_index [OF assms(2)] by blast
    have "?id (item_at P g i) \<in> set (?ch (item_at P g j))"
      using item_children [OF assms(1,2) j(1)] ancestor_step j(2) by (simp add: item_at_def)
    then show ?case by (rule barred_ancestor [OF mem [OF j(1)] ancestor_step(2) [OF j(2) [symmetric] ancestor_step(4) j(1)]])
  qed
qed

lemma fold_insert_get:
  assumes "distinct (map k xs)" "bmap_ok m"
  shows "bmap_get (fold (\<lambda>n s. if ok n then bmap_insert (k n) (v n) s else s) xs m) c = Some e \<longleftrightarrow>
      (\<exists>n \<in> set xs. ok n \<and> k n = c \<and> v n = e) \<or> bmap_get m c = Some e \<and> (\<forall>n \<in> set xs. ok n \<longrightarrow> k n \<noteq> c)"
  using assms
proof (induction xs arbitrary: m)
  case (Cons x xs)
  let ?m = "if ok x then bmap_insert (k x) (v x) m else m"
  have m: "bmap_ok ?m" using Cons.prems(2) by simp
  have "bmap_get ?m c = Some e \<longleftrightarrow> (if ok x \<and> k x = c then v x = e else bmap_get m c = Some e)"
    using bmap.lookup_insert [OF Cons.prems(2)] by auto
  moreover have "k x \<notin> k ` set xs" using Cons.prems(1) by simp
  ultimately show ?case using Cons.IH [OF _ m] Cons.prems(1) by (auto simp: image_iff)
qed simp

lemma evaluate_entries_spec:
  assumes "petgraph_ok P" "graph_of P E M R tips g" "topo_of (set (pg_edges P g)) (length (pg_nodes P g)) order"
  shows "bmap_get (evaluate_entries R a (map (item_at P g) order)) c = Some e \<longleftrightarrow>
    (\<exists>i < length (pg_nodes P g). c = ch_commit (pg_nodes P g ! i) \<and> accepted E M R a c
       \<and> evaluate_change R a (pg_nodes P g ! i) (cc_children (item_at P g i)) = Inr e)"
proof -
  let ?items = "map (item_at P g) order" and ?id = "\<lambda>c. ch_commit (cc_change c)"
  let ?bar = "barred ?id cc_children (item_ok R a) ?items"
  let ?v = "\<lambda>n. projr (evaluate_change R a (cc_change n) (cc_children n))"
  have o: "set order = {..<length (pg_nodes P g)}" using assms(3) by (simp add: topo_of_def)
  have topo: "topo_ordered ?id cc_children ?items" by (rule items_ordered [OF assms])
  then have d: "distinct (map ?id (filter (\<lambda>n. \<not> ?bar n) ?items))"
  proof -
    have "distinct (map ?id ?items)" using topo by (rule topo_ordered_distinct)
    then show ?thesis by (simp add: distinct_map_filter)
  qed
  have ev: "evaluate_entries R a ?items =
      fold (\<lambda>n s. if item_ok R a n then bmap_insert (?id n) (?v n) s else s) (filter (\<lambda>n. \<not> ?bar n) ?items) bmap_empty"
    unfolding evaluate_entries_def
    by (rule pruning_fold_pred [OF _ topo, where b = "\<lambda>n s. s"]) (auto simp: item_ok_def split: sum.splits)
  have item: "n \<in> set ?items \<longleftrightarrow> (\<exists>i < length (pg_nodes P g). n = item_at P g i)" for n using o by auto
  have acc: "item_ok R a (item_at P g i) \<and> \<not> ?bar (item_at P g i) \<longleftrightarrow> accepted E M R a (ch_commit (pg_nodes P g ! i))"
    if "i < length (pg_nodes P g)" for i
    using item_ok_admitted [OF assms(2) that] barred_iff_ancestor [OF assms(1,2) o that] by (auto simp: accepted_def)
  have val: "?v (item_at P g i) = e \<longleftrightarrow> evaluate_change R a (pg_nodes P g ! i) (cc_children (item_at P g i)) = Inr e"
    if "item_ok R a (item_at P g i)" for i e
    using that by (cases "evaluate_change R a (pg_nodes P g ! i) (cc_children (item_at P g i))") (simp_all add: item_ok_def item_at_def)
  have i: "?id (item_at P g i) = ch_commit (pg_nodes P g ! i)" for i by (simp add: item_at_def)
  have "(\<exists>n \<in> set (filter (\<lambda>n. \<not> ?bar n) ?items). item_ok R a n \<and> ?id n = c \<and> ?v n = e) \<longleftrightarrow>
      (\<exists>i < length (pg_nodes P g). item_ok R a (item_at P g i) \<and> \<not> ?bar (item_at P g i) \<and> c = ?id (item_at P g i) \<and> ?v (item_at P g i) = e)"
    using item by (simp only: set_filter) blast
  also have "\<dots> \<longleftrightarrow> (\<exists>i < length (pg_nodes P g). c = ch_commit (pg_nodes P g ! i) \<and> accepted E M R a c
       \<and> evaluate_change R a (pg_nodes P g ! i) (cc_children (item_at P g i)) = Inr e)"
    using acc val i by metis
  finally show ?thesis
    unfolding ev fold_insert_get [OF d bmap_ok_empty] by (simp add: bmap.lookup_empty)
qed

text \<open>The entries of a history that was evaluated, in terms of the repository.\<close>

definition entries_of ::
  "('o, 'b) urn_env \<Rightarrow> multibase \<Rightarrow> 'o cob_repo \<Rightarrow> 'o authorizing_identity \<Rightarrow> (string + 'o) list \<Rightarrow> ('o, 'o history_entry) bmap \<Rightarrow> bool" where
  "entries_of E M R a tips entries =
     ((\<forall>c. bmap_get entries c \<noteq> None \<longleftrightarrow> reached E M R tips c \<and> accepted E M R a c)
      \<and> (\<forall>c e. bmap_get entries c = Some e \<longrightarrow> he_id e = c
           \<and> set (he_children e) = {k. reached E M R tips k \<and> c \<in> parents_of E M R k}
           \<and> (\<exists>ch author. change_load E M R c = Inr ch \<and> change_authorized R a ch author
                \<and> he_author e = vp_urn author \<and> he_contents e = ch_contents ch)))"

lemma evaluated_entries:
  assumes "petgraph_ok P" "graph_of P E M R tips g" "topo_of (set (pg_edges P g)) (length (pg_nodes P g)) order"
  shows "entries_of E M R a tips (evaluate_entries R a (map (item_at P g) order))"
  unfolding entries_of_def
proof (intro conjI allI impI)
  note spec = evaluate_entries_spec [OF assms, of a]
  fix c
  show "bmap_get (evaluate_entries R a (map (item_at P g) order)) c \<noteq> None \<longleftrightarrow> reached E M R tips c \<and> accepted E M R a c"
  proof
    assume "bmap_get (evaluate_entries R a (map (item_at P g) order)) c \<noteq> None"
    then show "reached E M R tips c \<and> accepted E M R a c" using spec [of c] graph_of_nth(2) [OF assms(2)] by auto
  next
    assume c: "reached E M R tips c \<and> accepted E M R a c"
    then obtain i where i: "i < length (pg_nodes P g)" "ch_commit (pg_nodes P g ! i) = c" using graph_of_index [OF assms(2)] by blast
    have "admitted E M R a c" using c by (simp add: accepted_def)
    then obtain e where "evaluate_change R a (pg_nodes P g ! i) (cc_children (item_at P g i)) = Inr e"
      using graph_of_nth(1) [OF assms(2) i(1)] i(2) by (auto simp: admitted_def evaluate_change_Inr)
    then show "bmap_get (evaluate_entries R a (map (item_at P g) order)) c \<noteq> None" using spec [of c e] i c by auto
  qed
next
  note spec = evaluate_entries_spec [OF assms, of a]
  fix c e assume "bmap_get (evaluate_entries R a (map (item_at P g) order)) c = Some e"
  then obtain i where i: "i < length (pg_nodes P g)" "c = ch_commit (pg_nodes P g ! i)"
    "evaluate_change R a (pg_nodes P g ! i) (cc_children (item_at P g i)) = Inr e" using spec [of c e] by blast
  note load = graph_of_nth(1) [OF assms(2) i(1)]
  obtain author where e: "change_authorized R a (pg_nodes P g ! i) author"
    "e = \<lparr>he_id = ch_commit (pg_nodes P g ! i), he_author = vp_urn author, he_children = cc_children (item_at P g i),
          he_contents = ch_contents (pg_nodes P g ! i)\<rparr>"
    using i(3) unfolding evaluate_change_Inr by blast
  show "he_id e = c" using e(2) i(2) by simp
  show "set (he_children e) = {k. reached E M R tips k \<and> c \<in> parents_of E M R k}"
    using e(2) i(2) item_children_set [OF assms(1,2) i(1)] by simp
  show "\<exists>ch author. change_load E M R c = Inr ch \<and> change_authorized R a ch author
      \<and> he_author e = vp_urn author \<and> he_contents e = ch_contents ch"
    using e load i(2) by (intro exI [of _ "pg_nodes P g ! i"] exI [of _ author]) simp
qed

lemma entries_of_ranked:
  assumes "entries_of E M R a tips entries" "acyclic_repo R rank" "\<And>c. reached E M R tips c \<Longrightarrow> rank c \<le> B"
  shows "ranked (\<lambda>c. B - rank c) entries"
  unfolding ranked_def
proof (intro allI impI conjI ballI)
  fix k e assume k: "bmap_get entries k = Some e"
  then show "he_id e = k" using assms(1) by (simp add: entries_of_def)
  fix c assume "c \<in> set (he_children e)"
  then have "reached E M R tips c" "k \<in> parents_of E M R c" using assms(1) k by (auto simp: entries_of_def)
  then have "rank k < rank c" "rank c \<le> B" using parents_of_rank [OF assms(2)] assms(3) by blast+
  then show "B - rank c < B - rank k" by simp
qed

text \<open>Some entry below another has a child that was not accepted.\<close>

definition rejected_below ::
  "('o, 'b) urn_env \<Rightarrow> multibase \<Rightarrow> 'o cob_repo \<Rightarrow> 'o authorizing_identity \<Rightarrow> (string + 'o) list \<Rightarrow> 'o \<Rightarrow> bool" where
  "rejected_below E M R a tips r =
     (\<exists>c k. (c = r \<or> ancestor E M R r c) \<and> reached E M R tips c \<and> accepted E M R a c
        \<and> c \<in> parents_of E M R k \<and> reached E M R tips k \<and> \<not> accepted E M R a k)"

lemma entries_ofD:
  assumes "entries_of E M R a tips entries" "bmap_get entries c = Some e"
  shows "reached E M R tips c" "accepted E M R a c" "he_id e = c"
    "k \<in> set (he_children e) \<longleftrightarrow> reached E M R tips k \<and> c \<in> parents_of E M R k"
  using assms by (auto simp: entries_of_def)

lemma entries_of_None:
  assumes "entries_of E M R a tips entries"
  shows "bmap_get entries c = None \<longleftrightarrow> \<not> (reached E M R tips c \<and> accepted E M R a c)"
  using assms unfolding entries_of_def by metis

lemma dangling_rejected:
  assumes "entries_of E M R a tips entries" "bmap_get entries r = Some e"
  shows "dangling entries e \<longleftrightarrow> rejected_below E M R a tips r"
proof
  assume "dangling entries e"
  then show "rejected_below E M R a tips r" using assms(2)
  proof (induction arbitrary: r rule: dangling.induct)
    case (dangling_here c e)
    then show ?case using entries_ofD [OF assms(1) dangling_here(3)] entries_of_None [OF assms(1), of c]
      unfolding rejected_below_def by blast
  next
    case (dangling_child c e d)
    have "r \<in> parents_of E M R c" using entries_ofD(4) [OF assms(1) dangling_child(5)] dangling_child(1) by blast
    then have "ancestor E M R r x" if "x = c \<or> ancestor E M R c x" for x
      using that ancestor_trans [OF ancestor_parent] by (auto intro: ancestor_parent)
    then show ?case using dangling_child(4) [OF dangling_child(2)] unfolding rejected_below_def by blast
  qed
next
  assume "rejected_below E M R a tips r"
  then obtain c k where ck: "c = r \<or> ancestor E M R r c" "reached E M R tips c" "accepted E M R a c"
    "c \<in> parents_of E M R k" "reached E M R tips k" "\<not> accepted E M R a k" unfolding rejected_below_def by blast
  have get: "\<exists>e. bmap_get entries x = Some e" if "reached E M R tips x" "accepted E M R a x" for x
    using entries_of_None [OF assms(1), of x] that by blast
  obtain ec where ec: "bmap_get entries c = Some ec" using get ck(2,3) by blast
  have "bmap_get entries k = None" using entries_of_None [OF assms(1)] ck(6) by blast
  then have dc: "dangling entries ec" using entries_ofD(4) [OF assms(1) ec] ck(4,5) by (blast intro: dangling_here)
  have "dangling entries e" if "ancestor E M R r c" "bmap_get entries r = Some e" "bmap_get entries c = Some ec" "dangling entries ec"
    for r c e ec
    using that
  proof (induction arbitrary: e ec rule: ancestor.induct)
    case (ancestor_parent d c)
    then show ?case using entries_ofD(4) [OF assms(1) ancestor_parent(2)] entries_ofD(1) [OF assms(1) ancestor_parent(3)]
      by (blast intro: dangling_child)
  next
    case (ancestor_step d y c)
    note c = entries_ofD(1,2) [OF assms(1) ancestor_step(5)]
    have "reached E M R tips y" "accepted E M R a y"
      using reached_parent [OF c(1)] accepted_ancestor [OF c(2)] ancestor_step(2) by (auto intro: ancestor_parent)
    then obtain ey where ey: "bmap_get entries y = Some ey" using get by blast
    have "dangling entries ey" using entries_ofD(4) [OF assms(1) ey] c(1) ancestor_step(2,5,6) by (blast intro: dangling_child)
    then show ?case using ancestor_step(3) [OF ancestor_step(4) ey] by blast
  qed
  then show "dangling entries e" using ck(1) ec dc assms(2) by auto
qed

section \<open>An example\<close>

text \<open>
  Two changes, one on top of the other, both by the identity they belong to; identifiers are
  numbers, written in unary in trailers.
\<close>

definition cob_env :: "(nat, nat) urn_env" where
  "cob_env =
     \<lparr>protocol = ''git'', into_multihash = id, from_multihash = Some, multihash_from_bytes = Some,
      multibase_encode = \<lambda>n. replicate n CHR ''x'', multibase_decode = \<lambda>s. Some (length s),
      utf8_percent_encode = \<lambda>s _. s, percent_decode_utf8 = Some\<rparr>"

definition cob_person :: "nat \<Rightarrow> nat verified_person" where
  "cob_person c = \<lparr>vp_urn = Urn 0 None, vp_content_id = c, vp_delegations = []\<rparr>"

definition cob_example :: "nat cob_repo" where
  "cob_example =
     \<lparr>rp_message = \<lambda>c. if c = 1 \<or> c = 2 then Some ''change'' else None,
      rp_parse_trailers = \<lambda>_. Inr [\<lparr>tr_token = ''X-Rad-Author'', tr_values = [''xxx'']\<rparr>,
        \<lparr>tr_token = ''X-Rad-Authorizing-Identity'', tr_values = [''xxxx'']\<rparr>],
      rp_tree = Inr, rp_entry = \<lambda>_ _. Some (Inr (Some ''contents'')),
      rp_manifest = \<lambda>_. Inr \<lparr>mf_typename = ''t'', mf_history_type = Automerge_type\<rparr>,
      rp_parents = \<lambda>c. if c = 2 then [1, 4, 3] else if c = 1 then [4, 3] else [],
      rp_verify = \<lambda>_ _ _. True, rp_some_identity = \<lambda>_. Inr Person_kind,
      rp_verify_person = \<lambda>c. Inr (cob_person c), rp_verify_project = \<lambda>_. Inl ''no project''\<rparr>"

definition cob_rank :: "nat \<Rightarrow> nat" where
  "cob_rank c = (if c = 2 then 2 else if c = 1 then 1 else 0)"

definition cob_change :: "nat \<Rightarrow> nat change" where
  "cob_change c =
     \<lparr>ch_commit = c, ch_revision = c, ch_signatures = [], ch_author_commit = 3, ch_schema_commit = None,
      ch_authorizing_identity_commit = 4, ch_manifest = \<lparr>mf_typename = ''t'', mf_history_type = Automerge_type\<rparr>,
      ch_contents = Automerge ''contents''\<rparr>"

declare load_loop.simps [code]

lemma cob_acyclic: "acyclic_repo cob_example cob_rank"
  by (simp add: acyclic_repo_def cob_example_def cob_rank_def)

lemma cob_loaded:
  "change_graph_load list_petgraph cob_env example_multibase cob_example [Inr 2]
     = Some (Some (Inr (Some ([cob_change 2, cob_change 1], [(1, 0)]))))"
  by code_simp

section \<open>Properties\<close>

text \<open>
  C10: loading a change graph ends, does not panic, and finds exactly the changes that are reached
  from the references through parents that are changes and can be loaded: each is one node, with an
  edge to it from each of its parents. Nothing is returned only when nothing is reached; a
  reference that does not lead to a commit is an error.
\<close>

theorem change_graph_load_exact:
  assumes "petgraph_ok P" "acyclic_repo R rank"
  shows "if Inl ` UNIV \<inter> set tips = {}
    then (\<exists>r. change_graph_load P E M R tips = Some (Some (Inr r))
      \<and> (case r of
           None \<Rightarrow> \<forall>c. \<not> reached E M R tips c
         | Some g \<Rightarrow>
             distinct (map ch_commit (pg_nodes P g))
             \<and> (\<forall>c. c \<in> set (pg_nodes P g) \<longleftrightarrow> reached E M R tips (ch_commit c) \<and> change_load E M R (ch_commit c) = Inr c)
             \<and> (\<forall>i j. (i, j) \<in> set (pg_edges P g) \<longleftrightarrow> i < length (pg_nodes P g) \<and> j < length (pg_nodes P g)
                  \<and> ch_commit (pg_nodes P g ! i) \<in> parents_of E M R (ch_commit (pg_nodes P g ! j)))))
    else (\<exists>e. change_graph_load P E M R tips = Some (Some (Inl e)))"
proof (cases "Inl ` UNIV \<inter> set tips = {}")
  case True
  obtain b where b: "change_graph_load P E M R tips = Some (Some (Inr (graph_build P b)))" "graph_of P E M R tips (gb_graph b)"
    using change_graph_loaded [OF assms True] .
  note root = graph_root [OF assms(1) graph_of_wf [OF b(2)] graph_of_acyclic [OF b(2) assms(2)]]
  have "\<not> reached E M R tips c" if "pg_nodes P (gb_graph b) = []" for c
  proof
    assume r: "reached E M R tips c"
    from reached_loadable [OF r] obtain ch where ch: "change_load E M R c = Inr ch" by (cases "change_load E M R c") (auto simp: loadable_def)
    then have "ch \<in> set (pg_nodes P (gb_graph b))" using r b(2) change_load_commit [OF ch] by (simp add: graph_of_def)
    then show False using that by simp
  qed
  then show ?thesis using True b root unfolding graph_of_def by (simp add: graph_build_def)
next
  case False
  then obtain x where "Inl x \<in> set tips" by auto
  then obtain e where "load_tips P E M R tips (builder_default P, []) = Inl e" using load_tips_error by blast
  then show ?thesis using False by (simp add: change_graph_load_def)
qed

theorem change_graph_load_exact_witness:
  "\<exists>g. change_graph_load list_petgraph cob_env example_multibase cob_example [Inr 2] = Some (Some (Inr (Some g)))
    \<and> reached cob_env example_multibase cob_example [Inr 2] (ch_commit (cob_change 1))
    \<and> cob_change 1 \<in> set (pg_nodes list_petgraph g)"
proof -
  let ?g = "([cob_change 2, cob_change 1], [(1, 0)])"
  have mem: "cob_change 1 \<in> set (pg_nodes list_petgraph ?g)" by (simp add: list_petgraph_def)
  have tips: "Inl ` UNIV \<inter> set [Inr 2 :: string + nat] = {}" by auto
  have "cob_change 1 \<in> set (pg_nodes list_petgraph ?g) \<longleftrightarrow>
      reached cob_env example_multibase cob_example [Inr 2] (ch_commit (cob_change 1))
      \<and> change_load cob_env example_multibase cob_example (ch_commit (cob_change 1)) = Inr (cob_change 1)"
    using change_graph_load_exact [OF list_petgraph_ok cob_acyclic, of "[Inr 2]" cob_env example_multibase]
    unfolding if_P [OF tips] cob_loaded by (simp del: One_nat_def)
  then show ?thesis using mem cob_loaded by blast
qed

lemma change_graph_load_graph:
  assumes "petgraph_ok P" "acyclic_repo R rank" "change_graph_load P E M R tips = Some (Some (Inr (Some g)))"
  shows "graph_of P E M R tips g" "pg_nodes P g \<noteq> []"
proof -
  have no: "Inl ` UNIV \<inter> set tips = {}"
  proof (rule ccontr)
    assume "Inl ` UNIV \<inter> set tips \<noteq> {}"
    then obtain x where "Inl x \<in> set tips" by auto
    then obtain e where "load_tips P E M R tips (builder_default P, []) = Inl e" using load_tips_error by blast
    then show False using assms(3) by (simp add: change_graph_load_def)
  qed
  obtain b where "change_graph_load P E M R tips = Some (Some (Inr (graph_build P b)))" "graph_of P E M R tips (gb_graph b)"
    using change_graph_loaded [OF assms(1,2) no] .
  then have g: "graph_build P b = Some g" "graph_of P E M R tips (gb_graph b)" using assms(3) by simp_all
  show gg: "graph_of P E M R tips g" using g by (simp add: graph_build_def split: if_splits)
  show "pg_nodes P g \<noteq> []"
    using graph_root [OF assms(1) graph_of_wf [OF gg] graph_of_acyclic [OF gg assms(2)]] g(1)
    by (auto simp: graph_build_def split: if_splits)
qed

lemma reached_bound:
  fixes rank :: "_ \<Rightarrow> nat"
  assumes "graph_of P E M R tips g" "reached E M R tips c"
  shows "rank c \<le> sum_list (map (\<lambda>ch. rank (ch_commit ch)) (pg_nodes P g))"
proof -
  obtain i where "i < length (pg_nodes P g)" "ch_commit (pg_nodes P g ! i) = c" using graph_of_index [OF assms] .
  then have "rank c \<in> set (map (\<lambda>ch. rank (ch_commit ch)) (pg_nodes P g))" by (auto intro: nth_mem)
  then show ?thesis by (rule member_le_sum_list) simp
qed

text \<open>
  C9: evaluating a loaded change graph keeps exactly the changes that are admitted together with
  all their ancestors, a change being admitted when all its signatures verify, the identity it
  refers to is the tip of a verified identity with the URN of the authorising one, and its author
  is a verified person which that identity authorises. The entries have the children, authors and
  contents of the changes. When the root or a child of an accepted change is rejected,
  evaluation panics instead.
\<close>

theorem change_graph_evaluate_exact:
  assumes "petgraph_ok P" "petgraph_ok Q" "acyclic_repo R rank"
    and "change_graph_load P E M R tips = Some (Some (Inr (Some g)))"
  shows "\<exists>r. reached E M R tips r \<and> parents_of E M R r = {}
    \<and> (if accepted E M R a r \<and> \<not> rejected_below E M R a tips r
       then \<exists>obj. change_graph_evaluate P Q R a oid g = Some (Some obj)
         \<and> co_authorizing_identity_urn obj = authorizer_urn a \<and> co_id obj = oid
         \<and> hi_root (co_history obj) = r \<and> entries_of E M R a tips (hi_entries (co_history obj))
       else change_graph_evaluate P Q R a oid g = Some None)"
proof -
  have g: "graph_of P E M R tips g" "pg_nodes P g \<noteq> []" using change_graph_load_graph [OF assms(1,3,4)] by simp_all
  note wf = graph_of_wf [OF g(1)] and ac = graph_of_acyclic [OF g(1) assms(3)]
  note topo = petgraph_sorting [OF assms(1) wf ac]
  obtain i rest where i: "sort (pg_externals P g Incoming) = i # rest"
    using graph_root [OF assms(1) wf ac] g(2) by (metis list.exhaust set_empty2 set_sort)
  then have "i \<in> set (pg_externals P g Incoming)" by (metis list.set_intros(1) set_sort)
  then have ir: "i < length (pg_nodes P g)" "\<And>j. (j, i) \<notin> set (pg_edges P g)" using petgraph_reading(2) [OF assms(1)] by auto
  let ?r = "ch_commit (pg_nodes P g ! i)" and ?items = "map (item_at P g) (pg_topo P g)"
  let ?en = "evaluate_entries R a ?items"
  have r: "reached E M R tips ?r" using graph_of_nth(2) [OF g(1) ir(1)] .
  have pr: "parents_of E M R ?r = {}"
  proof (rule ccontr)
    assume "parents_of E M R ?r \<noteq> {}"
    then obtain p where p: "p \<in> parents_of E M R ?r" by blast
    obtain j where "j < length (pg_nodes P g)" "ch_commit (pg_nodes P g ! j) = p" using graph_of_index [OF g(1) reached_parent [OF r p]] .
    then show False using p ir g(1) by (auto simp: graph_of_def)
  qed
  have items: "those (map (graph_item P g) (pg_topo P g)) = Some ?items"
    using graph_items [OF assms(1) wf] topo by (simp add: topo_of_def)
  have en: "entries_of E M R a tips ?en" by (rule evaluated_entries [OF assms(1) g(1) topo])
  have rk: "ranked (\<lambda>c. sum_list (map (\<lambda>ch. rank (ch_commit ch)) (pg_nodes P g)) - rank c) ?en"
    by (rule entries_of_ranked [OF en assms(3) reached_bound [OF g(1)]])
  note new = history_new_spec [OF assms(2) rk]
  have ev: "change_graph_evaluate P Q R a oid g = map_option (map_option (\<lambda>h.
      \<lparr>co_authorizing_identity_urn = authorizer_urn a, co_typename = mf_typename (ch_manifest (pg_nodes P g ! i)), co_history = h, co_id = oid\<rparr>))
      (evaluating_evaluate Q R a ?r ?items)"
    using i ir(1) items by (simp add: change_graph_evaluate_def pg_node_def)
  show ?thesis
  proof (intro exI [of _ ?r] conjI r pr)
    show "if accepted E M R a ?r \<and> \<not> rejected_below E M R a tips ?r
       then \<exists>obj. change_graph_evaluate P Q R a oid g = Some (Some obj)
         \<and> co_authorizing_identity_urn obj = authorizer_urn a \<and> co_id obj = oid
         \<and> hi_root (co_history obj) = ?r \<and> entries_of E M R a tips (hi_entries (co_history obj))
       else change_graph_evaluate P Q R a oid g = Some None"
    proof (cases "bmap_get ?en ?r")
      case None
      then have "\<not> accepted E M R a ?r" using entries_of_None [OF en] r by blast
      then show ?thesis using new(1) [OF None] by (simp add: ev evaluating_evaluate_def)
    next
      case (Some e)
      then have "accepted E M R a ?r" by (rule entries_ofD(2) [OF en])
      moreover have "dangling ?en e \<longleftrightarrow> rejected_below E M R a tips ?r" by (rule dangling_rejected [OF en Some])
      ultimately show ?thesis using new(2,3) [OF Some] en by (auto simp: ev evaluating_evaluate_def)
    qed
  qed
qed

theorem change_graph_evaluate_exact_witness:
  "\<exists>obj. change_graph_evaluate list_petgraph list_petgraph cob_example (Person_authorizer (cob_person 4)) 1
      ([cob_change 2, cob_change 1], [(1, 0)]) = Some (Some obj)
    \<and> entries_of cob_env example_multibase cob_example (Person_authorizer (cob_person 4)) [Inr 2] (hi_entries (co_history obj))"
proof -
  have "change_graph_evaluate list_petgraph list_petgraph cob_example (Person_authorizer (cob_person 4)) 1
      ([cob_change 2, cob_change 1], [(1, 0)]) \<noteq> Some None" by code_simp
  then show ?thesis
    using change_graph_evaluate_exact [OF list_petgraph_ok list_petgraph_ok cob_acyclic cob_loaded,
        of "Person_authorizer (cob_person 4)" 1] by (auto split: if_splits)
qed

end
