(* ===== verification/Replication_Refs.thy ===== *)
theory Replication_Refs
  imports Urn Peer "HOL-Library.Monad_Syntax"
begin

text \<open>
  The reference names of replication (\<open>link-replication/src/refs/parsed.rs\<close>, \<open>refs/scoped.rs\<close> and
  \<open>refs.rs\<close>): parsing a qualified name into the peer it belongs to and the name that peer gives to
  it, and moving names between peers. The trait \<open>ids::Urn\<close> is the record \<open>ids_urn\<close>, with
  \<open>identity_ids\<close> and \<open>urn_ids\<close> its instances. A result is \<open>None\<close> where the code panics.
\<close>

section \<open>Identifiers\<close>

record 'u ids_urn =
  ids_try_from_id :: "string \<Rightarrow> 'u option"
  ids_encode_id :: "'u \<Rightarrow> string"

text \<open>The type \<open>Identity\<close>, and the URNs of \<open>link-identities\<close>.\<close>

definition identity_ids :: "string ids_urn" where
  "identity_ids = \<lparr>ids_try_from_id = Some, ids_encode_id = id\<rparr>"

definition urn_ids :: "('o, 'b) urn_env \<Rightarrow> 'o urn ids_urn" where
  "urn_ids E =
     \<lparr>ids_try_from_id = \<lambda>s. (case urn_try_from_id E s of Inl _ \<Rightarrow> None | Inr u \<Rightarrow> Some u),
      ids_encode_id = urn_encode_id E\<rparr>"

definition from_urn :: "'u ids_urn \<Rightarrow> 'u \<Rightarrow> string option" where
  "from_urn U u = (case refstr_try_from (ids_encode_id U u) of Inl _ \<Rightarrow> None | Inr r \<Rightarrow> Some r)"

section \<open>Owned and remote tracking names\<close>

definition owned :: "string \<Rightarrow> string option option" where
  "owned name =
     (case qualified_non_empty_components name of
        None \<Rightarrow> None
      | Some (_, cat, _, tail) \<Rightarrow>
          if NAMESPACES = cat then Some None
          else if REMOTES = cat then
            (case tail of
               cat # name # tail \<Rightarrow>
                 map_option (\<lambda>name. Some (qualified_from_refs cat name)) (refstring_from_iter (name # tail))
             | _ \<Rightarrow> Some None)
          else Some (Some name))"

definition into_remote_tracking :: "multibase \<Rightarrow> bytes \<Rightarrow> string \<Rightarrow> string option" where
  "into_remote_tracking M remote_id q =
     do {
       (_, cat, name, tail) \<leftarrow> qualified_non_empty_components q;
       peer \<leftarrow> (case refstr_try_from (peer_default_encoding M remote_id) of Inl _ \<Rightarrow> None | Inr r \<Rightarrow> Some r);
       rest \<leftarrow> refstring_from_iter (name # tail);
       qualified_from_refs_remotes (refstring_and (refstring_and peer cat) rest)
     }"

section \<open>Parsed names\<close>

datatype 'u rad = Rad_id | Rad_selv | Rad_signed_refs | Rad_ids 'u

record 'u parsed =
  pa_remote :: "bytes option"
  pa_inner :: "'u rad + string"

datatype parsed_error =
    Unqualified_name
  | Namespaced_name string
  | PeerId_name conversion_error
  | Check_name check_error
  | Utf8_name
  | Other_name

definition rad_into_qualified :: "'u ids_urn \<Rightarrow> 'u rad \<Rightarrow> string option" where
  "rad_into_qualified U r =
     (case r of
        Rad_id \<Rightarrow> qualified_from_refs_rad_id
      | Rad_selv \<Rightarrow> qualified_from_refs_rad_self
      | Rad_signed_refs \<Rightarrow> qualified_from_refs_rad_signed_refs
      | Rad_ids u \<Rightarrow> from_urn U u \<bind> component_from_refstring \<bind> qualified_from_refs_rad_ids)"

definition parsed_to_owned :: "'u ids_urn \<Rightarrow> 'u parsed \<Rightarrow> string option" where
  "parsed_to_owned U p = (case pa_inner p of Inl rad \<Rightarrow> rad_into_qualified U rad | Inr name \<Rightarrow> Some name)"

fun parse_inner :: "'u ids_urn \<Rightarrow> string list \<Rightarrow> ('u rad + string) option option" where
  "parse_inner U [] = Some None"
| "parse_inner U (x # iter) =
     (if RAD = x then
        Some (case iter of
            [] \<Rightarrow> None
          | [y] \<Rightarrow>
              if y = ID then Some (Inl Rad_id)
              else if y = SELF then Some (Inl Rad_selv)
              else if y = SIGNED_REFS then Some (Inl Rad_signed_refs)
              else None
          | y # ident # iter \<Rightarrow>
              if y = IDS then
                ids_try_from_id U ident \<bind> (\<lambda>urn. if iter = [] then Some (Inl (Rad_ids urn)) else None)
              else None)
      else case iter of
        [] \<Rightarrow> Some None
      | y # iter \<Rightarrow>
          do {
            name \<leftarrow> refstring_from_iter (y # iter);
            result \<leftarrow> owned (qualified_from_refs x name);
            Some (map_option Inr result)
          })"

definition parsed_try_from :: "'u ids_urn \<Rightarrow> multibase \<Rightarrow> string \<Rightarrow> (parsed_error + 'u parsed) option" where
  "parsed_try_from U M q =
     (case qualified_non_empty_components q of
        None \<Rightarrow> None
      | Some (_, cat, head, tail) \<Rightarrow>
          if NAMESPACES = cat then Some (Inl (Namespaced_name cat))
          else if REMOTES = cat then
            (case peer_from_default_encoding M head of
               None \<Rightarrow> None
             | Some (Inl e) \<Rightarrow> Some (Inl (PeerId_name e))
             | Some (Inr remote) \<Rightarrow>
                 map_option (\<lambda>inner. map_ok (\<lambda>inner. \<lparr>pa_remote = Some remote, pa_inner = inner\<rparr>) (ok_or Other_name inner))
                   (parse_inner U tail))
          else
            map_option (\<lambda>inner. map_ok (\<lambda>inner. \<lparr>pa_remote = None, pa_inner = inner\<rparr>) (ok_or Other_name inner))
              (parse_inner U (cat # head # tail)))"

section \<open>Names and their components\<close>

text \<open>Every identifier that can be parsed has an encoding that is a component of a name.\<close>

definition ids_urn_ok :: "'u ids_urn \<Rightarrow> bool" where
  "ids_urn_ok U = (\<forall>c u. is_component c \<longrightarrow> ids_try_from_id U c = Some u \<longrightarrow>
     is_component (ids_encode_id U u) \<and> ids_encode_id U u \<noteq> ''@'')"

lemma urn_ids_ok: "urn_env_ok E \<Longrightarrow> ids_urn_ok (urn_ids E)"
  by (simp add: ids_urn_ok_def urn_ids_def urn_envD)

lemma from_urn_Some: "is_component (ids_encode_id U u) \<Longrightarrow> ids_encode_id U u \<noteq> ''@'' \<Longrightarrow> from_urn U u = Some (ids_encode_id U u)"
  using refstr_try_from_iff(1) [of "ids_encode_id U u" "ids_encode_id U u"] component_refstr [of "ids_encode_id U u"]
  by (simp add: from_urn_def)

text \<open>
  The identifiers of the type \<open>Identity\<close> are not checked: a reference \<open>refs/rad/ids/@\<close> is parsed,
  and rendering what was parsed panics.
\<close>

lemma identity_ids_panics:
  "parsed_try_from identity_ids M ''refs/rad/ids/@'' = Some (Inr \<lparr>pa_remote = None, pa_inner = Inl (Rad_ids ''@'')\<rparr>)
   \<and> parsed_to_owned identity_ids \<lparr>pa_remote = remote, pa_inner = Inl (Rad_ids ''@'')\<rparr> = None"
proof -
  have "refstr_components ''refs/rad/ids/@'' = [REFS, RAD, IDS, ''@'']" by code_simp
  moreover have "\<not> is_refstr ''@''" by (simp add: is_refstr_iff)
  then have "from_urn identity_ids ''@'' = None"
    by (cases "refstr_try_from ''@''") (simp_all add: from_urn_def identity_ids_def refstr_try_from_iff)
  ultimately show ?thesis
    by (simp add: parsed_try_from_def qualified_non_empty_components_def parsed_to_owned_def rad_into_qualified_def
        literal_defs identity_ids_def)
qed

text \<open>What \<open>owned\<close> and \<open>parse_inner\<close> do with the components of a name.\<close>

definition owned_comps :: "string list \<Rightarrow> string list option" where
  "owned_comps cs =
     (case cs of
        x # y # ys \<Rightarrow>
          if x = NAMESPACES then None
          else if x = REMOTES then (if length ys < 2 then None else Some ys)
          else Some cs
      | _ \<Rightarrow> None)"

lemma qualified_from_refs_join [simp]:
  assumes "ys \<noteq> []"
  shows "qualified_from_refs x (join_with slash ys) = join_with slash (REFS # x # ys)"
proof -
  have "REFS @ slash # x @ slash # join_with slash ys = join_with slash (REFS # x # ys)"
    using assms by (simp add: join_with_Cons)
  then show ?thesis by (simp add: qualified_from_refs_def refstring_and_def refstr_join_def refstring_push_def)
qed

lemma owned_join:
  assumes "list_all is_component (x # y # ys)"
  shows "owned (join_with slash (REFS # x # y # ys)) = Some (map_option (\<lambda>cs. join_with slash (REFS # cs)) (owned_comps (x # y # ys)))"
proof -
  have "refstr_components (join_with slash (REFS # x # y # ys)) = REFS # x # y # ys"
    using assms by (intro components_join) simp_all
  then show ?thesis
    by (simp add: owned_def owned_comps_def qualified_non_empty_components_def literal_defs Suc_le_length_iff
        less_Suc_eq_le not_less numeral_2_eq_2 split: list.splits)
qed

lemma parse_inner_other:
  assumes "x \<noteq> RAD" "list_all is_component (x # ys)"
  shows "parse_inner U (x # ys) = Some (map_option (\<lambda>cs. Inr (join_with slash (REFS # cs))) (owned_comps (x # ys)))"
  using assms owned_join [of x "hd ys" "tl ys"]
  by (cases ys) (auto simp: owned_comps_def option.map_comp comp_def)

lemma parse_inner_total:
  assumes "list_all is_component cs"
  shows "parse_inner U cs \<noteq> None"
proof (cases cs)
  case (Cons x ys)
  then show ?thesis using assms parse_inner_other [of x ys U] by (cases "x = RAD") auto
qed simp

lemma parse_inner_ids:
  assumes "parse_inner U cs = Some (Some (Inl (Rad_ids u)))"
  shows "\<exists>c \<in> set cs. ids_try_from_id U c = Some u"
proof (cases cs)
  case (Cons x ys)
  then show ?thesis using assms
    by (cases "RAD = x") (auto simp: Option.bind_eq_Some_conv split: list.splits if_splits)
qed (use assms in simp)

lemma qualified_components:
  assumes "is_qualified q"
  obtains b c cs where "refstr_components q = REFS # b # c # cs" "list_all is_component (b # c # cs)"
    "q = join_with slash (REFS # b # c # cs)"
proof -
  obtain b c cs where cs: "refstr_components q = REFS # b # c # cs" using assms is_qualified_iff by blast
  then have "join_with slash (REFS # b # c # cs) = q" using join_split [of slash q] by (simp add: refstr_components_def)
  moreover have "list_all is_component (b # c # cs)" using cs assms is_qualified_iff [of q] by simp
  ultimately show thesis using that [OF cs] by simp
qed

text \<open>Parsing panics only where decoding a peer identifier does.\<close>

lemma parsed_total:
  assumes "is_qualified q" "\<And>c. peer_from_default_encoding M c \<noteq> None"
  shows "parsed_try_from U M q \<noteq> None"
proof -
  obtain b c cs where q: "refstr_components q = REFS # b # c # cs" "list_all is_component (b # c # cs)"
    using qualified_components [OF assms(1)] .
  then have "parse_inner U cs \<noteq> None" "parse_inner U (b # c # cs) \<noteq> None"
    using parse_inner_total [of cs U] parse_inner_total [of "b # c # cs" U] by auto
  then show ?thesis using q(1) assms(2) [of c]
    by (auto simp: parsed_try_from_def qualified_non_empty_components_def simp del: parse_inner.simps split: sum.splits)
qed

lemma parsed_inner:
  assumes "parsed_try_from U M q = Some (Inr p)" "is_qualified q"
  obtains cs where "list_all is_component cs" "parse_inner U cs = Some (Some (pa_inner p))"
proof -
  obtain b c cs where q: "refstr_components q = REFS # b # c # cs" "list_all is_component (b # c # cs)"
    using qualified_components [OF assms(2)] .
  then show thesis using assms(1) that [of cs] that [of "b # c # cs"]
    by (auto simp: parsed_try_from_def qualified_non_empty_components_def ok_or_def simp del: parse_inner.simps
        split: sum.splits if_splits option.splits)
qed

text \<open>What was parsed can be rendered, when the encodings of identifiers are components.\<close>

lemma parsed_to_owned_total:
  assumes "ids_urn_ok U" "parsed_try_from U M q = Some (Inr p)" "is_qualified q"
  shows "\<exists>n. parsed_to_owned U p = Some n"
proof (cases "pa_inner p")
  case (Inl rad)
  show ?thesis
  proof (cases rad)
    case (Rad_ids u)
    obtain cs where cs: "list_all is_component cs" "parse_inner U cs = Some (Some (pa_inner p))"
      using parsed_inner [OF assms(2,3)] .
    obtain c where "c \<in> set cs" "ids_try_from_id U c = Some u"
      using parse_inner_ids [of U cs u] cs(2) Inl Rad_ids by auto
    then have u: "is_component (ids_encode_id U u)" "ids_encode_id U u \<noteq> ''@''"
      using assms(1) cs(1) by (auto simp: ids_urn_ok_def list_all_iff)
    then show ?thesis
      using Inl Rad_ids from_urn_Some [OF u]
      by (simp add: parsed_to_owned_def rad_into_qualified_def component_from_refstring_def is_component_def
          qualified_from_refs_rad_ids_def)
  qed (use Inl in \<open>simp_all add: parsed_to_owned_def rad_into_qualified_def qualified_from_refs_rad_id_def
      qualified_from_refs_rad_self_def qualified_from_refs_rad_signed_refs_def\<close>)
qed (simp add: parsed_to_owned_def)

text \<open>
  A name of one's own is turned into a remote tracking one, which is parsed as the same name, of
  the peer.
\<close>

lemma into_remote_tracking_join:
  assumes "multibase_ok M" "is_key k" "list_all is_component (x # y # ys)"
  shows "into_remote_tracking M k (join_with slash (REFS # x # y # ys))
    = Some (join_with slash (REFS # REMOTES # peer_default_encoding M k # x # y # ys))"
proof -
  have q: "refstr_components (join_with slash (REFS # x # y # ys)) = REFS # x # y # ys"
    using assms(3) by (intro components_join) simp_all
  have "refstr_try_from (peer_default_encoding M k) = Inr (peer_default_encoding M k)"
    using peer_component(1) [OF assms(1,2)] by (auto simp: component_from_peer_def refstr_try_from_iff split: sum.splits)
  then show ?thesis using q
    by (simp add: into_remote_tracking_def qualified_non_empty_components_def qualified_from_refs_remotes_def
        refstring_and_def refstring_push_def join_with_Cons)
qed

lemma parsed_remote_tracking:
  assumes "multibase_ok M" "is_key k" "list_all is_component (x # y # ys)" "x \<noteq> NAMESPACES" "x \<noteq> REMOTES"
    and "into_remote_tracking M k (join_with slash (REFS # x # y # ys)) = Some t"
  shows "parsed_try_from U M t
    = map_option (map_ok (\<lambda>p. p\<lparr>pa_remote := Some k\<rparr>)) (parsed_try_from U M (join_with slash (REFS # x # y # ys)))"
proof -
  have q: "refstr_components (join_with slash (REFS # x # y # ys)) = REFS # x # y # ys"
    using assms(3) by (intro components_join) simp_all
  have "is_component (peer_default_encoding M k)" using encoded_component(1) [OF assms(1,2)] .
  then have "refstr_components (join_with slash (REFS # REMOTES # peer_default_encoding M k # x # y # ys))
      = REFS # REMOTES # peer_default_encoding M k # x # y # ys"
    using assms(3) by (intro components_join) simp_all
  then have t: "refstr_components t = REFS # REMOTES # peer_default_encoding M k # x # y # ys"
    using assms(6) into_remote_tracking_join [OF assms(1-3)] by (simp only: option.inject)
  have "REMOTES \<noteq> NAMESPACES" by (simp add: literal_defs)
  then show ?thesis using q t assms(4,5) peer_parse_encode [OF assms(1,2)]
    by (cases "parse_inner U (x # y # ys)")
      (auto simp: parsed_try_from_def qualified_non_empty_components_def ok_or_def simp del: parse_inner.simps split: option.splits)
qed

end
