(* ===== verification/Replication_Validation.thy ===== *)
theory Replication_Validation
  imports Replication_Refs Tracking_Config
begin

text \<open>
  The validation of the references of a peer against its signed references
  (\<open>link-replication/src/validation.rs\<close>, with the errors of \<open>error.rs\<close> and the types of
  \<open>sigrefs.rs\<close> and \<open>refdb.rs\<close>). The trait \<open>RefScan\<close> is the argument \<open>scan\<close>. Maps and sets with an
  unspecified order are ordered here. A result is \<open>None\<close> where the code panics.
\<close>

section \<open>Validation\<close>

record 'o refdb_ref =
  rf_name :: string
  rf_target :: "'o + string"
  rf_peeled :: 'o

record 'o signed_refs =
  sr_at :: 'o
  sr_refs :: "(string, 'o) bmap"

datatype local_or_remote = LocalId | Remote_id bytes

definition local_or_remote_from :: "bytes option \<Rightarrow> local_or_remote" where
  "local_or_remote_from p = (case map_option Remote_id p of Some r \<Rightarrow> r | None \<Rightarrow> LocalId)"

datatype 'o validation =
    Unexpected string
  | Malformed string parsed_error
  | Missing string local_or_remote
  | MissingRadId local_or_remote
  | MissingSigRefs local_or_remote
  | MismatchedTips 'o 'o string
  | NoData local_or_remote

record 'o validating =
  va_fail :: "'o validation list"
  va_count :: nat
  va_seen :: "string bset"
  va_seen_rad_id :: bool
  va_seen_sigrefs :: bool

definition push_fail :: "'o validation \<Rightarrow> 'o validating \<Rightarrow> 'o validating" where
  "push_fail f st = st\<lparr>va_fail := va_fail st @ [f]\<rparr>"

definition validate_ref ::
  "'u ids_urn \<Rightarrow> multibase \<Rightarrow> bytes option \<Rightarrow> 'o signed_refs \<Rightarrow> 'o refdb_ref \<Rightarrow> 'o validating \<Rightarrow> 'o validating option" where
  "validate_ref U M ident refs r st =
     (case parsed_try_from U M (rf_name r) of
        None \<Rightarrow> None
      | Some (Inl e) \<Rightarrow> Some (push_fail (Malformed (rf_name r) e) st)
      | Some (Inr parsed) \<Rightarrow>
          if pa_remote parsed \<noteq> ident then Some st
          else
            map_option (\<lambda>owned_name.
                let st = st\<lparr>va_seen := snd (bset_insert owned_name (va_seen st))\<rparr> in
                case pa_inner parsed of
                  Inl Rad_id \<Rightarrow> st\<lparr>va_seen_rad_id := True\<rparr>
                | Inl Rad_signed_refs \<Rightarrow>
                    let st = st\<lparr>va_seen_sigrefs := True\<rparr> in
                    if rf_peeled r \<noteq> sr_at refs then push_fail (MismatchedTips (sr_at refs) (rf_peeled r) owned_name) st
                    else st
                | Inl _ \<Rightarrow> st
                | Inr name \<Rightarrow>
                    (case bmap_get (sr_refs refs) name of
                       Some tip \<Rightarrow>
                         if tip \<noteq> rf_peeled r then push_fail (MismatchedTips tip (rf_peeled r) name) st else st
                     | None \<Rightarrow> push_fail (Unexpected name) st))
              (parsed_to_owned U parsed))"

fun validate_loop ::
  "'u ids_urn \<Rightarrow> multibase \<Rightarrow> bytes option \<Rightarrow> 'o signed_refs \<Rightarrow> ('e + 'o refdb_ref) list \<Rightarrow> 'o validating \<Rightarrow>
   ('e + 'o validating) option" where
  "validate_loop U M ident refs [] st = Some (Inr st)"
| "validate_loop U M ident refs (Inl e # iter) st = Some (Inl e)"
| "validate_loop U M ident refs (Inr r # iter) st =
     (case validate_ref U M ident refs r (st\<lparr>va_count := va_count st + 1\<rparr>) of
        None \<Rightarrow> None
      | Some st \<Rightarrow> validate_loop U M ident refs iter st)"

definition validate_rest :: "bytes option \<Rightarrow> 'o signed_refs \<Rightarrow> 'o validating \<Rightarrow> 'o validation list" where
  "validate_rest ident refs st =
     (let ident = local_or_remote_from ident in
      if va_count st = 0 then va_fail st @ [NoData ident]
      else va_fail st
        @ (if va_seen_rad_id st then [] else [MissingRadId ident])
        @ (if va_seen_sigrefs st then [] else [MissingSigRefs ident])
        @ map (\<lambda>missing. Missing missing ident) (filter (\<lambda>k. k \<notin> set (va_seen st)) (bmap_keys (sr_refs refs))))"

definition sigtree_validate ::
  "'u ids_urn \<Rightarrow> multibase \<Rightarrow> bytes option \<Rightarrow> 'o signed_refs \<Rightarrow> ('e + 'o refdb_ref) list \<Rightarrow> ('e + 'o validation list) option" where
  "sigtree_validate U M ident refs iter =
     map_option (map_ok (validate_rest ident refs))
       (validate_loop U M ident refs iter
          \<lparr>va_fail = [], va_count = 0, va_seen = [], va_seen_rad_id = False, va_seen_sigrefs = False\<rparr>)"

definition validate ::
  "'u ids_urn \<Rightarrow> multibase \<Rightarrow> (string option \<Rightarrow> 'e + ('e + 'o refdb_ref) list) \<Rightarrow> bytes option \<Rightarrow> 'o signed_refs \<Rightarrow>
   ('e + 'o validation list) option" where
  "validate U M scan ident refs =
     (case ident of
        None \<Rightarrow>
          (case scan None of
             Inl e \<Rightarrow> Some (Inl e)
           | Inr iter \<Rightarrow>
               sigtree_validate U M ident refs
                 (filter (\<lambda>x. case x of Inl _ \<Rightarrow> True | Inr r \<Rightarrow> \<not> prefix ''refs/remotes'' (rf_name r)) iter))
      | Some peer \<Rightarrow>
          (case scan (Some (''refs/remotes/'' @ peer_default_encoding M peer)) of
             Inl e \<Rightarrow> Some (Inl e)
           | Inr iter \<Rightarrow> sigtree_validate U M ident refs iter))"

section \<open>What is reported\<close>

text \<open>A reference of the peer, as what it was parsed, and the name the peer gives to it.\<close>

definition stands_for ::
  "'u ids_urn \<Rightarrow> multibase \<Rightarrow> bytes option \<Rightarrow> 'o refdb_ref \<Rightarrow> 'u rad + string \<Rightarrow> string \<Rightarrow> bool" where
  "stands_for U M ident r inner n =
     (parsed_to_owned U \<lparr>pa_remote = ident, pa_inner = inner\<rparr> = Some n
      \<and> parsed_try_from U M (rf_name r) = Some (Inr \<lparr>pa_remote = ident, pa_inner = inner\<rparr>))"

text \<open>The failures of one reference.\<close>

inductive ref_failure ::
  "'u ids_urn \<Rightarrow> multibase \<Rightarrow> bytes option \<Rightarrow> 'o signed_refs \<Rightarrow> 'o refdb_ref \<Rightarrow> 'o validation \<Rightarrow> bool"
  for U M ident refs r where
  malformed: "parsed_try_from U M (rf_name r) = Some (Inl e) \<Longrightarrow> ref_failure U M ident refs r (Malformed (rf_name r) e)"
| unexpected: "stands_for U M ident r (Inr n) n \<Longrightarrow> bmap_get (sr_refs refs) n = None \<Longrightarrow>
    ref_failure U M ident refs r (Unexpected n)"
| mismatched: "stands_for U M ident r (Inr n) n \<Longrightarrow> bmap_get (sr_refs refs) n = Some tip \<Longrightarrow> tip \<noteq> rf_peeled r \<Longrightarrow>
    ref_failure U M ident refs r (MismatchedTips tip (rf_peeled r) n)"
| mismatched_sigrefs: "stands_for U M ident r (Inl Rad_signed_refs) n \<Longrightarrow> rf_peeled r \<noteq> sr_at refs \<Longrightarrow>
    ref_failure U M ident refs r (MismatchedTips (sr_at refs) (rf_peeled r) n)"

inductive_simps ref_failure_iff: "ref_failure U M ident refs r f"

text \<open>All failures.\<close>

inductive failure ::
  "'u ids_urn \<Rightarrow> multibase \<Rightarrow> bytes option \<Rightarrow> 'o signed_refs \<Rightarrow> 'o refdb_ref list \<Rightarrow> 'o validation \<Rightarrow> bool"
  for U M ident refs items where
  of_ref: "r \<in> set items \<Longrightarrow> ref_failure U M ident refs r f \<Longrightarrow> failure U M ident refs items f"
| no_data: "items = [] \<Longrightarrow> failure U M ident refs items (NoData (local_or_remote_from ident))"
| no_rad_id: "items \<noteq> [] \<Longrightarrow> \<nexists>r n. r \<in> set items \<and> stands_for U M ident r (Inl Rad_id) n \<Longrightarrow>
    failure U M ident refs items (MissingRadId (local_or_remote_from ident))"
| no_sigrefs: "items \<noteq> [] \<Longrightarrow> \<nexists>r n. r \<in> set items \<and> stands_for U M ident r (Inl Rad_signed_refs) n \<Longrightarrow>
    failure U M ident refs items (MissingSigRefs (local_or_remote_from ident))"
| missing: "items \<noteq> [] \<Longrightarrow> n \<in> dom (bmap_get (sr_refs refs)) \<Longrightarrow> \<nexists>r inner. r \<in> set items \<and> stands_for U M ident r inner n \<Longrightarrow>
    failure U M ident refs items (Missing n (local_or_remote_from ident))"

inductive_simps failure_iff: "failure U M ident refs items f"

text \<open>What the loop has recorded after some references.\<close>

definition records ::
  "'u ids_urn \<Rightarrow> multibase \<Rightarrow> bytes option \<Rightarrow> 'o signed_refs \<Rightarrow> 'o refdb_ref set \<Rightarrow> 'o validating \<Rightarrow> 'o validating \<Rightarrow> bool" where
  "records U M ident refs R st st' =
     (set (va_fail st') = set (va_fail st) \<union> {f. \<exists>r \<in> R. ref_failure U M ident refs r f}
      \<and> set (va_seen st') = set (va_seen st) \<union> {n. \<exists>r \<in> R. \<exists>inner. stands_for U M ident r inner n}
      \<and> (va_seen_rad_id st' \<longleftrightarrow> va_seen_rad_id st \<or> (\<exists>r \<in> R. \<exists>n. stands_for U M ident r (Inl Rad_id) n))
      \<and> (va_seen_sigrefs st' \<longleftrightarrow> va_seen_sigrefs st \<or> (\<exists>r \<in> R. \<exists>n. stands_for U M ident r (Inl Rad_signed_refs) n)))"

lemma records_trans:
  assumes "records U M ident refs R st st1" "records U M ident refs S st1 st2"
  shows "records U M ident refs (R \<union> S) st st2"
  using assms unfolding records_def bex_Un by auto

lemma stands_for_parsed:
  assumes "parsed_try_from U M (rf_name r) = Some (Inr p)"
  shows "stands_for U M ident r inner n \<longleftrightarrow> pa_remote p = ident \<and> pa_inner p = inner \<and> parsed_to_owned U p = Some n"
  using assms by (cases p) (auto simp: stands_for_def)

lemma validate_ref_records:
  assumes "parsed_try_from U M (rf_name r) \<noteq> None"
    and owned: "\<And>p. parsed_try_from U M (rf_name r) = Some (Inr p) \<Longrightarrow> \<exists>n. parsed_to_owned U p = Some n"
  shows "\<exists>st'. validate_ref U M ident refs r st = Some st' \<and> va_count st' = va_count st \<and> records U M ident refs {r} st st'"
proof (cases "parsed_try_from U M (rf_name r)")
  case (Some x)
  show ?thesis
  proof (cases x)
    case (Inl e)
    then show ?thesis using Some by (auto simp: validate_ref_def push_fail_def records_def ref_failure_iff stands_for_def)
  next
    case (Inr p)
    obtain n where n: "parsed_to_owned U p = Some n" using owned Some Inr by blast
    note v = stands_for_parsed [OF Some [unfolded Inr]]
    show ?thesis
    proof (cases "pa_remote p = ident")
      case True
      show ?thesis
      proof (cases "pa_inner p")
        case (Inl rad)
        then show ?thesis using Some Inr n True v
          by (cases rad) (auto simp: validate_ref_def push_fail_def records_def ref_failure_iff Let_def)
      next
        case (Inr m)
        then have "m = n" using n by (simp add: parsed_to_owned_def)
        then show ?thesis using Some \<open>x = Inr p\<close> n True v Inr
          by (cases "bmap_get (sr_refs refs) n") (auto simp: validate_ref_def push_fail_def records_def ref_failure_iff Let_def)
      qed
    next
      case False
      then show ?thesis using Some Inr v by (auto simp: validate_ref_def records_def ref_failure_iff)
    qed
  qed
qed (use assms(1) in simp)

lemma records_count [simp]: "records U M ident refs R (st\<lparr>va_count := k\<rparr>) st' = records U M ident refs R st st'"
  by (simp add: records_def)

lemma validate_loop_records:
  fixes items :: "'o refdb_ref list"
  assumes "\<forall>r \<in> set items. parsed_try_from U M (rf_name r) \<noteq> None
      \<and> (\<forall>p. parsed_try_from U M (rf_name r) = Some (Inr p) \<longrightarrow> (\<exists>n. parsed_to_owned U p = Some n))"
  shows "\<exists>st'. validate_loop U M ident refs (map Inr items :: ('e + 'o refdb_ref) list) st = Some (Inr st')
    \<and> va_count st' = va_count st + length items \<and> records U M ident refs (set items) st st'"
  using assms
proof (induction items arbitrary: st)
  case (Cons r items)
  obtain st1 where st1: "validate_ref U M ident refs r (st\<lparr>va_count := va_count st + 1\<rparr>) = Some st1"
    "va_count st1 = va_count st + 1" "records U M ident refs {r} st st1"
    using validate_ref_records [of U M r ident refs "st\<lparr>va_count := va_count st + 1\<rparr>"] Cons.prems by auto
  obtain st2 where st2: "validate_loop U M ident refs (map Inr items :: ('e + 'o refdb_ref) list) st1 = Some (Inr st2)"
    "va_count st2 = va_count st1 + length items" "records U M ident refs (set items) st1 st2"
    using Cons.IH [of st1] Cons.prems by auto
  have "records U M ident refs (set (r # items)) st st2" using records_trans [OF st1(3) st2(3)] by simp
  then show ?case using st1(1,2) st2(1,2) by simp
qed (simp add: records_def)

lemma sigtree_validate_failures:
  fixes items :: "'o refdb_ref list"
  assumes "\<forall>r \<in> set items. parsed_try_from U M (rf_name r) \<noteq> None
      \<and> (\<forall>p. parsed_try_from U M (rf_name r) = Some (Inr p) \<longrightarrow> (\<exists>n. parsed_to_owned U p = Some n))"
  shows "\<exists>fail. sigtree_validate U M ident refs (map Inr items :: ('e + 'o refdb_ref) list) = Some (Inr fail)
    \<and> (\<forall>f. f \<in> set fail \<longleftrightarrow> failure U M ident refs items f)"
proof -
  obtain st where st: "validate_loop U M ident refs (map Inr items :: ('e + 'o refdb_ref) list)
      \<lparr>va_fail = [], va_count = 0, va_seen = [], va_seen_rad_id = False, va_seen_sigrefs = False\<rparr> = Some (Inr st)"
    "va_count st = length items"
    "records U M ident refs (set items) \<lparr>va_fail = [], va_count = 0, va_seen = [], va_seen_rad_id = False, va_seen_sigrefs = False\<rparr> st"
    using validate_loop_records [OF assms] by fastforce
  have "f \<in> set (validate_rest ident refs st) \<longleftrightarrow> failure U M ident refs items f" for f
    using st(2,3) by (auto simp: validate_rest_def records_def failure_iff Let_def bmap_keys_set)
  then show ?thesis using st(1) by (simp add: sigtree_validate_def)
qed

text \<open>The references agree with what was signed.\<close>

definition agrees ::
  "'u ids_urn \<Rightarrow> multibase \<Rightarrow> bytes option \<Rightarrow> 'o signed_refs \<Rightarrow> 'o refdb_ref list \<Rightarrow> bool" where
  "agrees U M ident refs items =
     ((\<forall>r \<in> set items. \<exists>p. parsed_try_from U M (rf_name r) = Some (Inr p))
      \<and> (\<exists>r \<in> set items. \<exists>n. stands_for U M ident r (Inl Rad_id) n)
      \<and> (\<exists>r \<in> set items. \<exists>n. stands_for U M ident r (Inl Rad_signed_refs) n)
      \<and> (\<forall>r \<in> set items. \<forall>n. stands_for U M ident r (Inl Rad_signed_refs) n \<longrightarrow> rf_peeled r = sr_at refs)
      \<and> (\<forall>r \<in> set items. \<forall>n. stands_for U M ident r (Inr n) n \<longrightarrow> bmap_get (sr_refs refs) n = Some (rf_peeled r))
      \<and> (\<forall>n tip. bmap_get (sr_refs refs) n = Some tip \<longrightarrow>
           (\<exists>r \<in> set items. \<exists>inner. stands_for U M ident r inner n \<and> (inner = Inr n \<longrightarrow> rf_peeled r = tip))))"

lemma no_failure_agrees:
  assumes none: "\<And>f. \<not> failure U M ident refs items f"
    and parsed: "\<forall>r \<in> set items. parsed_try_from U M (rf_name r) \<noteq> None"
  shows "agrees U M ident refs items"
proof -
  have ne: "items \<noteq> []" using none no_data by blast
  have f: "\<not> ref_failure U M ident refs r g" if "r \<in> set items" for r g
    using none [of g] of_ref [OF that, of U M ident refs g] by blast
  have p: "\<exists>p. parsed_try_from U M (rf_name r) = Some (Inr p)" if r: "r \<in> set items" for r
  proof -
    obtain x where x: "parsed_try_from U M (rf_name r) = Some x" using parsed r by auto
    show ?thesis
    proof (cases x)
      case (Inl e)
      have "ref_failure U M ident refs r (Malformed (rf_name r) e)" by (rule malformed) (simp add: x Inl)
      then show ?thesis using f [OF r] by simp
    qed (simp add: x)
  qed
  have right: "bmap_get (sr_refs refs) n = Some (rf_peeled r)" if "r \<in> set items" "stands_for U M ident r (Inr n) n" for r n
  proof (cases "bmap_get (sr_refs refs) n")
    case None
    then show ?thesis using unexpected [OF that(2), of refs] f [OF that(1)] by simp
  next
    case (Some tip)
    then show ?thesis using mismatched [OF that(2) Some] f [OF that(1)] by auto
  qed
  have "\<exists>r \<in> set items. \<exists>inner. stands_for U M ident r inner n \<and> (inner = Inr n \<longrightarrow> rf_peeled r = tip)"
    if n: "bmap_get (sr_refs refs) n = Some tip" for n tip
  proof -
    obtain r inner where "r \<in> set items" "stands_for U M ident r inner n"
      using none missing [OF ne, of n refs U M ident] n by blast
    then show ?thesis using right [of r n] n by auto
  qed
  moreover have "rf_peeled r = sr_at refs" if "r \<in> set items" "stands_for U M ident r (Inl Rad_signed_refs) n" for r n
    using mismatched_sigrefs [OF that(2), of refs] f [OF that(1)] by auto
  moreover have "\<exists>r \<in> set items. \<exists>n. stands_for U M ident r (Inl Rad_id) n" using no_rad_id [OF ne] none by blast
  moreover have "\<exists>r \<in> set items. \<exists>n. stands_for U M ident r (Inl Rad_signed_refs) n" using no_sigrefs [OF ne] none by blast
  ultimately show ?thesis using p right unfolding agrees_def by blast
qed

lemma example_multibase_bytes: "length s = ENCODED_LEN \<longrightarrow> mb_decode example_multibase s \<noteq> Some []"
proof -
  have "ENCODED_LEN = 54" by code_simp
  then show ?thesis by (cases s) (auto simp: example_multibase_def simp flip: length_0_conv)
qed

definition example_refs :: "nat refdb_ref list" where
  "example_refs =
     [\<lparr>rf_name = ''refs/rad/id'', rf_target = Inl 1, rf_peeled = 1\<rparr>,
      \<lparr>rf_name = ''refs/rad/signed_refs'', rf_target = Inl 2, rf_peeled = 2\<rparr>,
      \<lparr>rf_name = ''refs/heads/main'', rf_target = Inl 3, rf_peeled = 3\<rparr>,
      \<lparr>rf_name = ''refs/remotes/other/heads/main'', rf_target = Inl 4, rf_peeled = 4\<rparr>]"

lemma example_refs_qualified: "\<forall>r \<in> set example_refs. is_qualified (rf_name r)"
  by code_simp

text \<open>
  A reference of the remotes of a peer is taken for one of the peer itself, so that it can stand
  in for a signed reference that is missing.
\<close>

lemma nested_remote_stands_in:
  assumes "multibase_ok M" "is_key k" "is_component x"
  shows "stands_for U M (Some k)
    \<lparr>rf_name = join_with slash [REFS, REMOTES, peer_default_encoding M k, REMOTES, x, HEADS, ''main''],
     rf_target = Inl tip, rf_peeled = tip\<rparr> (Inr ''refs/heads/main'') ''refs/heads/main''"
proof -
  let ?cs = "[REMOTES, x, HEADS, ''main'']"
  have c: "is_component (peer_default_encoding M k)" using encoded_component(1) [OF assms(1,2)] .
  have m: "is_component ''main''" by code_simp
  have "refstr_components (join_with slash ([REFS, REMOTES, peer_default_encoding M k] @ ?cs))
      = [REFS, REMOTES, peer_default_encoding M k] @ ?cs"
    using assms(3) c m by (intro components_join) simp_all
  moreover have l: "RAD \<noteq> REMOTES" "REMOTES \<noteq> NAMESPACES" "NAMESPACES \<noteq> REMOTES" by (simp_all add: literal_defs)
  moreover have "owned_comps ?cs = Some [HEADS, ''main'']" using l by (simp add: owned_comps_def)
  then have "parse_inner U ?cs = Some (Some (Inr (join_with slash [REFS, HEADS, ''main''])))"
    using parse_inner_other [of REMOTES "[x, HEADS, ''main'']" U] assms(3) m l
    by (simp del: parse_inner.simps join_with.simps)
  moreover have "join_with slash [REFS, HEADS, ''main''] = ''refs/heads/main''" by code_simp
  ultimately show ?thesis using peer_parse_encode [OF assms(1,2)]
    by (simp add: stands_for_def parsed_to_owned_def parsed_try_from_def qualified_non_empty_components_def
        del: parse_inner.simps join_with.simps)
qed

section \<open>Properties\<close>



end
