(* ===== verification/Spec2Isabelle.thy ===== *)
theory Spec2Isabelle
  imports Ref_Check Ref_Name Ordered Bounded Delegation Identity Partial_View Hpv Gossip Node
    Ref_Like Urn Peer Json Canonical_Formatter Tracking_Policy Tracking_Config Tracking_Storage
    Cob_Graph Replication_Validation
begin

text \<open>
  A verification development for radicle-link, a peer-to-peer protocol for code collaboration on
  top of git. All paths below are under \<open>src/\<close>.

  \<^bold>\<open>The program.\<close> Peers exchange git repositories. A repository belongs to an identity, a document
  with delegations whose history of revisions is verified by signatures; it is addressed by a URN.
  Peers find each other by a membership protocol (HyParView) and tell each other about news by
  gossip. What a peer replicates is decided by its tracking entries, which are references and
  blobs of its own repository; what it has replicated is validated against the references the
  other peer has signed. Collaborative objects are graphs of changes stored as commits, which
  are loaded from the references of all tracked peers and evaluated into a history.

  \<^bold>\<open>Conventions.\<close> A Rust \<open>str\<close> is the \<open>string\<close> of its UTF-8 bytes, \<open>Result\<close> a sum with the error on
  the left, \<open>BTreeMap\<close> and \<open>BTreeSet\<close> the sorted lists \<open>bmap\<close> and \<open>bset\<close> of \<open>Ordered\<close>; hash maps are
  these too, since no property depends on their order. A panic is \<open>None\<close>. Where a loop need not
  end it is a \<open>partial_function (option)\<close> and its result has one more \<open>option\<close>, whose \<open>None\<close> stands
  for not ending; no model uses fuel. Borrowed and owned versions of a type are one type, and
  logging is left out. Third-party code is a parameter: a record of its functions, with a
  predicate that states what its documentation promises, and an instance that satisfies it:
  \<open>urn_env\<close>, \<open>multibase\<close>, \<open>git_env\<close>, \<open>petgraph\<close> and \<open>ids_urn\<close> with predicates ending in \<open>_ok\<close>, and
  \<open>cob_repo\<close> with \<open>acyclic_repo\<close>.

  \<^bold>\<open>Shared theories.\<close> \<open>Prelude\<close> has results, splitting and joining of lists and the collections of
  simplification rules; \<open>Ordered\<close> has the ordered collections with the interface \<open>map_adt\<close>, which
  \<open>bmap\<close> interprets.

  \<^bold>\<open>Reference names.\<close> \<open>Ref_Check\<close> is \<open>ref_format\<close> of \<open>git-ref-format/core/src/check.rs\<close>, a single
  pass over the bytes with its error kinds, shown equivalent to the declarative rules of git.
  \<open>Ref_Name\<close> is \<open>name.rs\<close>, \<open>deriv.rs\<close>, \<open>lit.rs\<close> and \<open>refspec.rs\<close> of that crate: joining keeps names
  valid, components and patterns are recovered from their parts, adding and stripping namespaces
  are inverse, and recursive stripping ends. \<open>Ref_Like\<close> is the older \<open>git-ext/src/reference/name.rs\<close>.

  \<^bold>\<open>Data.\<close> \<open>Bounded\<close> is \<open>data/src/bounded.rs\<close> and \<open>nonempty.rs\<close>: no constructor, decoder or extension
  leaves the bounds. \<open>Peer\<close> is \<open>link-crypto/src/keys.rs\<close> and \<open>peer.rs\<close>, \<open>Urn\<close> is
  \<open>link-identities/src/urn.rs\<close>: all encodings can be read back. \<open>Json\<close> is the values and the
  printer of \<open>link-canonical\<close>, injective where strings have no quotation mark;
  \<open>Canonical_Formatter\<close> is its \<open>formatter.rs\<close> driven by the serialiser of serde_json.

  \<^bold>\<open>Identities.\<close> \<open>Delegation\<close> is \<open>link-identities/src/delegation\<close>; its interface
  \<open>delegation_scheme\<close> (eligible votes and the threshold they must exceed) is interpreted for direct,
  indirect and mixed delegations, and gives that two quorums share a voter. \<open>Identity\<close> is
  \<open>generic.rs\<close>: untrusted, signed, quorum and verified identities and the fold over a history. The
  fold returns only attested identities of the same root, finds the latest one, and two verified
  successors of one parent have a signer in common.

  \<^bold>\<open>Network.\<close> \<open>Partial_View\<close>, \<open>Hpv\<close>, \<open>Gossip\<close> and \<open>Node\<close> are \<open>librad/src/net/protocol\<close>:
  \<open>membership/partial_view.rs\<close>, the rest of \<open>membership\<close>, \<open>broadcast.rs\<close>, and \<open>membership.rs\<close>,
  \<open>tick.rs\<close>, \<open>accept.rs\<close>, \<open>control.rs\<close> and \<open>io/recv\<close>. The random number generator is a parameter of
  every operation that draws from it. The view stays well formed and within its limits in every
  reachable state, the reported transitions account for what changed, messages are forwarded and
  relayed as the protocol says and duplicates are dropped. Gossip relies on membership through
  the interface \<open>broadcast_membership\<close>. \<open>Node\<close> has the step relation \<open>node_step\<close> over arbitrary
  network behaviour and orders of work, which refines the reachability of membership states.

  \<^bold>\<open>Tracking.\<close> \<open>Tracking_Policy\<close>, \<open>Tracking_Ref\<close>, \<open>Tracking_Config\<close> and \<open>Tracking_Batch\<close> are the
  policies, names, configurations and fused batches of \<open>link-tracking\<close>; \<open>Tracking\<close> has its
  operations over an abstract database, with the interfaces \<open>tracking_store\<close> and \<open>live_store\<close>, in
  which the operations are shown to act on a map of entries; \<open>Tracking_Storage\<close> is the database of
  \<open>librad/src/git/tracking\<close> on a git repository and interprets both. The properties are stated for
  that repository: what each write does to the entries, that reads return them, that a batch is
  its actions in order, and that an entry can be made, found and removed.

  \<^bold>\<open>Replication.\<close> \<open>Replication_Refs\<close> is \<open>refs.rs\<close>, \<open>refs/parsed.rs\<close> and \<open>refs/scoped.rs\<close> of
  \<open>link-replication\<close>, \<open>Replication_Validation\<close> its \<open>validation.rs\<close>: the failures reported are
  exactly those there are, and without a failure references and signed references agree.
  The tips of \<open>rad/id\<close>, \<open>rad/self\<close> and \<open>rad/ids\<close> are not compared by the code.

  \<^bold>\<open>Collaborative objects.\<close> \<open>Cob_Fold\<close>, \<open>Cob_Change\<close>, \<open>Cob_History\<close> and \<open>Cob_Graph\<close> are
  \<open>pruning_fold.rs\<close>; trailers, changes, authorisation and evaluation of one change; \<open>history.rs\<close> and
  the cached graph; \<open>change_graph.rs\<close> of \<open>cob/src\<close>. \<open>Petgraph\<close> states what is used of the petgraph
  crate. Loading ends because commits have no cycles (the rank of \<open>acyclic_repo\<close>) and finds exactly
  the changes that are reached; evaluation keeps exactly the changes admitted with all their
  ancestors, and panics when the root or a child of an accepted change is rejected.

  \<^bold>\<open>Not modelled.\<close> The drivers of replication (\<open>link-replication/src/eval\<close>, \<open>fetch\<close>, \<open>peek\<close>,
  \<open>prepare\<close>, \<open>io\<close>), the storage of identities and signed references on git, the QUIC network with
  its codecs, streams, interrogation, request-pull and rate limiting, hooks, asynchronous helpers,
  git wrappers, command line tools and daemons are input and output around third-party libraries.
  The parsers of canonical JSON and of trailers are built from nom combinators and are parameters.
  Creating and updating collaborative objects and their file cache write commits and files.
  Metrics, timers and locks are left out. Derive macros generate code at compile time.
\<close>

end
